(* ===== verification/Prelude.thy ===== *)
theory Prelude
  imports Complex_Main "HOL-Library.AList"
begin

text \<open>
  What every component of the development shares.

  \<^item> JavaScript control flow: a handler reads and writes a state and may throw; the state written
    before a throw stays written. A handler with result type \<open>'a\<close> is therefore a function
    \<open>('s, 'a) js\<close> from the state to the exception or the result, and the state. \<open>js_bind\<close> is the
    semicolon, \<open>js_for\<close> the \<open>for\<close> loop over a list that was computed before the loop.
  \<^item> Decimal printing and the reading of digits, used by the time fields of the filter row and by
    the identifiers of the server.
  \<^item> A locale of machines with an invariant (a step relation, its initial states, a predicate that
    every step keeps), proved once and interpreted by every component that is a state machine.
  \<^item> Lemmas on association lists (JavaScript objects, attributes, cookies) and on lists.
\<close>

section \<open>Effects and exceptions\<close>

datatype js_exn = TypeError | RangeError | SyntaxError | InvalidStateError

type_synonym ('s, 'a) js = "'s \<Rightarrow> (js_exn + 'a) \<times> 's"

definition js_return :: "'a \<Rightarrow> ('s, 'a) js" where
  "js_return x = (\<lambda>s. (Inr x, s))"

definition js_throw :: "js_exn \<Rightarrow> ('s, 'a) js" where
  "js_throw e = (\<lambda>s. (Inl e, s))"

definition js_bind :: "('s, 'a) js \<Rightarrow> ('a \<Rightarrow> ('s, 'b) js) \<Rightarrow> ('s, 'b) js" where
  "js_bind m f = (\<lambda>s. case m s of (Inl e, s') \<Rightarrow> (Inl e, s') | (Inr x, s') \<Rightarrow> f x s')"

definition js_get :: "('s \<Rightarrow> 'a) \<Rightarrow> ('s, 'a) js" where
  "js_get f = (\<lambda>s. (Inr (f s), s))"

definition js_modify :: "('s \<Rightarrow> 's) \<Rightarrow> ('s, unit) js" where
  "js_modify f = (\<lambda>s. (Inr (), f s))"

primrec js_for :: "'a list \<Rightarrow> ('a \<Rightarrow> ('s, unit) js) \<Rightarrow> ('s, unit) js" where
  "js_for [] body = js_return ()"
| "js_for (x # xs) body = js_bind (body x) (\<lambda>_. js_for xs body)"

named_theorems js_run \<open>running a handler from a given state\<close>

lemma js_return_run [js_run]: "js_return x s = (Inr x, s)"
  by (simp add: js_return_def)

lemma js_throw_run [js_run]: "js_throw e s = (Inl e, s)"
  by (simp add: js_throw_def)

lemma js_get_run [js_run]: "js_get f s = (Inr (f s), s)"
  by (simp add: js_get_def)

lemma js_modify_run [js_run]: "js_modify f s = (Inr (), f s)"
  by (simp add: js_modify_def)

lemma js_bind_Inr: "m s = (Inr x, s') \<Longrightarrow> js_bind m f s = f x s'"
  by (simp add: js_bind_def)

lemma js_bind_Inl: "m s = (Inl e, s') \<Longrightarrow> js_bind m f s = (Inl e, s')"
  by (simp add: js_bind_def)

lemma js_bind_run [js_run]:
  "js_bind m f s = (case m s of (Inl e, s') \<Rightarrow> (Inl e, s') | (Inr x, s') \<Rightarrow> f x s')"
  by (simp add: js_bind_def)

lemma js_bind_assoc: "js_bind (js_bind m f) g = js_bind m (\<lambda>x. js_bind (f x) g)"
  by (rule ext) (simp add: js_bind_def split: prod.split sum.split)

lemma js_for_append:
  "js_for (xs @ ys) body = js_bind (js_for xs body) (\<lambda>_. js_for ys body)"
  by (induction xs) (simp_all add: js_bind_assoc, simp add: js_bind_def js_return_def)

section \<open>Machines with an invariant\<close>

text \<open>
  A component whose operations are steps from one state to the next: whatever the start states
  satisfy and every step keeps holds after any number of steps.
\<close>

locale invariant_machine =
  fixes start :: "'s \<Rightarrow> bool"
    and step :: "'s \<Rightarrow> 's \<Rightarrow> bool"
    and good :: "'s \<Rightarrow> bool"
  assumes start_good: "start s \<Longrightarrow> good s"
    and step_good: "good s \<Longrightarrow> step s t \<Longrightarrow> good t"
begin

lemma steps_good: "good s \<Longrightarrow> step\<^sup>*\<^sup>* s t \<Longrightarrow> good t"
  by (rotate_tac, induction rule: rtranclp_induct) (auto intro: step_good)

lemma reachable_good: "start s \<Longrightarrow> step\<^sup>*\<^sup>* s t \<Longrightarrow> good t"
  using start_good steps_good by blast

end

section \<open>Decimal notation\<close>

definition digit_char :: "nat \<Rightarrow> char" where
  "digit_char d = ''0123456789'' ! d"

fun show_nat :: "nat \<Rightarrow> string" where
  "show_nat n = (if n < 10 then [digit_char n] else show_nat (n div 10) @ [digit_char (n mod 10)])"

declare show_nat.simps [simp del]

definition show_int :: "int \<Rightarrow> string" where
  "show_int i = (if i < 0 then ''-'' @ show_nat (nat (- i)) else show_nat (nat i))"

lemma show_nat_nonempty [simp]: "show_nat n \<noteq> []"
  by (subst show_nat.simps) simp

lemma digit_char_cases:
  assumes "d < 10"
  shows "digit_char d \<in> set ''0123456789''"
  unfolding digit_char_def by (rule nth_mem) (use assms in simp)

lemma show_nat_digits: "set (show_nat n) \<subseteq> set ''0123456789''"
proof (induction n rule: show_nat.induct)
  case (1 n)
  show ?case
  proof (cases "n < 10")
    case True
    then show ?thesis using digit_char_cases [of n] by (simp add: show_nat.simps [of n])
  next
    case False
    then show ?thesis
      using 1 digit_char_cases [of "n mod 10"] by (simp add: show_nat.simps [of n])
  qed
qed

section \<open>Association lists\<close>

lemma map_of_update [simp]: "map_of (AList.update k v ps) = (map_of ps)(k \<mapsto> v)"
  by (simp add: AList.update_conv')

lemma fst_set_update [simp]: "fst ` set (AList.update k v ps) = insert k (fst ` set ps)"
  by (induction ps) auto

lemma distinct_keys_update [simp]:
  "distinct (map fst ps) \<Longrightarrow> distinct (map fst (AList.update k v ps))"
  by (simp add: AList.distinct_update)

lemma map_update_values:
  "map (\<lambda>(k, v). (k, f v)) (AList.update k v ps) =
     AList.update k (f v) (map (\<lambda>(k, v). (k, f v)) ps)"
  by (induction ps) auto

lemma map_of_map_values: "map_of (map (\<lambda>(k, v). (k, f v)) ps) k = map_option f (map_of ps k)"
  by (induction ps) auto

lemma set_update_subset: "set (AList.update k v ps) \<subseteq> insert (k, v) (set ps)"
  by (induction ps) auto

lemma update_split:
  assumes "map_of ps k = Some v"
  shows "\<exists>xs ys. ps = xs @ (k, v) # ys \<and> k \<notin> fst ` set xs \<and>
    (\<forall>w. AList.update k w ps = xs @ (k, w) # ys)"
  using assms
proof (induction ps)
  case (Cons p ps)
  obtain k' v' where p: "p = (k', v')" by (cases p)
  show ?case
  proof (cases "k' = k")
    case True
    then show ?thesis using Cons.prems p by (intro exI [of _ "[]"] exI [of _ ps]) auto
  next
    case False
    with Cons p obtain xs ys where
      "ps = xs @ (k, v) # ys" "k \<notin> fst ` set xs" "\<forall>w. AList.update k w ps = xs @ (k, w) # ys"
      by auto
    then show ?thesis using p False by (intro exI [of _ "p # xs"] exI [of _ ys]) auto
  qed
qed simp

lemma update_new: "map_of ps k = None \<Longrightarrow> AList.update k v ps = ps @ [(k, v)]"
  by (induction ps) (auto split: if_splits)

end
