(* ===== verification/Js_Number.thy ===== *)
theory Js_Number
  imports Prelude "HOL-Library.Signed_Division"
begin

text \<open>
  The time fields of the filter row. The server prints a length in seconds as minutes and seconds
  (\<open>FilterField.formatValue\<close> of \<open>BeatmapTableResource.java\<close>); when the visitor changes the field,
  the browser reads it back with \<open>toTime\<close> of \<open>code.js\<close>, whose work is done by \<open>split\<close> and
  \<open>parseInt\<close>.

  A \<open>char\<close> is a UTF-16 code unit below 256. A JavaScript number is an integer or \<open>NaN\<close>: the
  fields that reach the server are integers, and integers below \<open>2 ^ 53\<close> are exact in JavaScript.
\<close>

section \<open>Strings\<close>

text \<open>White space as \<open>trim\<close> and \<open>parseInt\<close> see it, below code unit 256.\<close>

definition js_ws :: "char \<Rightarrow> bool" where
  "js_ws c \<longleftrightarrow> (let n = (of_char c :: nat) in (9 \<le> n \<and> n \<le> 13) \<or> n = 32 \<or> n = 160)"

definition js_trim :: "string \<Rightarrow> string" where
  "js_trim s = rev (dropWhile js_ws (rev (dropWhile js_ws s)))"

text \<open>\<open>s.split(d)\<close> for a separator of one character.\<close>

fun js_split :: "char \<Rightarrow> string \<Rightarrow> string list" where
  "js_split d [] = [[]]"
| "js_split d (c # cs) =
     (if c = d then [] # js_split d cs
      else (case js_split d cs of [] \<Rightarrow> [[c]] | w # ws \<Rightarrow> (c # w) # ws))"

text \<open>An element of an array of strings, as the argument of a function that wants a string: an
  index out of range yields \<open>undefined\<close>, which becomes the string \<open>"undefined"\<close>.\<close>

definition js_string_at :: "string list \<Rightarrow> nat \<Rightarrow> string" where
  "js_string_at ws i = (if i < length ws then ws ! i else ''undefined'')"

section \<open>parseInt\<close>

datatype js_num = NaN | Num int

definition digit_val :: "char \<Rightarrow> nat option" where
  "digit_val c =
     (let n = (of_char c :: nat)
      in if 48 \<le> n \<and> n \<le> 57 then Some (n - 48)
         else if 97 \<le> n \<and> n \<le> 122 then Some (n - 87)
         else if 65 \<le> n \<and> n \<le> 90 then Some (n - 55)
         else None)"

text \<open>The digits of the longest prefix that is a number in the given radix.\<close>

fun digit_prefix :: "nat \<Rightarrow> string \<Rightarrow> nat list" where
  "digit_prefix r [] = []"
| "digit_prefix r (c # cs) =
     (case digit_val c of
        Some d \<Rightarrow> if d < r then d # digit_prefix r cs else []
      | None \<Rightarrow> [])"

definition digits_value :: "nat \<Rightarrow> nat list \<Rightarrow> nat" where
  "digits_value r ds = foldl (\<lambda>a d. a * r + d) 0 ds"

text \<open>\<open>parseInt(s)\<close> without a radix: leading white space, a sign, \<open>0x\<close> for radix 16, and then the
  longest prefix of digits; \<open>NaN\<close> when there is none.\<close>

definition parseInt :: "string \<Rightarrow> js_num" where
  "parseInt s =
     (let t = dropWhile js_ws s;
          neg = (t \<noteq> [] \<and> hd t = CHR ''-'');
          u = (if t \<noteq> [] \<and> (hd t = CHR ''-'' \<or> hd t = CHR ''+'') then tl t else t);
          hex = (take 2 u = ''0x'' \<or> take 2 u = ''0X'');
          r = (if hex then 16 else 10);
          ds = digit_prefix r (if hex then drop 2 u else u)
      in if ds = [] then NaN
         else Num (if neg then - int (digits_value r ds) else int (digits_value r ds)))"

section \<open>toTime\<close>

definition toTime :: "string \<Rightarrow> int option" where
  "toTime value =
     (let p = js_split (CHR '':'') value;
          i = parseInt (js_string_at p 0);
          s = parseInt (js_string_at p 1)
      in case (i, s) of
           (Num i, Num s) \<Rightarrow> Some (i * 60 + s)
         | _ \<Rightarrow> None)"

section \<open>The server's side of a time field\<close>

text \<open>\<open>String.format("%02d", n)\<close>: at least two characters, the sign counted.\<close>

definition format_02d :: "int \<Rightarrow> string" where
  "format_02d n = (if 0 \<le> n \<and> n < 10 then ''0'' @ show_int n else show_int n)"

text \<open>The branch of \<open>formatValue\<close> for a time field; Java's \<open>/\<close> and \<open>%\<close> truncate.\<close>

definition formatTime :: "int option \<Rightarrow> string" where
  "formatTime value =
     (case value of
        None \<Rightarrow> ''0:00''
      | Some v \<Rightarrow> show_int (v sdiv 60) @ '':'' @ format_02d (v smod 60))"

section \<open>Reading back what was printed\<close>

lemma digit_val_digit_char:
  assumes "d < 10"
  shows "digit_val (digit_char d) = Some d"
proof -
  have "list_all (\<lambda>d. digit_val (digit_char d) = Some d) [0..<10]" by code_simp
  then show ?thesis using assms by (simp add: list_all_iff)
qed

lemma digit_prefix_append:
  "\<forall>c \<in> set s. \<exists>d<r. digit_val c = Some d \<Longrightarrow>
     digit_prefix r (s @ t) = map (\<lambda>c. the (digit_val c)) s @ digit_prefix r t"
  by (induction s) auto

lemma show_nat_digit_vals: "c \<in> set (show_nat n) \<Longrightarrow> \<exists>d<10. digit_val c = Some d"
proof (induction n rule: show_nat.induct)
  case (1 n)
  have "digit_val (digit_char (n mod 10)) = Some (n mod 10)"
    by (rule digit_val_digit_char) simp
  with 1 show ?case
    by (cases "n < 10") (auto simp: show_nat.simps [of n] digit_val_digit_char)
qed

lemma digits_value_snoc: "digits_value r (ds @ [d]) = digits_value r ds * r + d"
  by (simp add: digits_value_def)

lemma digits_value_show_nat: "digits_value 10 (map (\<lambda>c. the (digit_val c)) (show_nat n)) = n"
proof (induction n rule: show_nat.induct)
  case (1 n)
  show ?case
  proof (cases "n < 10")
    case True
    then show ?thesis
      by (simp add: show_nat.simps [of n] digit_val_digit_char digits_value_def)
  next
    case False
    then show ?thesis
      using 1 by (simp add: show_nat.simps [of n] digit_val_digit_char digits_value_snoc)
  qed
qed

lemma digit_prefix_show_nat:
  "digit_prefix 10 (show_nat n) = map (\<lambda>c. the (digit_val c)) (show_nat n)"
  using digit_prefix_append [of "show_nat n" 10 "[]"] show_nat_digit_vals by simp

lemma digit_not_special:
  assumes "c \<in> set ''0123456789''"
  shows "\<not> js_ws c" "c \<noteq> CHR ''-''" "c \<noteq> CHR ''+''" "c \<noteq> CHR '':''" "c \<noteq> CHR ''x''"
    "c \<noteq> CHR ''X''" "c \<noteq> CHR '';''" "c \<noteq> CHR '' ''"
proof -
  have "list_all (\<lambda>c. \<not> js_ws c) ''0123456789''" by code_simp
  then show "\<not> js_ws c" using assms unfolding list_all_iff by blast
qed (use assms in auto)

lemma show_nat_chars:
  assumes "c \<in> set (show_nat n)"
  shows "\<not> js_ws c" "c \<noteq> CHR ''-''" "c \<noteq> CHR ''+''" "c \<noteq> CHR '':''" "c \<noteq> CHR ''x''"
    "c \<noteq> CHR ''X''"
  by (fact digit_not_special [OF subsetD [OF show_nat_digits assms]])+

lemma show_nat_Cons: "\<exists>c cs. show_nat n = c # cs \<and> c \<in> set (show_nat n)"
  by (cases "show_nat n") auto

lemma take2_show_nat:
  assumes "set z \<subseteq> set ''0123456789''"
  shows "take 2 (z @ show_nat n) \<noteq> ''0x'' \<and> take 2 (z @ show_nat n) \<noteq> ''0X''"
proof -
  have "set (take 2 (z @ show_nat n)) \<subseteq> set z \<union> set (show_nat n)"
    using set_take_subset [of 2 "z @ show_nat n"] by (simp only: set_append)
  then have "CHR ''x'' \<notin> set (take 2 (z @ show_nat n))" "CHR ''X'' \<notin> set (take 2 (z @ show_nat n))"
    using assms show_nat_chars(5,6) [of _ n] digit_not_special(5,6) by blast+
  then show ?thesis by (metis list.set_intros)
qed

lemma dropWhile_hd: "s \<noteq> [] \<Longrightarrow> \<not> P (hd s) \<Longrightarrow> dropWhile P s = s"
  by (cases s) auto

text \<open>A number read back, possibly after leading zeros.\<close>

lemma parseInt_digits:
  assumes "set z \<subseteq> {CHR ''0''}"
  shows "parseInt (z @ show_nat n) = Num (int n)"
proof -
  let ?s = "z @ show_nat n"
  have z: "set z \<subseteq> set ''0123456789''" using assms by auto
  have d: "set ?s \<subseteq> set ''0123456789''" using z show_nat_digits [of n] by auto
  have ne: "?s \<noteq> []" by simp
  have "hd ?s \<in> set ''0123456789''" using subsetD [OF d hd_in_set [OF ne]] .
  note h = digit_not_special [OF this]
  have z0: "map (\<lambda>c. the (digit_val c)) z = replicate (length z) 0"
    using assms by (intro replicate_eqI) (auto simp: digit_val_def)
  have "digits_value 10 (replicate k 0 @ ds) = digits_value 10 ds" for k ds
    by (induction k) (simp_all add: digits_value_def)
  moreover have "digit_prefix 10 ?s = map (\<lambda>c. the (digit_val c)) z @ digit_prefix 10 (show_nat n)"
    using assms by (intro digit_prefix_append) (auto simp: digit_val_def)
  ultimately have "digit_prefix 10 ?s \<noteq> [] \<and> digits_value 10 (digit_prefix 10 ?s) = n"
    by (simp add: digit_prefix_show_nat digits_value_show_nat z0)
  then show ?thesis
    using h take2_show_nat [OF z, of n] ne
    by (simp add: parseInt_def Let_def dropWhile_hd)
qed

lemma parseInt_minus_digits: "parseInt (CHR ''-'' # show_nat n) = Num (- int n)"
proof -
  have "\<not> js_ws (CHR ''-'')" by (simp add: js_ws_def)
  then show ?thesis
    using take2_show_nat [of "[]" n]
    by (simp add: parseInt_def Let_def digit_prefix_show_nat digits_value_show_nat)
qed

lemma parseInt_show_int: "parseInt (show_int i) = Num i"
  using parseInt_digits [of "[]" "nat i"] by (auto simp: show_int_def parseInt_minus_digits)

lemma parseInt_format_02d: "parseInt (format_02d i) = Num i"
  using parseInt_digits [of "''0''" "nat i"] parseInt_show_int [of i]
  by (auto simp: format_02d_def show_int_def)

lemma js_split_no_sep: "d \<notin> set s \<Longrightarrow> js_split d s = [s]"
  by (induction s) auto

lemma js_split_append: "d \<notin> set s \<Longrightarrow> js_split d (s @ d # t) = s # js_split d t"
  by (induction s) auto

lemma show_int_no_colon: "CHR '':'' \<notin> set (show_int i)"
  using show_nat_chars(4) by (auto simp: show_int_def)

lemma format_02d_no_colon: "CHR '':'' \<notin> set (format_02d i)"
  using show_int_no_colon by (simp add: format_02d_def)

lemma minutes_seconds: "(v sdiv 60) * 60 + v smod 60 = (v :: int)"
  by (rule sdiv_mult_smod_eq)

text \<open>C1. A length that the server prints into a time field is the number of seconds that the
  browser reads back from the field, whatever the length, negative ones included.\<close>

theorem toTime_formatTime: "toTime (formatTime (Some v)) = Some v"
proof -
  have "js_split (CHR '':'') (formatTime (Some v)) =
      [show_int (v sdiv 60), format_02d (v smod 60)]"
    by (simp add: formatTime_def js_split_append js_split_no_sep show_int_no_colon
        format_02d_no_colon)
  then show ?thesis
    by (simp add: toTime_def js_string_at_def parseInt_show_int parseInt_format_02d
        minutes_seconds)
qed

end
