(* ===== verification/Js_Heap.thy ===== *)
theory Js_Heap
  imports Js_Number
begin

text \<open>
  The filter request the page keeps and edits: \<open>deepMerge\<close> and \<open>rangeReq\<close> of \<open>code.js\<close>.

  \<open>rangeReq({mod: \<dots>})\<close> changes the object that \<open>window.__rangeRequest\<close> refers to, and
  \<open>rangeReq({copy: \<dots>})\<close> changes a copy of it, so the model has references: a heap of objects, each
  the list of its properties in the order they were added. An object of the heap that is shared
  by nobody is described by a tree whose object nodes carry their addresses (\<open>atree\<close>); what a tree
  without addresses (\<open>jtree\<close>) says is what \<open>JSON.stringify\<close> sees.

  The stack of the engine is bounded: a recursion deeper than \<open>stack\<close> throws a \<open>RangeError\<close>.

  Not modelled: arrays, functions and prototypes (no request holds any), and the order in which
  an engine lists keys that look like array indices.
\<close>

section \<open>Values and objects\<close>

datatype prim = Undef | Null | Bool bool | Number js_num | Str string

datatype jsval = Prim prim | Ref nat

type_synonym props = "(string \<times> jsval) list"

record jsstate =
  heap :: "nat \<Rightarrow> props option"
  next_addr :: nat
  rangeRequest :: jsval

text \<open>The values that count as true in a condition, and in \<open>a || b\<close>.\<close>

fun truthy_prim :: "prim \<Rightarrow> bool" where
  "truthy_prim Undef = False"
| "truthy_prim Null = False"
| "truthy_prim (Bool b) = b"
| "truthy_prim (Number NaN) = False"
| "truthy_prim (Number (Num i)) = (i \<noteq> 0)"
| "truthy_prim (Str s) = (s \<noteq> [])"

fun truthy :: "jsval \<Rightarrow> bool" where
  "truthy (Prim p) = truthy_prim p"
| "truthy (Ref a) = True"

text \<open>\<open>v != null && typeof v === 'object'\<close>\<close>

fun is_object :: "jsval \<Rightarrow> bool" where
  "is_object (Prim p) = False"
| "is_object (Ref a) = True"

text \<open>Reading a property: an error on \<open>undefined\<close> and \<open>null\<close>; a string has its characters and its
  length; other primitive values have no properties of their own.\<close>

definition string_prop :: "string \<Rightarrow> string \<Rightarrow> jsval" where
  "string_prop s key =
     (if key = ''length'' then Prim (Number (Num (int (length s))))
      else case filter (\<lambda>i. show_nat i = key) [0..<length s] of
             i # _ \<Rightarrow> Prim (Str [s ! i])
           | [] \<Rightarrow> Prim Undef)"

definition object_props :: "jsstate \<Rightarrow> nat \<Rightarrow> props" where
  "object_props st a = (case heap st a of Some ps \<Rightarrow> ps | None \<Rightarrow> [])"

fun js_prop :: "jsval \<Rightarrow> string \<Rightarrow> (jsstate, jsval) js" where
  "js_prop (Prim Undef) key = js_throw TypeError"
| "js_prop (Prim Null) key = js_throw TypeError"
| "js_prop (Prim (Str s)) key = js_return (string_prop s key)"
| "js_prop (Prim p) key = js_return (Prim Undef)"
| "js_prop (Ref a) key =
     js_get (\<lambda>st. case map_of (object_props st a) key of Some v \<Rightarrow> v | None \<Rightarrow> Prim Undef)"

text \<open>Writing a property: an error on \<open>undefined\<close> and \<open>null\<close>, without effect on other primitive
  values (the script is not in strict mode).\<close>

fun js_set_prop :: "jsval \<Rightarrow> string \<Rightarrow> jsval \<Rightarrow> (jsstate, unit) js" where
  "js_set_prop (Prim Undef) key v = js_throw TypeError"
| "js_set_prop (Prim Null) key v = js_throw TypeError"
| "js_set_prop (Prim p) key v = js_return ()"
| "js_set_prop (Ref a) key v =
     js_modify (\<lambda>st. st\<lparr>heap := (heap st)(a \<mapsto> AList.update key v (object_props st a))\<rparr>)"

text \<open>\<open>{}\<close>\<close>

definition js_new :: "(jsstate, jsval) js" where
  "js_new = js_bind (js_get next_addr) (\<lambda>a.
     js_bind (js_modify (\<lambda>st. st\<lparr>heap := (heap st)(a \<mapsto> []), next_addr := Suc a\<rparr>)) (\<lambda>_.
     js_return (Ref a)))"

text \<open>The keys that \<open>for (const key in v)\<close> visits.\<close>

fun js_keys :: "jsval \<Rightarrow> (jsstate, string list) js" where
  "js_keys (Ref a) = js_get (\<lambda>st. map fst (object_props st a))"
| "js_keys (Prim (Str s)) = js_return (map show_nat [0..<length s])"
| "js_keys (Prim p) = js_return []"

section \<open>deepMerge\<close>

primrec deepMerge :: "nat \<Rightarrow> jsval \<Rightarrow> jsval \<Rightarrow> (jsstate, unit) js" where
  "deepMerge 0 target source = js_throw RangeError"
| "deepMerge (Suc stack) target source =
     js_bind (js_keys source) (\<lambda>keys. js_for keys (\<lambda>key.
       js_bind (js_prop source key) (\<lambda>sv.
         if is_object sv then
           js_bind (js_prop target key) (\<lambda>tv.
           js_bind (if truthy tv then js_return tv else js_new) (\<lambda>ob.
           js_bind (js_set_prop target key ob) (\<lambda>_.
           js_bind (js_prop target key) (\<lambda>tv'.
           js_bind (js_prop source key) (\<lambda>sv'.
             deepMerge stack tv' sv')))))
         else
           js_bind (js_prop source key) (\<lambda>sv'. js_set_prop target key sv'))))"

section \<open>JSON\<close>

text \<open>The text of a JSON value is represented by the value itself. \<open>JSON.stringify\<close> throws on a
  cycle, leaves out properties that are \<open>undefined\<close> and writes \<open>NaN\<close> as \<open>null\<close>; \<open>None\<close> is the
  result \<open>undefined\<close>.\<close>

datatype jtree = TPrim prim | TObj "(string \<times> jtree) list"

fun json_prim :: "prim \<Rightarrow> prim option" where
  "json_prim Undef = None"
| "json_prim (Number NaN) = Some Null"
| "json_prim p = Some p"

fun json_members :: "(string \<times> (js_exn + jtree option)) list \<Rightarrow> js_exn + (string \<times> jtree) list" where
  "json_members [] = Inr []"
| "json_members ((k, Inl e) # ms) = Inl e"
| "json_members ((k, Inr None) # ms) = json_members ms"
| "json_members ((k, Inr (Some t)) # ms) =
     (case json_members ms of Inl e \<Rightarrow> Inl e | Inr ts \<Rightarrow> Inr ((k, t) # ts))"

primrec json_value :: "nat \<Rightarrow> jsstate \<Rightarrow> nat list \<Rightarrow> jsval \<Rightarrow> js_exn + jtree option" where
  "json_value 0 st path v = Inl RangeError"
| "json_value (Suc stack) st path v =
     (case v of
        Prim p \<Rightarrow> Inr (map_option TPrim (json_prim p))
      | Ref a \<Rightarrow>
          if a \<in> set path then Inl TypeError
          else (case json_members (map (\<lambda>(k, w). (k, json_value stack st (a # path) w))
                                       (object_props st a)) of
                  Inl e \<Rightarrow> Inl e
                | Inr ts \<Rightarrow> Inr (Some (TObj ts))))"

definition JSON_stringify :: "nat \<Rightarrow> jsval \<Rightarrow> (jsstate, jtree option) js" where
  "JSON_stringify stack v = (\<lambda>st. (json_value stack st [] v, st))"

text \<open>\<open>JSON.parse\<close> makes new objects for the objects of the text, the inner ones first. Parsing
  \<open>undefined\<close> is a syntax error.\<close>

fun alloc_tree :: "jtree \<Rightarrow> jsstate \<Rightarrow> jsval \<times> jsstate"
  and alloc_props :: "(string \<times> jtree) list \<Rightarrow> jsstate \<Rightarrow> props \<times> jsstate"
where
  "alloc_tree (TPrim p) st = (Prim p, st)"
| "alloc_tree (TObj ts) st =
     (let (ps, st') = alloc_props ts st; a = next_addr st'
      in (Ref a, st'\<lparr>heap := (heap st')(a \<mapsto> ps), next_addr := Suc a\<rparr>))"
| "alloc_props [] st = ([], st)"
| "alloc_props ((k, t) # ts) st =
     (let (v, st') = alloc_tree t st; (ps, st'') = alloc_props ts st' in ((k, v) # ps, st''))"

definition JSON_parse :: "jtree option \<Rightarrow> (jsstate, jsval) js" where
  "JSON_parse text =
     (case text of
        None \<Rightarrow> js_throw SyntaxError
      | Some t \<Rightarrow> (\<lambda>st. let (v, st') = alloc_tree t st in (Inr v, st')))"

section \<open>rangeReq\<close>

definition rangeReq :: "nat \<Rightarrow> jsval \<Rightarrow> (jsstate, jtree option) js" where
  "rangeReq stack obj =
     js_bind (js_get rangeRequest) (\<lambda>base.
     js_bind (js_prop obj ''copy'') (\<lambda>copy.
     if truthy copy then
       js_bind (JSON_stringify stack base) (\<lambda>text.
       js_bind (JSON_parse text) (\<lambda>base.
       js_bind (js_prop obj ''copy'') (\<lambda>copy.
       js_bind (deepMerge stack base copy) (\<lambda>_.
       JSON_stringify stack base))))
     else
       js_bind (js_prop obj ''mod'') (\<lambda>m.
       js_bind (deepMerge stack base m) (\<lambda>_.
       JSON_stringify stack base))))"

section \<open>The extension \<open>postrangerequest\<close>\<close>

text \<open>What the extension does to a request of htmx: it declares the body to be JSON, and sends the
  parameter \<open>json\<close> (the result of \<open>rangeReq\<close>) as the body.\<close>

definition postrangerequest_onEvent :: "string \<Rightarrow> (string \<times> string) list \<Rightarrow> (string \<times> string) list" where
  "postrangerequest_onEvent name headers =
     (if name = ''htmx:configRequest'' then AList.update ''Content-Type'' ''application/json'' headers
      else headers)"

definition postrangerequest_encodeParameters :: "(string \<times> 'v) list \<Rightarrow> 'v option" where
  "postrangerequest_encodeParameters parameters = map_of parameters ''json''"

end
