(* ===== verification/Js_Merge.thy ===== *)
theory Js_Merge
  imports Js_Heap
begin

text \<open>
  What \<open>deepMerge\<close> promises, said on trees (\<open>merge_into\<close>), and the proof that the heap program
  does it: when target and source share no object and no primitive value stands in the way, the
  program returns, the target becomes the merged tree, and no other object changes.
\<close>

section \<open>The abstract merge\<close>

text \<open>The properties to merge an object into: those of the object that is there, none otherwise.\<close>

fun obj_props :: "jtree option \<Rightarrow> (string \<times> jtree) list" where
  "obj_props (Some (TObj ps)) = ps"
| "obj_props _ = []"

fun merge_into :: "(string \<times> jtree) list \<Rightarrow> (string \<times> jtree) list \<Rightarrow> (string \<times> jtree) list" where
  "merge_into tp [] = tp"
| "merge_into tp ((k, TPrim p) # sp) = merge_into (AList.update k (TPrim p) tp) sp"
| "merge_into tp ((k, TObj qs) # sp) =
     merge_into (AList.update k (TObj (merge_into (obj_props (map_of tp k)) qs)) tp) sp"

text \<open>A primitive value that counts as true stays where an object should go, and the properties
  of that object are lost or cannot be written: the merge is meant for targets without this.\<close>

fun blocked :: "jtree option \<Rightarrow> bool" where
  "blocked (Some (TPrim p)) = truthy_prim p"
| "blocked _ = False"

fun mergeable :: "(string \<times> jtree) list \<Rightarrow> (string \<times> jtree) list \<Rightarrow> bool" where
  "mergeable tp [] = True"
| "mergeable tp ((k, TPrim p) # sp) = mergeable (AList.update k (TPrim p) tp) sp"
| "mergeable tp ((k, TObj qs) # sp) =
     (\<not> blocked (map_of tp k) \<and> mergeable (obj_props (map_of tp k)) qs \<and>
      mergeable (AList.update k (TObj (merge_into (obj_props (map_of tp k)) qs)) tp) sp)"

text \<open>Objects have each key once.\<close>

fun tree_keys :: "jtree \<Rightarrow> bool" where
  "tree_keys (TPrim p) = True"
| "tree_keys (TObj ps) = (distinct (map fst ps) \<and> list_all (\<lambda>(k, t). tree_keys t) ps)"

fun tree_height :: "jtree \<Rightarrow> nat" where
  "tree_height (TPrim p) = 0"
| "tree_height (TObj ps) = Suc (Max (insert 0 (set (map (\<lambda>(k, t). tree_height t) ps))))"

lemma merge_into_other: "k \<notin> fst ` set sp \<Longrightarrow> map_of (merge_into tp sp) k = map_of tp k"
  by (induction tp sp rule: merge_into.induct) auto

text \<open>What the merge does to each key.\<close>

lemma merge_into_key:
  assumes "distinct (map fst sp)"
  shows "map_of (merge_into tp sp) k =
    (case map_of sp k of
       None \<Rightarrow> map_of tp k
     | Some (TPrim p) \<Rightarrow> Some (TPrim p)
     | Some (TObj qs) \<Rightarrow> Some (TObj (merge_into (obj_props (map_of tp k)) qs)))"
  using assms
proof (induction sp arbitrary: tp)
  case (Cons e sp)
  obtain k' t where e: "e = (k', t)" by (cases e)
  show ?case
  proof (cases "k = k'")
    case True
    then have "map_of sp k = None" "k \<notin> fst ` set sp"
      using Cons.prems e by (auto simp: map_of_eq_None_iff)
    then show ?thesis using True e by (cases t) (auto simp: merge_into_other)
  next
    case False
    then show ?thesis using Cons e
      by (cases t) (auto split: option.split jtree.split)
  qed
qed simp

text \<open>The primitive value at the end of a path of keys.\<close>

fun leaf_at :: "(string \<times> jtree) list \<Rightarrow> string list \<Rightarrow> prim option" where
  "leaf_at ps [] = None"
| "leaf_at ps (k # ks) =
     (case map_of ps k of
        None \<Rightarrow> None
      | Some (TPrim p) \<Rightarrow> if ks = [] then Some p else None
      | Some (TObj qs) \<Rightarrow> leaf_at qs ks)"

text \<open>The source has something to say about a path: the path ends in the source or runs into a
  primitive value of it.\<close>

fun mentions :: "(string \<times> jtree) list \<Rightarrow> string list \<Rightarrow> bool" where
  "mentions sp [] = True"
| "mentions sp (k # ks) =
     (case map_of sp k of
        None \<Rightarrow> False
      | Some (TPrim p) \<Rightarrow> True
      | Some (TObj qs) \<Rightarrow> mentions qs ks)"

lemma tree_keys_map_of: "tree_keys (TObj sp) \<Longrightarrow> map_of sp k = Some t \<Longrightarrow> tree_keys t"
  by (auto simp: list_all_iff dest!: map_of_SomeD)

lemma leaf_at_obj_props:
  "leaf_at (obj_props (map_of tp k)) ks = (if ks = [] then None else leaf_at tp (k # ks))"
  by (cases ks) (auto split: option.split jtree.split)

text \<open>The path view of the merge: every primitive value of the source is in the result at the same
  path, and at every path the source does not mention the result has what the target had there.\<close>

lemma merge_into_leaf:
  assumes "tree_keys (TObj sp)"
  shows "leaf_at (merge_into tp sp) path =
    (if mentions sp path then leaf_at sp path else leaf_at tp path)"
  using assms
proof (induction path arbitrary: tp sp)
  case (Cons k ks)
  show ?case
  proof (cases "map_of sp k")
    case None
    then show ?thesis using Cons.prems by (simp add: merge_into_key)
  next
    case (Some t)
    show ?thesis
    proof (cases t)
      case (TPrim p)
      then show ?thesis using Some Cons.prems by (simp add: merge_into_key)
    next
      case (TObj qs)
      have "tree_keys (TObj qs)" using tree_keys_map_of [OF Cons.prems] Some TObj by blast
      note IH = Cons.IH [OF this, of "obj_props (map_of tp k)"]
      have "mentions qs ks" if "ks = []" using that by simp
      then show ?thesis
        using Some TObj Cons.prems IH by (auto simp: merge_into_key leaf_at_obj_props)
    qed
  qed
qed simp

section \<open>Trees in the heap\<close>

text \<open>A tree whose object nodes carry their addresses.\<close>

datatype atree = APrim prim | AObj nat "(string \<times> atree) list"

fun root :: "atree \<Rightarrow> jsval" where
  "root (APrim p) = Prim p"
| "root (AObj a ps) = Ref a"

abbreviation roots :: "(string \<times> atree) list \<Rightarrow> props" where
  "roots ps \<equiv> map (\<lambda>(k, t). (k, root t)) ps"

fun erase :: "atree \<Rightarrow> jtree" where
  "erase (APrim p) = TPrim p"
| "erase (AObj a ps) = TObj (map (\<lambda>(k, t). (k, erase t)) ps)"

abbreviation erases :: "(string \<times> atree) list \<Rightarrow> (string \<times> jtree) list" where
  "erases ps \<equiv> map (\<lambda>(k, t). (k, erase t)) ps"

fun addrs :: "atree \<Rightarrow> nat list" where
  "addrs (APrim p) = []"
| "addrs (AObj a ps) = a # concat (map (\<lambda>(k, t). addrs t) ps)"

definition addrss :: "(string \<times> atree) list \<Rightarrow> nat list" where
  "addrss ps = concat (map (\<lambda>(k, t). addrs t) ps)"

lemma addrs_AObj [simp]: "addrs (AObj a ps) = a # addrss ps"
  by (simp add: addrss_def)

declare addrs.simps(2) [simp del]

lemma addrss_simps [simp]:
  "addrss [] = []" "addrss ((k, t) # ps) = addrs t @ addrss ps" "addrss (ps @ qs) = addrss ps @ addrss qs"
  by (simp_all add: addrss_def)

lemma in_addrss: "x \<in> set (addrss ps) \<longleftrightarrow> (\<exists>k t. (k, t) \<in> set ps \<and> x \<in> set (addrs t))"
  by (fastforce simp: addrss_def)

lemma addrs_entry: "(k, t) \<in> set ps \<Longrightarrow> set (addrs t) \<subseteq> set (addrss ps)"
  by (fastforce simp: in_addrss)

lemma addrs_map_of: "map_of ps k = Some t \<Longrightarrow> set (addrs t) \<subseteq> set (addrss ps)"
  by (rule addrs_entry) (rule map_of_SomeD)

text \<open>The heap holds a tree: every object node is in the heap with the roots of its subtrees.\<close>

fun holds :: "jsstate \<Rightarrow> atree \<Rightarrow> bool" where
  "holds st (APrim p) = True"
| "holds st (AObj a ps) = (heap st a = Some (roots ps) \<and> list_all (\<lambda>(k, t). holds st t) ps)"

definition readable :: "jsstate \<Rightarrow> atree \<Rightarrow> bool" where
  "readable st t \<longleftrightarrow> holds st t \<and> (\<forall>a \<in> set (addrs t). a < next_addr st)"

text \<open>The tree is held and no object of it is used twice.\<close>

definition owns :: "jsstate \<Rightarrow> atree \<Rightarrow> bool" where
  "owns st t \<longleftrightarrow> readable st t \<and> distinct (addrs t)"

text \<open>From one state to another only the objects in \<open>A\<close> and new ones have changed.\<close>

definition changes_only :: "nat set \<Rightarrow> jsstate \<Rightarrow> jsstate \<Rightarrow> bool" where
  "changes_only A st st' \<longleftrightarrow> next_addr st \<le> next_addr st' \<and>
     (\<forall>x < next_addr st. x \<notin> A \<longrightarrow> heap st' x = heap st x) \<and>
     rangeRequest st' = rangeRequest st"

lemma changes_only_refl [simp]: "changes_only A st st"
  by (simp add: changes_only_def)

lemma changes_only_trans:
  "changes_only A st st' \<Longrightarrow> changes_only B st' st'' \<Longrightarrow>
     B \<subseteq> A \<union> {next_addr st..<next_addr st'} \<Longrightarrow> changes_only A st st''"
  unfolding changes_only_def
proof (intro conjI allI impI)
  fix x
  assume 1: "next_addr st \<le> next_addr st' \<and>
      (\<forall>x < next_addr st. x \<notin> A \<longrightarrow> heap st' x = heap st x) \<and> rangeRequest st' = rangeRequest st"
    and 2: "next_addr st' \<le> next_addr st'' \<and>
      (\<forall>x < next_addr st'. x \<notin> B \<longrightarrow> heap st'' x = heap st' x) \<and> rangeRequest st'' = rangeRequest st'"
    and B: "B \<subseteq> A \<union> {next_addr st..<next_addr st'}"
    and x: "x < next_addr st" "x \<notin> A"
  have "x \<notin> B" using B x by auto
  then show "heap st'' x = heap st x" using 1 2 x by auto
qed auto

lemma changes_only_mono: "changes_only A st st' \<Longrightarrow> A \<subseteq> B \<Longrightarrow> changes_only B st st'"
  unfolding changes_only_def by blast

lemma holds_cong:
  "holds st t \<Longrightarrow> \<forall>a \<in> set (addrs t). heap st' a = heap st a \<Longrightarrow> holds st' t"
proof (induction t)
  case (AObj a ps)
  have "holds st' t" if "(k, t) \<in> set ps" for k t
  proof -
    have "holds st t" using AObj.prems(1) that by (auto simp: list_all_iff)
    moreover have "\<forall>x \<in> set (addrs t). heap st' x = heap st x"
      using AObj.prems(2) addrs_entry [OF that] by auto
    ultimately show ?thesis using AObj.IH that by fastforce
  qed
  then show ?case using AObj.prems by (auto simp: list_all_iff)
qed simp

lemma readable_changes:
  assumes "readable st t" "changes_only A st st'" "set (addrs t) \<inter> A = {}"
  shows "readable st' t"
proof -
  have "\<forall>a \<in> set (addrs t). heap st' a = heap st a"
    using assms unfolding readable_def changes_only_def by blast
  then show ?thesis
    using assms holds_cong unfolding readable_def changes_only_def by (meson order_less_le_trans)
qed

lemma owns_changes:
  "owns st t \<Longrightarrow> changes_only A st st' \<Longrightarrow> set (addrs t) \<inter> A = {} \<Longrightarrow> owns st' t"
  using readable_changes unfolding owns_def by blast

lemma map_of_roots: "map_of (roots ps) k = map_option root (map_of ps k)"
  by (rule map_of_map_values)

lemma map_of_erases: "map_of (erases ps) k = map_option erase (map_of ps k)"
  by (rule map_of_map_values)

lemma update_roots: "roots (AList.update k t ps) = AList.update k (root t) (roots ps)"
  by (rule map_update_values)

lemma update_erases: "erases (AList.update k t ps) = AList.update k (erase t) (erases ps)"
  by (rule map_update_values)

lemma readable_child:
  assumes "readable st (AObj a ps)" "map_of ps k = Some t"
  shows "readable st t"
  using assms addrs_map_of [OF assms(2)]
  by (auto simp: readable_def list_all_iff dest!: map_of_SomeD)

text \<open>The addresses below a key, and what replacing the subtree there does to the whole.\<close>

definition child_addrs :: "(string \<times> atree) list \<Rightarrow> string \<Rightarrow> nat list" where
  "child_addrs ps k = (case map_of ps k of None \<Rightarrow> [] | Some t \<Rightarrow> addrs t)"

lemma owns_child:
  assumes "owns st (AObj a ps)" "map_of ps k = Some t"
  shows "owns st t"
proof -
  obtain xs ys where "ps = xs @ (k, t) # ys" using update_split [OF assms(2)] by blast
  then have "distinct (addrs t)" using assms(1) by (simp add: owns_def)
  then show ?thesis using assms readable_child by (auto simp: owns_def)
qed

lemma child_addrs_subset: "set (child_addrs ps k) \<subseteq> set (addrss ps)"
  by (cases "map_of ps k") (simp_all add: child_addrs_def addrs_map_of)

lemma child_not_root: "owns st (AObj a ps) \<Longrightarrow> a \<notin> set (child_addrs ps k)"
  using child_addrs_subset [of ps k] by (auto simp: owns_def)

lemma update_addrs:
  assumes "distinct (addrss ps)" "distinct (addrs c)"
    and "set (addrs c) \<inter> set (addrss ps) \<subseteq> set (child_addrs ps k)"
  shows "distinct (addrss (AList.update k c ps)) \<and>
    set (addrss (AList.update k c ps)) \<subseteq> set (addrss ps) \<union> set (addrs c)"
proof (cases "map_of ps k")
  case None
  then show ?thesis using assms by (auto simp: update_new child_addrs_def)
next
  case (Some t)
  obtain xs ys where "ps = xs @ (k, t) # ys" "AList.update k c ps = xs @ (k, c) # ys"
    using update_split [OF Some] by blast
  moreover have "child_addrs ps k = addrs t" using Some by (simp add: child_addrs_def)
  ultimately show ?thesis using assms by auto
qed

lemma update_held:
  assumes "list_all (\<lambda>(k, t). holds st t) ps" "distinct (addrss ps)" "holds st' c"
    and "\<forall>x \<in> set (addrss ps) - set (child_addrs ps k). heap st' x = heap st x"
  shows "list_all (\<lambda>(k, t). holds st' t) (AList.update k c ps)"
proof (cases "map_of ps k")
  case None
  then show ?thesis
    using assms holds_cong [of st _ st'] addrs_entry
    by (fastforce simp: update_new child_addrs_def list_all_iff)
next
  case (Some t)
  obtain xs ys where ps: "ps = xs @ (k, t) # ys" "AList.update k c ps = xs @ (k, c) # ys"
    using update_split [OF Some] by blast
  have old: "child_addrs ps k = addrs t" using Some by (simp add: child_addrs_def)
  have "holds st' u" if "(k', u) \<in> set (xs @ ys)" for k' u
  proof (rule holds_cong)
    show "holds st u" using assms(1) that ps(1) by (auto simp: list_all_iff)
    have u: "set (addrs u) \<subseteq> set (addrss (xs @ ys))" using that by (rule addrs_entry)
    moreover have "set (addrss (xs @ ys)) \<inter> set (addrs t) = {}" using assms(2) ps(1) by auto
    ultimately have "set (addrs u) \<subseteq> set (addrss ps) - set (child_addrs ps k)"
      using ps(1) old by auto
    then show "\<forall>x \<in> set (addrs u). heap st' x = heap st x"
      using assms(4) by blast
  qed
  then show ?thesis using ps(2) assms(3) by (auto simp: list_all_iff)
qed

lemma owns_update:
  assumes "owns st (AObj a ps)" "owns st' c" "next_addr st \<le> next_addr st'"
    and "heap st' a = Some (AList.update k (root c) (roots ps))"
    and "\<forall>x < next_addr st. x \<noteq> a \<longrightarrow> x \<notin> set (child_addrs ps k) \<longrightarrow> heap st' x = heap st x"
    and "set (addrs c) \<subseteq> set (child_addrs ps k) \<union> {next_addr st..<next_addr st'}"
  shows "owns st' (AObj a (AList.update k c ps)) \<and>
    set (addrs (AObj a (AList.update k c ps))) \<subseteq>
      set (addrs (AObj a ps)) \<union> {next_addr st..<next_addr st'}"
proof -
  have o: "list_all (\<lambda>(k, t). holds st t) ps" "distinct (addrss ps)" "a \<notin> set (addrss ps)"
    "\<forall>x \<in> set (addrss ps). x < next_addr st" "a < next_addr st"
    using assms(1) by (auto simp: owns_def readable_def)
  have c: "distinct (addrs c)" "holds st' c" "\<forall>x \<in> set (addrs c). x < next_addr st'"
    using assms(2) by (auto simp: owns_def readable_def)
  have "set (addrs c) \<inter> set (addrss ps) \<subseteq> set (child_addrs ps k)"
    using assms(6) o(4) by fastforce
  note u = update_addrs [OF o(2) c(1) this]
  have h: "list_all (\<lambda>(k, t). holds st' t) (AList.update k c ps)"
    by (rule update_held [OF o(1,2) c(2)]) (use assms(5) o(3,4) in fastforce)
  have sub: "set (addrss (AList.update k c ps)) \<subseteq>
      set (addrss ps) \<union> {next_addr st..<next_addr st'}"
    using u assms(6) child_addrs_subset [of ps k] by blast
  then have "\<forall>x \<in> set (addrss (AList.update k c ps)). x < next_addr st'"
    using o(4) assms(3) by fastforce
  moreover have "a \<notin> set (addrss (AList.update k c ps))"
    using sub o(3,5) by fastforce
  ultimately show ?thesis
    using h u sub o(5) assms(3,4) by (auto simp: owns_def readable_def update_roots)
qed

section \<open>The program refines the merge\<close>

definition merge_step :: "nat \<Rightarrow> jsval \<Rightarrow> jsval \<Rightarrow> string \<Rightarrow> (jsstate, unit) js" where
  "merge_step stack target source key =
     js_bind (js_prop source key) (\<lambda>sv.
       if is_object sv then
         js_bind (js_prop target key) (\<lambda>tv.
         js_bind (if truthy tv then js_return tv else js_new) (\<lambda>ob.
         js_bind (js_set_prop target key ob) (\<lambda>_.
         js_bind (js_prop target key) (\<lambda>tv'.
         js_bind (js_prop source key) (\<lambda>sv'.
           deepMerge stack tv' sv')))))
       else
         js_bind (js_prop source key) (\<lambda>sv'. js_set_prop target key sv'))"

lemma deepMerge_Suc:
  "deepMerge (Suc stack) target source =
     js_bind (js_keys source) (\<lambda>keys. js_for keys (merge_step stack target source))"
  unfolding deepMerge.simps merge_step_def [abs_def] ..

definition merged :: "jsstate \<Rightarrow> jsstate \<Rightarrow> nat \<Rightarrow> (string \<times> atree) list \<Rightarrow> (string \<times> jtree) list \<Rightarrow>
    (string \<times> atree) list \<Rightarrow> bool" where
  "merged st st' a tp sp tp' \<longleftrightarrow> owns st' (AObj a tp') \<and>
     set (addrs (AObj a tp')) \<subseteq> set (addrs (AObj a tp)) \<union> {next_addr st..<next_addr st'} \<and>
     changes_only (set (addrs (AObj a tp))) st st' \<and>
     erases tp' = merge_into (erases tp) sp"

lemma object_props_root: "readable st (AObj a ps) \<Longrightarrow> object_props st a = roots ps"
  by (simp add: readable_def object_props_def)

lemma js_prop_child:
  assumes "readable st (AObj a ps)"
  shows "js_prop (Ref a) k st =
    (Inr (case map_of ps k of None \<Rightarrow> Prim Undef | Some t \<Rightarrow> root t), st)"
  using assms by (simp add: js_get_run object_props_root map_of_roots split: option.split)

lemma merge_step_prim:
  assumes t: "owns st (AObj a tp)" and s: "readable st (AObj b sp)"
    and k: "map_of sp k = Some (APrim p)"
  shows "\<exists>st' tp'. merge_step n (Ref a) (Ref b) k st = (Inr (), st') \<and>
    merged st st' a tp [(k, TPrim p)] tp'"
proof -
  define st' where "st' = st\<lparr>heap := (heap st)(a \<mapsto> AList.update k (Prim p) (roots tp))\<rparr>"
  have rt: "readable st (AObj a tp)" using t by (simp add: owns_def)
  have run: "merge_step n (Ref a) (Ref b) k st = (Inr (), st')"
    using k by (simp add: merge_step_def js_bind_run js_modify_run js_prop_child [OF s]
        object_props_root [OF rt] st'_def del: js_prop.simps)
  have "owns st' (APrim p)" by (simp add: owns_def readable_def)
  note u = owns_update [OF t this, of k]
  have "owns st' (AObj a (AList.update k (APrim p) tp)) \<and>
      set (addrs (AObj a (AList.update k (APrim p) tp))) \<subseteq>
        set (addrs (AObj a tp)) \<union> {next_addr st..<next_addr st'}"
    by (rule u) (simp_all add: st'_def)
  moreover have "changes_only (set (addrs (AObj a tp))) st st'"
    by (simp add: changes_only_def st'_def)
  ultimately have "merged st st' a tp [(k, TPrim p)] (AList.update k (APrim p) tp)"
    by (simp add: merged_def update_erases)
  then show ?thesis using run by blast
qed

text \<open>A subobject of the source: the object to merge into is the one at the key or a new one.\<close>

lemma merge_step_target:
  assumes t: "owns st (AObj a tp)" and s: "readable st (AObj b sp)" and ab: "a \<noteq> b"
    and k: "map_of sp k = Some (AObj c qs)"
    and free: "\<not> blocked (map_of (erases tp) k)"
  shows "\<exists>d ps st1. merge_step n (Ref a) (Ref b) k st = deepMerge n (Ref d) (Ref c) st1 \<and>
      owns st1 (AObj d ps) \<and> next_addr st \<le> next_addr st1 \<and>
      set (addrs (AObj d ps)) \<subseteq> set (child_addrs tp k) \<union> {next_addr st..<next_addr st1} \<and>
      heap st1 a = Some (AList.update k (Ref d) (roots tp)) \<and>
      (\<forall>x < next_addr st. x \<noteq> a \<longrightarrow> heap st1 x = heap st x) \<and>
      rangeRequest st1 = rangeRequest st \<and> erases ps = obj_props (map_of (erases tp) k)"
proof -
  have rt: "readable st (AObj a tp)" using t by (simp add: owns_def)
  have b: "b < next_addr st" "a < next_addr st" using s rt by (simp_all add: readable_def)
  have here: "object_props st a = roots tp" "object_props st b = roots sp"
    using object_props_root [OF rt] object_props_root [OF s] by simp_all
  show ?thesis
  proof (cases "\<exists>d ps. map_of tp k = Some (AObj d ps)")
    case True
    then obtain d ps where tk: "map_of tp k = Some (AObj d ps)" by blast
    have "AList.update k (Ref d) (roots tp) = roots tp"
      by (rule AList.update_triv) (simp add: map_of_roots tk)
    moreover from this have "st\<lparr>heap := (heap st)(a \<mapsto> AList.update k (Ref d) (roots tp))\<rparr> = st"
      using rt by (simp add: readable_def fun_upd_idem)
    moreover from this have "merge_step n (Ref a) (Ref b) k st = deepMerge n (Ref d) (Ref c) st"
      using k tk by (simp add: merge_step_def js_run map_of_roots here)
    ultimately show ?thesis
      using owns_child [OF t tk] tk rt
      by (intro exI [of _ d] exI [of _ ps] exI [of _ st])
        (simp add: child_addrs_def map_of_erases readable_def)
  next
    case False
    let ?d = "next_addr st"
    define st1 where "st1 = st\<lparr>next_addr := Suc ?d,
      heap := (heap st)(?d \<mapsto> [], a \<mapsto> AList.update k (Ref ?d) (roots tp))\<rparr>"
    have none: "obj_props (map_of (erases tp) k) = []"
      using False by (cases "map_of tp k"; cases "the (map_of tp k)") (auto simp: map_of_erases)
    have "\<not> truthy (case map_of tp k of None \<Rightarrow> Prim Undef | Some t \<Rightarrow> root t)"
      using False free
      by (cases "map_of tp k"; cases "the (map_of tp k)") (auto simp: map_of_erases)
    then have "merge_step n (Ref a) (Ref b) k st = deepMerge n (Ref ?d) (Ref c) st1"
      using k b ab rt s
      by (cases "map_of tp k")
        (simp_all add: merge_step_def js_new_def js_run map_of_roots object_props_def
          readable_def st1_def)
    moreover have "owns st1 (AObj ?d [])"
      using b by (simp add: owns_def readable_def st1_def)
    ultimately show ?thesis
      using none by (intro exI [of _ ?d] exI [of _ "[]"] exI [of _ st1]) (simp add: st1_def)
  qed
qed

lemma merge_step_obj:
  assumes t: "owns st (AObj a tp)" and s: "readable st (AObj b sp)"
    and k: "map_of sp k = Some (AObj c qs)"
    and free: "\<not> blocked (map_of (erases tp) k)"
    and dis: "set (addrs (AObj a tp)) \<inter> set (addrs (AObj b sp)) = {}"
    and IH: "\<And>st a' tp'. owns st (AObj a' tp') \<Longrightarrow> readable st (AObj c qs) \<Longrightarrow>
        set (addrs (AObj a' tp')) \<inter> set (addrs (AObj c qs)) = {} \<Longrightarrow>
        erases tp' = obj_props (map_of (erases tp) k) \<Longrightarrow>
        \<exists>st' tp''. deepMerge n (Ref a') (Ref c) st = (Inr (), st') \<and>
          merged st st' a' tp' (erases qs) tp''"
  shows "\<exists>st' tp'. merge_step n (Ref a) (Ref b) k st = (Inr (), st') \<and>
    merged st st' a tp [(k, TObj (erases qs))] tp'"
proof -
  have rt: "readable st (AObj a tp)" using t by (simp add: owns_def)
  have "a \<noteq> b" using dis by auto
  from merge_step_target [OF t s this k free, of n] obtain d ps st1 where
    run: "merge_step n (Ref a) (Ref b) k st = deepMerge n (Ref d) (Ref c) st1"
    and od: "owns st1 (AObj d ps)" and nx: "next_addr st \<le> next_addr st1"
    and sub: "set (addrs (AObj d ps)) \<subseteq> set (child_addrs tp k) \<union> {next_addr st..<next_addr st1}"
    and ha: "heap st1 a = Some (AList.update k (Ref d) (roots tp))"
    and fr: "\<forall>x < next_addr st. x \<noteq> a \<longrightarrow> heap st1 x = heap st x"
    and rr: "rangeRequest st1 = rangeRequest st"
    and er: "erases ps = obj_props (map_of (erases tp) k)"
    by blast
  have c: "set (addrs (AObj c qs)) \<subseteq> set (addrs (AObj b sp))" using addrs_map_of [OF k] by auto
  have old: "set (child_addrs tp k) \<subseteq> set (addrs (AObj a tp))"
    using child_addrs_subset [of tp k] by auto
  have ch1: "changes_only {a} st st1" using nx fr rr by (simp add: changes_only_def)
  have rc: "readable st (AObj c qs)" by (rule readable_child [OF s k])
  have "set (addrs (AObj c qs)) \<inter> {a} = {}" using c dis by auto
  then have rc1: "readable st1 (AObj c qs)" using readable_changes [OF rc ch1] by blast
  have "set (addrs (AObj d ps)) \<inter> set (addrs (AObj c qs)) = {}"
    using sub old c dis rc by (fastforce simp: readable_def)
  from IH [OF od rc1 this er] obtain st' ps' where
    run': "deepMerge n (Ref d) (Ref c) st1 = (Inr (), st')"
    and m: "merged st1 st' d ps (erases qs) ps'" by blast
  have m': "owns st' (AObj d ps')"
    "set (addrs (AObj d ps')) \<subseteq> set (addrs (AObj d ps)) \<union> {next_addr st1..<next_addr st'}"
    "changes_only (set (addrs (AObj d ps))) st1 st'" "next_addr st1 \<le> next_addr st'"
    using m by (simp_all add: merged_def changes_only_def)
  have a1: "a < next_addr st" "a \<notin> set (addrs (AObj d ps))"
    using rt sub child_not_root [OF t, of k] by (auto simp: readable_def)
  have "owns st' (AObj a (AList.update k (AObj d ps') tp)) \<and>
      set (addrs (AObj a (AList.update k (AObj d ps') tp))) \<subseteq>
        set (addrs (AObj a tp)) \<union> {next_addr st..<next_addr st'}"
  proof (rule owns_update [OF t m'(1)])
    show "next_addr st \<le> next_addr st'" using nx m'(4) by simp
    show "heap st' a = Some (AList.update k (root (AObj d ps')) (roots tp))"
      using m'(3) a1 ha nx by (simp add: changes_only_def)
    show "\<forall>x < next_addr st. x \<noteq> a \<longrightarrow> x \<notin> set (child_addrs tp k) \<longrightarrow> heap st' x = heap st x"
    proof (intro allI impI)
      fix x assume x: "x < next_addr st" "x \<noteq> a" "x \<notin> set (child_addrs tp k)"
      then have "x \<notin> set (addrs (AObj d ps))" using sub by auto
      then show "heap st' x = heap st x" using m'(3) fr nx x by (simp add: changes_only_def)
    qed
    show "set (addrs (AObj d ps')) \<subseteq> set (child_addrs tp k) \<union> {next_addr st..<next_addr st'}"
      using m'(2,4) sub nx by fastforce
  qed
  moreover have "changes_only (set (addrs (AObj a tp))) st st'"
  proof (rule changes_only_trans)
    show "changes_only (set (addrs (AObj a tp))) st st1" by (rule changes_only_mono [OF ch1]) auto
  qed (use m'(3) sub old in auto)
  ultimately have "merged st st' a tp [(k, TObj (erases qs))] (AList.update k (AObj d ps') tp)"
    using m er by (simp add: merged_def update_erases)
  then show ?thesis using run run' by auto
qed

lemma merge_into_snoc: "merge_into tp (xs @ ys) = merge_into (merge_into tp xs) ys"
  by (induction tp xs rule: merge_into.induct) auto

lemma merged_trans:
  assumes "merged st st1 a tp xs tp1" "merged st1 st' a tp1 ys tp'"
  shows "merged st st' a tp (xs @ ys) tp'"
proof -
  have le: "next_addr st \<le> next_addr st1" "next_addr st1 \<le> next_addr st'"
    using assms by (simp_all add: merged_def changes_only_def)
  have "changes_only (set (addrs (AObj a tp))) st st'"
    by (rule changes_only_trans [of _ _ st1 "set (addrs (AObj a tp1))"])
      (use assms in \<open>simp_all add: merged_def\<close>)
  moreover have "set (addrs (AObj a tp')) \<subseteq> set (addrs (AObj a tp)) \<union> {next_addr st..<next_addr st'}"
    using assms le unfolding merged_def by fastforce
  ultimately show ?thesis using assms by (simp add: merged_def merge_into_snoc)
qed

lemma merged_refl: "owns st (AObj a tp) \<Longrightarrow> merged st st a tp [] tp"
  by (simp add: merged_def)

text \<open>One key of the source, whatever is there.\<close>

definition merge_ok :: "nat \<Rightarrow> bool" where
  "merge_ok n \<longleftrightarrow> (\<forall>st a tp b sp. owns st (AObj a tp) \<longrightarrow> readable st (AObj b sp) \<longrightarrow>
     set (addrs (AObj a tp)) \<inter> set (addrs (AObj b sp)) = {} \<longrightarrow>
     tree_keys (erase (AObj b sp)) \<longrightarrow> tree_height (erase (AObj b sp)) \<le> n \<longrightarrow>
     mergeable (erases tp) (erases sp) \<longrightarrow>
     (\<exists>st' tp'. deepMerge n (Ref a) (Ref b) st = (Inr (), st') \<and>
        merged st st' a tp (erases sp) tp'))"

lemma merge_step_entry:
  assumes t: "owns st (AObj a tp)" and s: "readable st (AObj b sp)"
    and dis: "set (addrs (AObj a tp)) \<inter> set (addrs (AObj b sp)) = {}"
    and k: "map_of sp k = Some u" and keys: "tree_keys (erase u)" and h: "tree_height (erase u) \<le> n"
    and m: "mergeable (erases tp) [(k, erase u)]" and IH: "merge_ok n"
  shows "\<exists>st' tp'. merge_step n (Ref a) (Ref b) k st = (Inr (), st') \<and>
    merged st st' a tp [(k, erase u)] tp'"
proof (cases u)
  case (APrim p)
  then show ?thesis using merge_step_prim [OF t s] k by simp
next
  case (AObj c qs)
  have m': "\<not> blocked (map_of (erases tp) k)"
    "mergeable (obj_props (map_of (erases tp) k)) (erases qs)"
    using m AObj by simp_all
  have "\<exists>st' tp'. merge_step n (Ref a) (Ref b) k st = (Inr (), st') \<and>
      merged st st' a tp [(k, TObj (erases qs))] tp'"
  proof (rule merge_step_obj [OF t s _ m'(1) dis])
    show "map_of sp k = Some (AObj c qs)" using k AObj by simp
    fix st a' tp'
    assume "owns st (AObj a' tp')" "readable st (AObj c qs)"
      "set (addrs (AObj a' tp')) \<inter> set (addrs (AObj c qs)) = {}"
      "erases tp' = obj_props (map_of (erases tp) k)"
    then show "\<exists>st' tp''. deepMerge n (Ref a') (Ref c) st = (Inr (), st') \<and>
        merged st st' a' tp' (erases qs) tp''"
      using IH [unfolded merge_ok_def, rule_format, of st a' tp' c qs] keys h m'(2) AObj by simp
  qed
  then show ?thesis using AObj by simp
qed

text \<open>The loop over the keys of the source.\<close>

lemma merge_loop:
  assumes IH: "merge_ok n"
    and "owns st (AObj a tp)" "readable st (AObj b sp)"
    and "set (addrs (AObj a tp)) \<inter> set (addrs (AObj b sp)) = {}"
    and "\<forall>(k, u) \<in> set es. map_of sp k = Some u \<and> tree_keys (erase u) \<and> tree_height (erase u) \<le> n"
    and "mergeable (erases tp) (erases es)"
  shows "\<exists>st' tp'. js_for (map fst es) (merge_step n (Ref a) (Ref b)) st = (Inr (), st') \<and>
    merged st st' a tp (erases es) tp'"
  using assms(2-)
proof (induction es arbitrary: st tp)
  case Nil
  then show ?case using merged_refl by (auto simp: js_return_run)
next
  case (Cons e es)
  obtain k u where e: "e = (k, u)" by (cases e)
  have m: "mergeable (erases tp) [(k, erase u)]"
    "mergeable (merge_into (erases tp) [(k, erase u)]) (erases es)"
    using Cons.prems(5) e by (cases "erase u"; simp)+
  obtain st1 tp1 where 1: "merge_step n (Ref a) (Ref b) k st = (Inr (), st1)"
    "merged st st1 a tp [(k, erase u)] tp1"
    using merge_step_entry [OF Cons.prems(1-3) _ _ _ m(1) IH] Cons.prems(4) e by fastforce
  have t1: "owns st1 (AObj a tp1)" "changes_only (set (addrs (AObj a tp))) st st1"
    "set (addrs (AObj a tp1)) \<subseteq> set (addrs (AObj a tp)) \<union> {next_addr st..<next_addr st1}"
    "erases tp1 = merge_into (erases tp) [(k, erase u)]"
    using 1(2) by (simp_all add: merged_def)
  have s1: "readable st1 (AObj b sp)"
    by (rule readable_changes [OF Cons.prems(2) t1(2)]) (use Cons.prems(3) in blast)
  have d1: "set (addrs (AObj a tp1)) \<inter> set (addrs (AObj b sp)) = {}"
    using t1(3) Cons.prems(2,3) by (fastforce simp: readable_def)
  obtain st' tp' where 2: "js_for (map fst es) (merge_step n (Ref a) (Ref b)) st1 = (Inr (), st')"
    "merged st1 st' a tp1 (erases es) tp'"
    using Cons.IH [OF t1(1) s1 d1] Cons.prems(4) m(2) t1(4) by auto
  have "merged st st' a tp ([(k, erase u)] @ erases es) tp'"
    by (rule merged_trans [OF 1(2) 2(2)])
  then show ?case using 1(1) 2(1) e by (auto simp: js_bind_run)
qed

lemma merge_ok: "merge_ok n"
proof (induction n)
  case 0
  then show ?case by (simp add: merge_ok_def)
next
  case (Suc n)
  show ?case unfolding merge_ok_def
  proof (intro allI impI)
    fix st a tp b sp
    assume t: "owns st (AObj a tp)" and s: "readable st (AObj b sp)"
      and dis: "set (addrs (AObj a tp)) \<inter> set (addrs (AObj b sp)) = {}"
      and k: "tree_keys (erase (AObj b sp))" and h: "tree_height (erase (AObj b sp)) \<le> Suc n"
      and m: "mergeable (erases tp) (erases sp)"
    have "map_of sp k' = Some u \<and> tree_keys (erase u) \<and> tree_height (erase u) \<le> n"
      if "(k', u) \<in> set sp" for k' u
    proof -
      have "distinct (map fst sp)" using k by (simp add: comp_def case_prod_unfold)
      moreover have "tree_height (erase u) \<in> set (map (\<lambda>(k, t). tree_height t) (erases sp))"
        using that by force
      moreover have "tree_keys (erase u)" using k that by (fastforce simp: list_all_iff)
      ultimately show ?thesis using h that by (auto simp: Max_le_iff)
    qed
    then have "\<exists>st' tp'. js_for (map fst sp) (merge_step n (Ref a) (Ref b)) st = (Inr (), st') \<and>
        merged st st' a tp (erases sp) tp'"
      by (intro merge_loop [OF Suc.IH t s dis _ m]) auto
    moreover have "map fst (object_props st b) = map fst sp"
      using object_props_root [OF s] by (simp add: comp_def case_prod_unfold)
    ultimately show "\<exists>st' tp'. deepMerge (Suc n) (Ref a) (Ref b) st = (Inr (), st') \<and>
        merged st st' a tp (erases sp) tp'"
      by (simp add: deepMerge_Suc js_bind_run js_get_run del: deepMerge.simps)
  qed
qed

lemmas deepMerge_merged = merge_ok [unfolded merge_ok_def, rule_format]

text \<open>C2. \<open>deepMerge\<close> refines the merge of trees. When target and source share no object, no
  primitive value of the target stands where the source has an object, and the stack has a frame
  per level of the source, the call returns normally, the target object (same reference) holds
  the merged tree, still sharing nothing, and no object outside the target has changed.\<close>

theorem deepMerge_refines:
  assumes "owns st (AObj a tp)" "readable st (AObj b sp)"
    and "set (addrs (AObj a tp)) \<inter> set (addrs (AObj b sp)) = {}"
    and "tree_keys (erase (AObj b sp))" "tree_height (erase (AObj b sp)) \<le> stack"
    and "mergeable (erases tp) (erases sp)"
  shows "\<exists>st' tp'. deepMerge stack (Ref a) (Ref b) st = (Inr (), st') \<and>
    owns st' (AObj a tp') \<and> erases tp' = merge_into (erases tp) (erases sp) \<and>
    changes_only (set (addrs (AObj a tp))) st st'"
  using deepMerge_merged [OF assms] unfolding merged_def by blast

text \<open>After \<open>deepMerge\<close> the target says, at every path, what the source says where the source says
  anything (down to a primitive value), and everywhere else exactly what it said before: a change of
  one filter leaves all other filters, the sorting and the paging position of the request alone.\<close>

theorem deepMerge_leaf:
  assumes "owns st (AObj a tp)" "readable st (AObj b sp)"
    and "set (addrs (AObj a tp)) \<inter> set (addrs (AObj b sp)) = {}"
    and "tree_keys (erase (AObj b sp))" "tree_height (erase (AObj b sp)) \<le> stack"
    and "mergeable (erases tp) (erases sp)"
  shows "\<exists>st' tp'. deepMerge stack (Ref a) (Ref b) st = (Inr (), st') \<and> owns st' (AObj a tp') \<and>
    (\<forall>path. leaf_at (erases tp') path =
      (if mentions (erases sp) path then leaf_at (erases sp) path else leaf_at (erases tp) path))"
proof -
  obtain st' tp' where d: "deepMerge stack (Ref a) (Ref b) st = (Inr (), st')" "owns st' (AObj a tp')"
    and t: "erases tp' = merge_into (erases tp) (erases sp)"
    using deepMerge_merged [OF assms] unfolding merged_def by blast
  have k: "tree_keys (TObj (erases sp))" using assms(4) by simp
  show ?thesis
    by (intro exI conjI allI) (rule d(1), rule d(2), simp only: t merge_into_leaf [OF k])
qed

definition example_page :: jsstate where
  "example_page = \<lparr>heap = [0 \<mapsto> [(''start'', Prim (Number (Num 100))), (''aR'', Ref 1)],
      1 \<mapsto> [(''min'', Prim Null), (''max'', Prim Null)],
      2 \<mapsto> [(''mod'', Ref 3)], 3 \<mapsto> [(''aR'', Ref 4)], 4 \<mapsto> [(''min'', Prim (Number (Num 650)))],
      5 \<mapsto> [(''copy'', Ref 6)], 6 \<mapsto> [(''start'', Prim (Number (Num 200)))]],
    next_addr = 7, rangeRequest = Ref 0\<rparr>"

definition example_request :: "(string \<times> atree) list" where
  "example_request = [(''start'', APrim (Number (Num 100))),
     (''aR'', AObj 1 [(''min'', APrim Null), (''max'', APrim Null)])]"

definition example_change :: "(string \<times> atree) list" where
  "example_change = [(''aR'', AObj 4 [(''min'', APrim (Number (Num 650)))])]"

lemma example_request_owned: "owns example_page (AObj 0 example_request)"
  by (simp add: owns_def readable_def example_page_def example_request_def)

lemma example_change_readable: "readable example_page (AObj 3 example_change)"
  by (simp add: readable_def example_page_def example_change_def)

lemma example_mergeable: "mergeable (erases example_request) (erases example_change)"
  by (simp add: example_request_def example_change_def)

theorem deepMerge_refines_witness:
  "\<exists>st' tp'. deepMerge 2 (Ref 0) (Ref 3) example_page = (Inr (), st') \<and>
    owns st' (AObj 0 tp') \<and>
    erases tp' = [(''start'', TPrim (Number (Num 100))),
      (''aR'', TObj [(''min'', TPrim (Number (Num 650))), (''max'', TPrim Null)])]"
proof -
  have "\<exists>st' tp'. deepMerge 2 (Ref 0) (Ref 3) example_page = (Inr (), st') \<and>
      owns st' (AObj 0 tp') \<and> erases tp' = merge_into (erases example_request) (erases example_change) \<and>
      changes_only (set (addrs (AObj 0 example_request))) example_page st'"
    by (rule deepMerge_refines [OF example_request_owned example_change_readable _ _ _ example_mergeable])
      (simp_all add: example_request_def example_change_def)
  moreover have "merge_into (erases example_request) (erases example_change) =
      [(''start'', TPrim (Number (Num 100))),
       (''aR'', TObj [(''min'', TPrim (Number (Num 650))), (''max'', TPrim Null)])]"
    by (simp add: example_request_def example_change_def)
  ultimately show ?thesis by metis
qed

theorem deepMerge_leaf_witness:
  "\<exists>st' tp'. deepMerge 2 (Ref 0) (Ref 3) example_page = (Inr (), st') \<and> owns st' (AObj 0 tp') \<and>
    leaf_at (erases tp') [''aR'', ''min''] = Some (Number (Num 650)) \<and>
    leaf_at (erases tp') [''start''] = Some (Number (Num 100))"
proof -
  have "\<exists>st' tp'. deepMerge 2 (Ref 0) (Ref 3) example_page = (Inr (), st') \<and> owns st' (AObj 0 tp') \<and>
    (\<forall>path. leaf_at (erases tp') path =
      (if mentions (erases example_change) path then leaf_at (erases example_change) path
       else leaf_at (erases example_request) path))"
    by (rule deepMerge_leaf [OF example_request_owned example_change_readable _ _ _ example_mergeable])
      (simp_all add: example_request_def example_change_def)
  then obtain st' tp' where "deepMerge 2 (Ref 0) (Ref 3) example_page = (Inr (), st')"
      "owns st' (AObj 0 tp')" and p: "\<And>path. leaf_at (erases tp') path =
      (if mentions (erases example_change) path then leaf_at (erases example_change) path
       else leaf_at (erases example_request) path)" by blast
  moreover have "leaf_at (erases tp') [''aR'', ''min''] = Some (Number (Num 650))"
    "leaf_at (erases tp') [''start''] = Some (Number (Num 100))"
    unfolding p by (simp_all add: example_request_def example_change_def)
  ultimately show ?thesis by blast
qed

section \<open>JSON text and back\<close>

text \<open>What \<open>JSON.stringify\<close> keeps of a tree.\<close>

fun json_tree :: "jtree \<Rightarrow> jtree option" where
  "json_tree (TPrim p) = map_option TPrim (json_prim p)"
| "json_tree (TObj ps) = Some (TObj (concat (map (\<lambda>(k, t).
     case json_tree t of None \<Rightarrow> [] | Some u \<Rightarrow> [(k, u)]) ps)))"

lemma tree_height_le:
  "tree_height (TObj ps) \<le> Suc n \<longleftrightarrow> (\<forall>(k, t) \<in> set ps. tree_height t \<le> n)"
  by (auto simp: Max_le_iff)

declare tree_height.simps(2) [simp del]

lemma json_members_all:
  assumes "\<And>k t. (k, t) \<in> set ps \<Longrightarrow> g (root t) = Inr (json_tree (erase t))"
  shows "json_members (map (\<lambda>(k, w). (k, g w)) (roots ps)) =
    Inr (concat (map (\<lambda>(k, t). case json_tree t of None \<Rightarrow> [] | Some u \<Rightarrow> [(k, u)]) (erases ps)))"
  using assms
proof (induction ps)
  case (Cons e ps)
  obtain k t where e: "e = (k, t)" by (cases e)
  have "g (root t) = Inr (json_tree (erase t))" using Cons.prems [of k t] e by simp
  moreover have "json_members (map (\<lambda>(k, w). (k, g w)) (roots ps)) =
      Inr (concat (map (\<lambda>(k, t). case json_tree t of None \<Rightarrow> [] | Some u \<Rightarrow> [(k, u)]) (erases ps)))"
    by (rule Cons.IH) (use Cons.prems in auto)
  ultimately show ?case using e by (cases "json_tree (erase t)") simp_all
qed simp

lemma json_value_holds:
  "holds st t \<Longrightarrow> distinct (addrs t) \<Longrightarrow> set (addrs t) \<inter> set path = {} \<Longrightarrow>
     tree_height (erase t) < stack \<Longrightarrow> json_value stack st path (root t) = Inr (json_tree (erase t))"
proof (induction stack arbitrary: path t)
  case (Suc stack)
  show ?case
  proof (cases t)
    case (AObj a ps)
    have "json_value stack st (a # path) (root u) = Inr (json_tree (erase u))"
      if ku: "(k, u) \<in> set ps" for k u
    proof (rule Suc.IH)
      obtain xs ys where "ps = xs @ (k, u) # ys" using split_list [OF ku] by blast
      then show "distinct (addrs u)" "set (addrs u) \<inter> set (a # path) = {}"
        using Suc.prems(2,3) AObj by auto
      show "holds st u" using Suc.prems(1) AObj ku by (auto simp: list_all_iff)
      have "tree_height (TObj (erases ps)) \<le> stack" using Suc.prems(4) AObj by simp
      then obtain m where m: "stack = Suc m" by (cases stack) (auto simp: tree_height.simps(2))
      then have "\<forall>(k, v) \<in> set (erases ps). tree_height v \<le> m"
        using Suc.prems(4) AObj by (simp only: tree_height_le [symmetric]) simp
      then show "tree_height (erase u) < stack" using ku m by force
    qed
    then have "json_members (map (\<lambda>(k, w). (k, json_value stack st (a # path) w)) (roots ps)) =
        Inr (concat (map (\<lambda>(k, t). case json_tree t of None \<Rightarrow> [] | Some u \<Rightarrow> [(k, u)]) (erases ps)))"
      by (rule json_members_all)
    moreover have "object_props st a = roots ps" using Suc.prems(1) AObj by (simp add: object_props_def)
    moreover have "a \<notin> set path" using Suc.prems(3) AObj by simp
    ultimately show ?thesis using AObj by simp
  qed simp
qed simp

lemma owns_alloc:
  assumes "list_all (\<lambda>(k, t). holds st t) ps" "distinct (addrss ps)"
    "\<forall>x \<in> set (addrss ps). x < next_addr st"
  shows "owns (st\<lparr>heap := (heap st)(next_addr st \<mapsto> roots ps), next_addr := Suc (next_addr st)\<rparr>)
    (AObj (next_addr st) ps)"
proof -
  let ?st' = "st\<lparr>heap := (heap st)(next_addr st \<mapsto> roots ps), next_addr := Suc (next_addr st)\<rparr>"
  have "holds ?st' t" if "(k, t) \<in> set ps" for k t
  proof (rule holds_cong)
    show "holds st t" using assms(1) that by (auto simp: list_all_iff)
    have "\<forall>x \<in> set (addrs t). x < next_addr st" using assms(3) addrs_entry [OF that] by blast
    then show "\<forall>x \<in> set (addrs t). heap ?st' x = heap st x" by auto
  qed
  then show ?thesis using assms(2,3) by (auto simp: owns_def readable_def list_all_iff)
qed

text \<open>\<open>JSON.parse\<close> makes a tree of new objects.\<close>

lemma alloc_correct:
  shows "\<exists>u st'. alloc_tree t st = (root u, st') \<and> erase u = t \<and> owns st' u \<and>
      set (addrs u) \<subseteq> {next_addr st..<next_addr st'} \<and> changes_only {} st st'"
    and "\<exists>aps st'. alloc_props ts st = (roots aps, st') \<and> erases aps = ts \<and>
      list_all (\<lambda>(k, t). holds st' t) aps \<and> distinct (addrss aps) \<and>
      set (addrss aps) \<subseteq> {next_addr st..<next_addr st'} \<and> changes_only {} st st'"
proof (induction t st and ts st rule: alloc_tree_alloc_props.induct)
  case (1 p st)
  show ?case by (rule exI [of _ "APrim p"]) (simp add: owns_def readable_def)
next
  case (2 ts st)
  then obtain aps st' where h: "alloc_props ts st = (roots aps, st')" "erases aps = ts"
    "list_all (\<lambda>(k, t). holds st' t) aps" "distinct (addrss aps)"
    "set (addrss aps) \<subseteq> {next_addr st..<next_addr st'}" "changes_only {} st st'" by blast
  let ?st'' = "st'\<lparr>heap := (heap st')(next_addr st' \<mapsto> roots aps), next_addr := Suc (next_addr st')\<rparr>"
  have "owns ?st'' (AObj (next_addr st') aps)"
    by (rule owns_alloc [OF h(3,4)]) (use h(5) in auto)
  moreover have "changes_only {} st ?st''" using h(6) by (auto simp: changes_only_def)
  ultimately show ?case
    using h(1,2,5,6) by (intro exI [of _ "AObj (next_addr st') aps"] exI [of _ ?st''])
      (auto simp: Let_def changes_only_def)
next
  case (3 st)
  show ?case by (rule exI [of _ "[]"]) simp
next
  case (4 k t ts st)
  obtain u st1 where a: "alloc_tree t st = (root u, st1)" "erase u = t" "owns st1 u"
    "set (addrs u) \<subseteq> {next_addr st..<next_addr st1}" "changes_only {} st st1"
    using "4.IH"(1) by blast
  obtain aps st' where h: "alloc_props ts st1 = (roots aps, st')" "erases aps = ts"
    "list_all (\<lambda>(k, t). holds st' t) aps" "distinct (addrss aps)"
    "set (addrss aps) \<subseteq> {next_addr st1..<next_addr st'}" "changes_only {} st1 st'"
    using "4.IH"(2) [OF a(1) [symmetric] refl] by blast
  have "owns st' u" by (rule owns_changes [OF a(3) h(6)]) simp
  then have u: "holds st' u" "distinct (addrs u)" by (simp_all add: owns_def readable_def)
  have le: "next_addr st \<le> next_addr st1" "next_addr st1 \<le> next_addr st'"
    using a(5) h(6) by (simp_all add: changes_only_def)
  have "changes_only {} st st'" by (rule changes_only_trans [OF a(5) h(6)]) simp
  moreover have "set (addrs u) \<inter> set (addrss aps) = {}" using a(4) h(5) by fastforce
  moreover have "set (addrs u) \<union> set (addrss aps) \<subseteq> {next_addr st..<next_addr st'}"
    using a(4) h(5) le by fastforce
  ultimately show ?case
    using a(1,2) h(1-4) u by (intro exI [of _ "(k, u) # aps"] exI [of _ st']) simp
qed

text \<open>Merging and writing JSON text do not make a tree higher.\<close>

lemma merge_into_height:
  "(\<forall>(k, t) \<in> set tp. tree_height t \<le> n) \<Longrightarrow> (\<forall>(k, t) \<in> set sp. tree_height t \<le> n) \<Longrightarrow>
     \<forall>(k, t) \<in> set (merge_into tp sp). tree_height t \<le> n"
proof (induction tp sp arbitrary: n rule: merge_into.induct)
  case (2 tp k p sp)
  have "\<forall>(k, t) \<in> set (AList.update k (TPrim p) tp). tree_height t \<le> n"
    using "2.prems"(1) set_update_subset [of k "TPrim p" tp] by fastforce
  then show ?case using "2.IH" "2.prems"(2) by simp
next
  case (3 tp k qs sp)
  have q: "tree_height (TObj qs) \<le> n" using "3.prems"(2) by simp
  then obtain m where n: "n = Suc m" by (cases n) (auto simp: tree_height.simps(2))
  have "\<forall>(k, t) \<in> set qs. tree_height t \<le> m" using q n by (simp only: tree_height_le)
  moreover have "\<forall>(k', t) \<in> set (obj_props (map_of tp k)). tree_height t \<le> m"
  proof (cases "map_of tp k")
    case (Some t)
    then have "tree_height t \<le> Suc m" using "3.prems"(1) n by (auto dest: map_of_SomeD)
    then show ?thesis using Some by (cases t) (simp_all only: obj_props.simps tree_height_le, simp)
  qed simp
  ultimately have "\<forall>(k, t) \<in> set (merge_into (obj_props (map_of tp k)) qs). tree_height t \<le> m"
    by (rule "3.IH"(1) [rotated])
  then have "tree_height (TObj (merge_into (obj_props (map_of tp k)) qs)) \<le> n"
    using n by (simp only: tree_height_le)
  then have "\<forall>(k', t) \<in> set (AList.update k (TObj (merge_into (obj_props (map_of tp k)) qs)) tp).
      tree_height t \<le> n"
    using "3.prems"(1) set_update_subset [of k _ tp] by fastforce
  then show ?case using "3.IH"(2) "3.prems"(2) by simp
qed simp

lemma json_tree_height: "json_tree t = Some u \<Longrightarrow> tree_height u \<le> tree_height t"
proof (induction t arbitrary: u)
  case (TObj ps)
  obtain n where n: "tree_height (TObj ps) = Suc n" by (simp add: tree_height.simps(2))
  then have ps: "\<forall>(k, t) \<in> set ps. tree_height t \<le> n"
    by (simp only: tree_height_le [symmetric])
  have "tree_height v \<le> n" if kv: "(k, t) \<in> set ps" "json_tree t = Some v" for k t v
    using TObj.IH [of "(k, t)" t v] kv ps by fastforce
  then have "tree_height u \<le> Suc n"
    using TObj.prems by (auto simp: tree_height_le split: option.splits)
  then show ?case using n by simp
qed auto

definition json_props :: "(string \<times> jtree) list \<Rightarrow> (string \<times> jtree) list" where
  "json_props ps =
     concat (map (\<lambda>(k, t). case json_tree t of None \<Rightarrow> [] | Some u \<Rightarrow> [(k, u)]) ps)"

lemma json_tree_obj: "json_tree (TObj ps) = Some (TObj (json_props ps))"
  by (simp add: json_props_def)

declare json_tree.simps(2) [simp del] json_tree_obj [simp]

lemma stringify_owned:
  assumes "owns st (AObj a ps)" "tree_height (TObj (erases ps)) < stack"
  shows "JSON_stringify stack (Ref a) st = (Inr (Some (TObj (json_props (erases ps)))), st)"
  using json_value_holds [of st "AObj a ps" "[]" stack] assms
  by (simp add: JSON_stringify_def owns_def readable_def)

lemma merged_height:
  assumes "tree_height (TObj tp) \<le> n" "tree_height (TObj sp) \<le> n"
  shows "tree_height (TObj (merge_into tp sp)) \<le> n"
proof -
  obtain m where n: "n = Suc m" using assms(1) by (cases n) (auto simp: tree_height.simps(2))
  show ?thesis using assms merge_into_height unfolding n tree_height_le by blast
qed

text \<open>C4. \<open>rangeReq({copy: \<dots>})\<close> answers with the JSON of the page's request with the change merged
  into it, and leaves the page's request, and every object there was, as it is.\<close>

theorem rangeReq_copy:
  assumes r: "rangeRequest st = Ref r" and base: "owns st (AObj r base)"
    and obj: "readable st (AObj j os)" and copy: "map_of os ''copy'' = Some (AObj c sp)"
    and keys: "tree_keys (TObj (erases sp))"
    and h: "tree_height (TObj (erases base)) < stack" "tree_height (TObj (erases sp)) < stack"
    and m: "mergeable (json_props (erases base)) (erases sp)"
  shows "\<exists>st'. rangeReq stack (Ref j) st =
      (Inr (json_tree (TObj (merge_into (json_props (erases base)) (erases sp)))), st') \<and>
    changes_only {} st st' \<and> owns st' (AObj r base) \<and> rangeRequest st' = Ref r"
proof -
  let ?text = "TObj (json_props (erases base))"
  obtain u st1 where al: "alloc_tree ?text st = (root u, st1)" "erase u = ?text" "owns st1 u"
    "set (addrs u) \<subseteq> {next_addr st..<next_addr st1}" "changes_only {} st st1"
    using alloc_correct(1) by blast
  then obtain a tp where u: "u = AObj a tp" "erases tp = json_props (erases base)"
    by (cases u) auto
  have s1: "readable st1 (AObj c sp)" "readable st1 (AObj j os)"
    using readable_changes [OF _ al(5)] readable_child [OF obj copy] obj by auto
  have "set (addrs (AObj a tp)) \<inter> set (addrs (AObj c sp)) = {}"
    using al(4) u readable_child [OF obj copy] by (fastforce simp: readable_def)
  then obtain st' tp' where dm: "deepMerge stack (Ref a) (Ref c) st1 = (Inr (), st')"
    "merged st1 st' a tp (erases sp) tp'"
    using deepMerge_merged [of st1 a tp c sp stack] al(3) s1(1) keys h(2) m u by auto
  have e: "owns st' (AObj a tp')" "erases tp' = merge_into (json_props (erases base)) (erases sp)"
    "changes_only (set (addrs (AObj a tp))) st1 st'"
    using dm(2) u by (simp_all add: merged_def)
  have "tree_height ?text \<le> tree_height (TObj (erases base))" by (rule json_tree_height) simp
  then have "tree_height (TObj (erases tp')) \<le> max (tree_height (TObj (erases base))) (tree_height (TObj (erases sp)))"
    unfolding e(2) by (intro merged_height) simp_all
  then have fin: "JSON_stringify stack (Ref a) st' = (Inr (Some (TObj (json_props (erases tp')))), st')"
    using h by (intro stringify_owned [OF e(1)]) simp
  have ch: "changes_only {} st st'"
    by (rule changes_only_trans [OF al(5) e(3)]) (use al(4) u in simp)
  have "rangeReq stack (Ref j) st =
      (Inr (json_tree (TObj (merge_into (json_props (erases base)) (erases sp)))), st')"
    using r stringify_owned [OF base h(1)] al(1) u fin dm(1) e(2)
    by (simp add: rangeReq_def js_bind_run js_get_run js_prop_child [OF obj]
        js_prop_child [OF s1(2)] copy JSON_parse_def del: js_prop.simps deepMerge.simps)
  moreover have "owns st' (AObj r base)" by (rule owns_changes [OF base ch]) simp
  moreover have "rangeRequest st' = Ref r" using ch r by (simp add: changes_only_def)
  ultimately show ?thesis using ch by blast
qed

theorem rangeReq_copy_witness:
  "\<exists>st'. rangeReq 3 (Ref 5) example_page =
      (Inr (Some (TObj [(''start'', TPrim (Number (Num 200))),
         (''aR'', TObj [(''min'', TPrim Null), (''max'', TPrim Null)])])), st') \<and>
    owns st' (AObj 0 example_request)"
proof -
  have j: "json_props (erases example_request) = erases example_request"
    by (simp add: json_props_def example_request_def)
  have "\<exists>st'. rangeReq 3 (Ref 5) example_page =
      (Inr (json_tree (TObj (merge_into (json_props (erases example_request))
         (erases [(''start'', APrim (Number (Num 200)))])))), st') \<and>
    changes_only {} example_page st' \<and> owns st' (AObj 0 example_request) \<and>
    rangeRequest st' = Ref 0"
    by (rule rangeReq_copy [where os = "[(''copy'', AObj 6 [(''start'', APrim (Number (Num 200)))])]"
          and c = 6, OF _ example_request_owned])
      (simp_all add: j, simp_all add: example_page_def readable_def example_request_def
        tree_height.simps(2))
  moreover have "json_tree (TObj (merge_into (json_props (erases example_request))
         (erases [(''start'', APrim (Number (Num 200)))]))) =
      Some (TObj [(''start'', TPrim (Number (Num 200))),
         (''aR'', TObj [(''min'', TPrim Null), (''max'', TPrim Null)])])"
    unfolding j by (simp add: example_request_def json_props_def)
  ultimately show ?thesis by auto
qed

text \<open>C5. \<open>rangeReq({mod: \<dots>})\<close> merges the change into the page's request itself, so that later
  requests build on it, and answers with the JSON of the result.\<close>

theorem rangeReq_mod:
  assumes r: "rangeRequest st = Ref r" and base: "owns st (AObj r base)"
    and obj: "readable st (AObj j os)"
    and copy: "map_of os ''copy'' = None" and md: "map_of os ''mod'' = Some (AObj c sp)"
    and dis: "set (addrs (AObj r base)) \<inter> set (addrs (AObj c sp)) = {}"
    and keys: "tree_keys (TObj (erases sp))"
    and h: "tree_height (TObj (erases base)) < stack" "tree_height (TObj (erases sp)) < stack"
    and m: "mergeable (erases base) (erases sp)"
  shows "\<exists>st' base'. rangeReq stack (Ref j) st = (Inr (json_tree (TObj (erases base'))), st') \<and>
    erases base' = merge_into (erases base) (erases sp) \<and>
    changes_only (set (addrs (AObj r base))) st st' \<and> owns st' (AObj r base') \<and>
    rangeRequest st' = Ref r"
proof -
  have "\<exists>st' base'. deepMerge stack (Ref r) (Ref c) st = (Inr (), st') \<and>
      merged st st' r base (erases sp) base'"
    by (rule deepMerge_merged [OF base readable_child [OF obj md] dis _ _ m])
      (use keys h(2) in simp_all)
  then obtain st' base' where dm: "deepMerge stack (Ref r) (Ref c) st = (Inr (), st')"
    "merged st st' r base (erases sp) base'" by blast
  have e: "owns st' (AObj r base')" "erases base' = merge_into (erases base) (erases sp)"
    "changes_only (set (addrs (AObj r base))) st st'"
    using dm(2) by (simp_all add: merged_def)
  have "tree_height (TObj (erases base')) \<le> max (tree_height (TObj (erases base))) (tree_height (TObj (erases sp)))"
    unfolding e(2) by (intro merged_height) simp_all
  then have fin: "JSON_stringify stack (Ref r) st' = (Inr (Some (TObj (json_props (erases base')))), st')"
    using h by (intro stringify_owned [OF e(1)]) simp
  have "rangeReq stack (Ref j) st = (Inr (json_tree (TObj (erases base'))), st')"
    using r fin dm(1)
    by (simp add: rangeReq_def js_bind_run js_get_run js_prop_child [OF obj] copy md
        del: js_prop.simps deepMerge.simps)
  moreover have "rangeRequest st' = Ref r" using e(3) r by (simp add: changes_only_def)
  ultimately show ?thesis using e by blast
qed

theorem rangeReq_mod_witness:
  "\<exists>st' base'. rangeReq 3 (Ref 2) example_page = (Inr (json_tree (TObj (erases base'))), st') \<and>
    erases base' = [(''start'', TPrim (Number (Num 100))),
      (''aR'', TObj [(''min'', TPrim (Number (Num 650))), (''max'', TPrim Null)])] \<and>
    owns st' (AObj 0 base')"
proof -
  have "\<exists>st' base'. rangeReq 3 (Ref 2) example_page = (Inr (json_tree (TObj (erases base'))), st') \<and>
      erases base' = merge_into (erases example_request) (erases example_change) \<and>
      changes_only (set (addrs (AObj 0 example_request))) example_page st' \<and>
      owns st' (AObj 0 base') \<and> rangeRequest st' = Ref 0"
    by (rule rangeReq_mod [where os = "[(''mod'', AObj 3 example_change)]" and c = 3,
          OF _ example_request_owned _ _ _ _ _ _ _ example_mergeable])
      (simp_all add: example_page_def readable_def example_request_def example_change_def
        tree_height.simps(2))
  moreover have "merge_into (erases example_request) (erases example_change) =
      [(''start'', TPrim (Number (Num 100))),
       (''aR'', TObj [(''min'', TPrim (Number (Num 650))), (''max'', TPrim Null)])]"
    by (simp add: example_request_def example_change_def)
  ultimately show ?thesis by metis
qed

end
