(* ===== verification/Dom.thy ===== *)
theory Dom
  imports Js_Number "HOL-Library.Multiset" "HOL-Library.Sublist"
begin

text \<open>
  The part of the browser's document that \<open>code.js\<close> reads and writes: the tree of elements with
  their attributes and inline styles, the queries (\<open>getElementById\<close>, \<open>querySelector\<close>,
  \<open>querySelectorAll\<close>, \<open>closest\<close>), the edits (\<open>remove\<close>, \<open>appendChild\<close>, \<open>setAttribute\<close>), the
  dialogs, and the rules of the style sheets with \<open>modifyRule\<close>.

  The tree is rooted at the document node; elements are numbered. Markup that the script assigns to
  \<open>innerHTML\<close> is kept as a string: the help texts hold links and line breaks only, which no selector
  of the script matches. The style sheets are those of the server itself, so reading their rules
  never throws.
\<close>

section \<open>Elements and trees\<close>

type_synonym nid = nat

datatype css_value = Px rat

record element =
  tag :: string
  attrs :: "(string \<times> string) list"
  style :: "(string \<times> css_value) list"
  modal :: bool
  val :: string
  markup :: string

datatype dnode = Text string | Elem nid element "dnode list"

fun elements :: "dnode \<Rightarrow> (nid \<times> element) list" where
  "elements (Text s) = []"
| "elements (Elem n e cs) = (n, e) # concat (map elements cs)"

text \<open>An element that has nothing but attributes and children.\<close>

definition node :: "nid \<Rightarrow> string \<Rightarrow> (string \<times> string) list \<Rightarrow> dnode list \<Rightarrow> dnode" where
  "node n tg as cs = Elem n \<lparr>tag = tg, attrs = as, style = [], modal = False, val = [], markup = []\<rparr> cs"

abbreviation ids :: "dnode \<Rightarrow> nid list" where
  "ids d \<equiv> map fst (elements d)"

fun node_id :: "dnode \<Rightarrow> nid option" where
  "node_id (Text s) = None"
| "node_id (Elem n e cs) = Some n"

fun first_some :: "'a option list \<Rightarrow> 'a option" where
  "first_some [] = None"
| "first_some (None # xs) = first_some xs"
| "first_some (Some x # xs) = Some x"

fun find_node :: "nid \<Rightarrow> dnode \<Rightarrow> dnode option" where
  "find_node n (Text s) = None"
| "find_node n (Elem m e cs) =
     (if n = m then Some (Elem m e cs) else first_some (map (find_node n) cs))"

fun path_to :: "nid \<Rightarrow> dnode \<Rightarrow> (nid \<times> element) list option" where
  "path_to n (Text s) = None"
| "path_to n (Elem m e cs) =
     (if n = m then Some [(m, e)]
      else map_option (Cons (m, e)) (first_some (map (path_to n) cs)))"

definition element_of :: "dnode \<Rightarrow> nid \<Rightarrow> element option" where
  "element_of d n = map_of (elements d) n"

section \<open>Queries\<close>

definition get_attr :: "element \<Rightarrow> string \<Rightarrow> string option" where
  "get_attr e a = map_of (attrs e) a"

definition has_attr :: "string \<Rightarrow> element \<Rightarrow> bool" where
  "has_attr a e \<longleftrightarrow> get_attr e a \<noteq> None"

definition has_class :: "string \<Rightarrow> element \<Rightarrow> bool" where
  "has_class c e \<longleftrightarrow> (case get_attr e ''class'' of None \<Rightarrow> False
     | Some cs \<Rightarrow> c \<in> set (js_split (CHR '' '') cs))"

definition has_id :: "string \<Rightarrow> element \<Rightarrow> bool" where
  "has_id i e \<longleftrightarrow> get_attr e ''id'' = Some i"

text \<open>The selector \<open>dialog[open]\<close>.\<close>

definition open_dialog :: "element \<Rightarrow> bool" where
  "open_dialog e \<longleftrightarrow> tag e = ''DIALOG'' \<and> has_attr ''open'' e"

fun children :: "dnode \<Rightarrow> dnode list" where
  "children (Text s) = []"
| "children (Elem n e cs) = cs"

text \<open>\<open>querySelectorAll\<close> of a node: its descendants that match, in document order.\<close>

definition query_all :: "(element \<Rightarrow> bool) \<Rightarrow> dnode \<Rightarrow> nid list" where
  "query_all sel d = map fst (filter (\<lambda>(n, e). sel e) (concat (map elements (children d))))"

definition query :: "(element \<Rightarrow> bool) \<Rightarrow> dnode \<Rightarrow> nid option" where
  "query sel d = (case query_all sel d of [] \<Rightarrow> None | n # _ \<Rightarrow> Some n)"

definition get_by_id :: "string \<Rightarrow> dnode \<Rightarrow> nid option" where
  "get_by_id i d = query (has_id i) d"

text \<open>\<open>closest\<close>: the element itself or its nearest ancestor that matches.\<close>

definition closest :: "(element \<Rightarrow> bool) \<Rightarrow> nid \<Rightarrow> dnode \<Rightarrow> nid option" where
  "closest sel n d =
     (case path_to n d of None \<Rightarrow> None
      | Some path \<Rightarrow>
          (case filter (\<lambda>(m, e). sel e) (rev path) of [] \<Rightarrow> None | (m, e) # _ \<Rightarrow> Some m))"

text \<open>\<open>textContent\<close>\<close>

fun text_content :: "dnode \<Rightarrow> string" where
  "text_content (Text s) = s"
| "text_content (Elem n e cs) = concat (map text_content cs)"

section \<open>Edits\<close>

fun update_element :: "nid \<Rightarrow> (element \<Rightarrow> element) \<Rightarrow> dnode \<Rightarrow> dnode" where
  "update_element n f (Text s) = Text s"
| "update_element n f (Elem m e cs) =
     Elem m (if m = n then f e else e) (map (update_element n f) cs)"

fun append_child :: "nid \<Rightarrow> dnode \<Rightarrow> dnode \<Rightarrow> dnode" where
  "append_child n c (Text s) = Text s"
| "append_child n c (Elem m e cs) =
     Elem m e (map (append_child n c) cs @ (if m = n then [c] else []))"

text \<open>\<open>remove\<close>: the node with everything below it.\<close>

fun remove_node :: "nid \<Rightarrow> dnode \<Rightarrow> dnode" where
  "remove_node n (Text s) = Text s"
| "remove_node n (Elem m e cs) =
     Elem m e (map (remove_node n) (filter (\<lambda>c. node_id c \<noteq> Some n) cs))"

definition set_attr :: "string \<Rightarrow> string \<Rightarrow> element \<Rightarrow> element" where
  "set_attr a v e = e\<lparr>attrs := AList.update a v (attrs e)\<rparr>"

definition remove_attr :: "string \<Rightarrow> element \<Rightarrow> element" where
  "remove_attr a e = e\<lparr>attrs := filter (\<lambda>(k, v). k \<noteq> a) (attrs e)\<rparr>"

definition set_style :: "string \<Rightarrow> css_value \<Rightarrow> element \<Rightarrow> element" where
  "set_style p v e = e\<lparr>style := AList.update p v (style e)\<rparr>"

section \<open>Style sheets\<close>

record css_rule =
  selectorText :: "string option"
  declarations :: "(string \<times> string) list"

type_synonym sheets = "css_rule list list"

text \<open>\<open>style.setProperty\<close>: an empty value removes the property.\<close>

definition set_property :: "string \<Rightarrow> string \<Rightarrow> css_rule \<Rightarrow> css_rule" where
  "set_property p v r = r\<lparr>declarations :=
     (if v = [] then filter (\<lambda>(k, w). k \<noteq> p) (declarations r)
      else AList.update p v (declarations r))\<rparr>"

fun modify_rules :: "string \<Rightarrow> string \<Rightarrow> string \<Rightarrow> css_rule list \<Rightarrow> css_rule list option" where
  "modify_rules selector property value [] = None"
| "modify_rules selector property value (r # rs) =
     (if selectorText r = Some selector then Some (set_property property value r # rs)
      else map_option (Cons r) (modify_rules selector property value rs))"

fun modify_sheets :: "string \<Rightarrow> string \<Rightarrow> string \<Rightarrow> sheets \<Rightarrow> sheets option" where
  "modify_sheets selector property value [] = None"
| "modify_sheets selector property value (rs # ss) =
     (case modify_rules selector property value rs of
        Some rs' \<Rightarrow> Some (rs' # ss)
      | None \<Rightarrow> map_option (Cons rs) (modify_sheets selector property value ss))"

definition modifyRule :: "string \<Rightarrow> string \<Rightarrow> string \<Rightarrow> sheets \<Rightarrow> bool \<times> sheets" where
  "modifyRule selector property value ss =
     (case modify_sheets selector property value ss of
        Some ss' \<Rightarrow> (True, ss')
      | None \<Rightarrow> (False, ss))"

section \<open>The page\<close>

record page =
  doc :: dnode
  body :: nid
  css :: sheets
  next_nid :: nid
  helpFiltersAutoOpened :: bool

definition edit :: "nid \<Rightarrow> (element \<Rightarrow> element) \<Rightarrow> page \<Rightarrow> page" where
  "edit n f p = p\<lparr>doc := update_element n f (doc p)\<rparr>"

definition attribute :: "page \<Rightarrow> nid \<Rightarrow> string \<Rightarrow> string option" where
  "attribute p n a = (case element_of (doc p) n of None \<Rightarrow> None | Some e \<Rightarrow> get_attr e a)"

definition subtree :: "page \<Rightarrow> nid \<Rightarrow> dnode" where
  "subtree p n = (case find_node n (doc p) of None \<Rightarrow> Text [] | Some d \<Rightarrow> d)"

text \<open>The \<open>open\<close> property of a dialog (no other element of the page has one).\<close>

definition is_open :: "page \<Rightarrow> nid \<Rightarrow> bool" where
  "is_open p n \<longleftrightarrow> (case element_of (doc p) n of None \<Rightarrow> False | Some e \<Rightarrow> open_dialog e)"

text \<open>The methods of a dialog. \<open>show\<close> and \<open>showModal\<close> throw on a dialog that is open in the other
  way, \<open>showModal\<close> also on an element that is no dialog; \<open>close\<close> does nothing to a closed one.\<close>

definition close_element :: "element \<Rightarrow> element" where
  "close_element e =
     (if has_attr ''open'' e then (remove_attr ''open'' e)\<lparr>modal := False\<rparr> else e)"

definition close_dialog :: "nid \<Rightarrow> page \<Rightarrow> page" where
  "close_dialog n p = edit n close_element p"

definition show_modal :: "nid \<Rightarrow> (page, unit) js" where
  "show_modal n = (\<lambda>p. case element_of (doc p) n of
     None \<Rightarrow> (Inl InvalidStateError, p)
   | Some e \<Rightarrow>
       if tag e \<noteq> ''DIALOG'' then (Inl TypeError, p)
       else if has_attr ''open'' e then (if modal e then (Inr (), p) else (Inl InvalidStateError, p))
       else (Inr (), edit n (\<lambda>e. (set_attr ''open'' [] e)\<lparr>modal := True\<rparr>) p))"

definition show_dialog :: "nid \<Rightarrow> (page, unit) js" where
  "show_dialog n = (\<lambda>p. case element_of (doc p) n of
     None \<Rightarrow> (Inr (), p)
   | Some e \<Rightarrow>
       if tag e \<noteq> ''DIALOG'' then (Inl TypeError, p)
       else if has_attr ''open'' e then (if modal e then (Inl InvalidStateError, p) else (Inr (), p))
       else (Inr (), edit n (set_attr ''open'' []) p))"

section \<open>Lemmas\<close>

lemma elements_update:
  "elements (update_element n f d) = map (\<lambda>(m, e). (m, if m = n then f e else e)) (elements d)"
proof (induction d)
  case (Elem m e cs)
  then show ?case by (auto simp: map_concat comp_def intro!: arg_cong [where f = concat])
qed simp

lemma ids_update [simp]: "ids (update_element n f d) = ids d"
  by (simp add: elements_update comp_def case_prod_unfold)

lemma map_of_map_at:
  "map_of (map (\<lambda>(k, v). (k, if k = n then f v else v)) ps) m =
     (if m = n then map_option f (map_of ps m) else map_of ps m)"
  by (induction ps) auto

lemma element_of_update:
  "element_of (update_element n f d) m =
     (if m = n then map_option f (element_of d m) else element_of d m)"
  by (simp add: element_of_def elements_update map_of_map_at)

lemma update_element_absent: "n \<notin> set (ids d) \<Longrightarrow> update_element n f d = d"
proof (induction d)
  case (Elem m e cs)
  have "map (update_element n f) cs = cs"
    by (rule map_idI) (use Elem in auto)
  then show ?case using Elem.prems by simp
qed simp

lemma update_element_id: "\<forall>(m, e) \<in> set (elements d). m = n \<longrightarrow> f e = e \<Longrightarrow> update_element n f d = d"
proof (induction d)
  case (Elem m e cs)
  have "map (update_element n f) cs = cs"
    by (rule map_idI) (use Elem in auto)
  then show ?case using Elem.prems by simp
qed simp

lemma element_of_Some: "element_of d n = Some e \<Longrightarrow> (n, e) \<in> set (elements d)"
  by (simp add: element_of_def map_of_SomeD)

lemma element_of_iff: "distinct (ids d) \<Longrightarrow> element_of d n = Some e \<longleftrightarrow> (n, e) \<in> set (elements d)"
  by (simp add: element_of_def)

lemma element_of_None: "element_of d n = None \<longleftrightarrow> n \<notin> set (ids d)"
  by (simp add: element_of_def map_of_eq_None_iff)

lemma get_set_attr [simp]: "get_attr (set_attr a v e) b = (if a = b then Some v else get_attr e b)"
  by (simp add: get_attr_def set_attr_def)

lemma map_of_filter_key: "map_of (filter (\<lambda>(k, v). k \<noteq> a) ps) b = (if b = a then None else map_of ps b)"
  by (induction ps) auto

lemma get_remove_attr [simp]: "get_attr (remove_attr a e) b = (if b = a then None else get_attr e b)"
  by (simp add: get_attr_def remove_attr_def map_of_filter_key)

lemma get_attr_set_style [simp]: "get_attr (set_style p v e) a = get_attr e a"
  by (simp add: get_attr_def set_style_def)

lemma get_attr_modal [simp]: "get_attr (e\<lparr>modal := b\<rparr>) a = get_attr e a"
  by (simp add: get_attr_def)

section \<open>Removing a set of elements, and stripping what a selector matches\<close>

fun prune :: "nid set \<Rightarrow> dnode \<Rightarrow> dnode" where
  "prune S (Text s) = Text s"
| "prune S (Elem m e cs) =
     Elem m e (map (prune S) (filter (\<lambda>c. \<forall>n\<in>S. node_id c \<noteq> Some n) cs))"

fun matches :: "(element \<Rightarrow> bool) \<Rightarrow> dnode \<Rightarrow> bool" where
  "matches sel (Text s) = False"
| "matches sel (Elem m e cs) = sel e"

fun strip :: "(element \<Rightarrow> bool) \<Rightarrow> dnode \<Rightarrow> dnode" where
  "strip sel (Text s) = Text s"
| "strip sel (Elem m e cs) = Elem m e (map (strip sel) (filter (\<lambda>c. \<not> matches sel c) cs))"

lemma node_id_prune [simp]: "node_id (prune S d) = node_id d"
  by (cases d) auto

lemma node_id_remove [simp]: "node_id (remove_node n d) = node_id d"
  by (cases d) auto

lemma node_id_update [simp]: "node_id (update_element n f d) = node_id d"
  by (cases d) auto

lemma matches_strip [simp]: "matches sel' (strip sel d) = matches sel' d"
  by (cases d) auto

lemma prune_empty [simp]: "prune {} d = d"
  by (induction d) (auto intro: map_idI)

lemma remove_prune: "remove_node n (prune S d) = prune (insert n S) d"
proof (induction d)
  case (Elem m e cs)
  then show ?case
    by (auto simp: filter_map comp_def filter_filter intro!: map_cong filter_cong)
qed simp

lemma fold_remove: "fold remove_node ns (prune S d) = prune (set ns \<union> S) d"
  by (induction ns arbitrary: S) (simp_all add: remove_prune)

lemma remove_all_prune: "fold remove_node ns d = prune (set ns) d"
  using fold_remove [of ns "{}" d] by simp

lemma set_below: "set (concat (map elements (children d))) \<subseteq> set (elements d)"
  by (cases d) auto

lemma prune_strip:
  assumes "\<forall>(n, e) \<in> set (concat (map elements (children d))). n \<in> S \<longleftrightarrow> sel e"
  shows "prune S d = strip sel d"
  using assms
proof (induction d)
  case (Elem m e cs)
  have c: "(\<forall>n\<in>S. node_id c \<noteq> Some n) = (\<not> matches sel c)" if "c \<in> set cs" for c
    using Elem.prems that by (cases c) (force simp: image_iff)+
  have IH: "prune S c = strip sel c" if "c \<in> set cs" for c
    using Elem.IH [OF that] Elem.prems that set_below [of c] by fastforce
  have "filter (\<lambda>c. \<forall>n\<in>S. node_id c \<noteq> Some n) cs = filter (\<lambda>c. \<not> matches sel c) cs"
    using c by (rule filter_cong [OF refl])
  then show ?case by (simp add: IH)
qed simp

lemma query_all_set: "set (query_all sel d) = {n. \<exists>e. (n, e) \<in> set (concat (map elements (children d))) \<and> sel e}"
  by (auto simp: query_all_def image_iff Bex_def) blast+

lemma distinct_children: "distinct (ids d) \<Longrightarrow> distinct (map fst (concat (map elements (children d))))"
  by (cases d) auto

lemma prune_query:
  assumes "distinct (ids d)"
  shows "fold remove_node (query_all sel d) d = strip sel d"
proof -
  have "e = e'" if "(n, e) \<in> set (concat (map elements (children d)))"
    "(n, e') \<in> set (concat (map elements (children d)))" for n e e'
    using that distinct_children [OF assms] by (meson eq_key_imp_eq_value)
  then show ?thesis
    unfolding remove_all_prune by (intro prune_strip) (auto simp: query_all_set)
qed

section \<open>Which elements a page has after an edit\<close>

lemma subseq_concat_filter:
  "(\<And>x. x \<in> set xs \<Longrightarrow> subseq (f x) (g x)) \<Longrightarrow>
     subseq (concat (map f (filter P xs))) (concat (map g xs))"
  by (induction xs) (auto intro: list_emb_append_mono subseq_drop_many)

lemma elements_strip: "subseq (elements (strip sel d)) (elements d)"
proof (induction d)
  case (Elem m e cs)
  then show ?case by (simp add: comp_def subseq_concat_filter)
qed simp

lemma subseq_set: "subseq xs ys \<Longrightarrow> set xs \<subseteq> set ys"
  by (induction rule: list_emb.induct) auto

lemma subseq_distinct_keys: "subseq xs ys \<Longrightarrow> distinct (map f ys) \<Longrightarrow> distinct (map f xs)"
  by (induction rule: list_emb.induct) (auto dest: subseq_set)

lemma distinct_strip: "distinct (ids d) \<Longrightarrow> distinct (ids (strip sel d))"
  using elements_strip subseq_distinct_keys by blast

lemma ids_strip: "set (ids (strip sel d)) \<subseteq> set (ids d)"
  using subseq_set [OF elements_strip [of sel d]] by auto

lemma mset_elements_append:
  "mset (elements (append_child n c d)) =
     mset (elements d) + repeat_mset (count (mset (ids d)) n) (mset (elements c))"
proof (induction d)
  case (Elem m e cs)
  have "mset (concat (map elements (map (append_child n c) cs))) =
      mset (concat (map elements cs)) +
      repeat_mset (count (mset (map fst (concat (map elements cs)))) n) (mset (elements c))"
    using Elem by (induction cs) (simp_all add: repeat_mset_distrib)
  then show ?case by (simp add: comp_def)
qed simp

lemma distinct_count_one: "distinct xs \<Longrightarrow> count (mset xs) x = (if x \<in> set xs then 1 else 0)"
  by (simp add: distinct_count_atmost_1)

lemma elements_append:
  assumes "distinct (ids d)" and "n \<in> set (ids d)"
  shows "mset (elements (append_child n c d)) = mset (elements d) + mset (elements c)"
  using assms by (simp add: mset_elements_append distinct_count_one del: set_map mset_map)

lemma append_child_absent: "n \<notin> set (ids d) \<Longrightarrow> append_child n c d = d"
proof (induction d)
  case (Elem m e cs)
  have "map (append_child n c) cs = cs"
    by (rule map_idI) (use Elem in auto)
  then show ?case using Elem.prems by simp
qed simp

lemma matches_append [simp]: "matches sel (append_child n c d) = matches sel d"
  by (cases d) auto

lemma strip_append: "matches sel c \<Longrightarrow> strip sel (append_child n c d) = strip sel d"
  by (induction d) (auto simp: filter_map comp_def)

lemma strip_update:
  assumes "\<forall>(m, e) \<in> set (elements d). m = n \<longrightarrow> sel e \<and> sel (f e)" and "\<not> matches sel d"
  shows "strip sel (update_element n f d) = strip sel d"
  using assms
proof (induction d)
  case (Elem m e cs)
  have m: "matches sel (update_element n f c) = matches sel c" if "c \<in> set cs" for c
    using Elem.prems(1) that by (cases c) fastforce+
  have IH: "strip sel (update_element n f c) = strip sel c" if "c \<in> set cs" "\<not> matches sel c" for c
    by (rule Elem.IH) (use that Elem.prems(1) in auto)
  have "filter (\<lambda>c. \<not> matches sel (update_element n f c)) cs = filter (\<lambda>c. \<not> matches sel c) cs"
    by (rule filter_cong) (auto simp: m)
  then show ?case using Elem.prems by (auto simp: filter_map comp_def IH)
qed simp

lemma strip_strip [simp]: "strip sel (strip sel d) = strip sel d"
  by (induction d) (auto simp: filter_map comp_def)

lemma query_all_strip: "query_all sel (strip sel d) = []"
proof -
  have *: "\<forall>x \<in> set (elements (strip sel c)). \<not> sel (snd x)" if "\<not> matches sel c" for c
    using that
  proof (induction c)
    case (Elem m e cs)
    then show ?case by auto
  qed simp
  show ?thesis using * by (cases d) (fastforce simp: query_all_def filter_empty_conv)+
qed

lemma strip_id: "query_all sel d = [] \<Longrightarrow> strip sel d = d"
proof (induction d)
  case (Elem m e cs)
  have none: "\<not> sel y" if "c \<in> set cs" "(k, y) \<in> set (elements c)" for c k y
    using Elem.prems that by (fastforce simp: query_all_def filter_empty_conv)
  have m: "\<not> matches sel c" if "c \<in> set cs" for c
    using none [OF that] by (cases c) auto
  have "strip sel c = c" if "c \<in> set cs" for c
  proof (rule Elem.IH [OF that])
    show "query_all sel c = []"
      using none [OF that] set_below [of c]
      by (force simp: query_all_def filter_empty_conv)
  qed
  then show ?case using m by (simp add: map_idI filter_id_conv [THEN iffD2])
qed (simp add: query_all_def)

lemma below_update:
  "concat (map elements (children (update_element n f d))) =
     map (\<lambda>(m, e). (m, if m = n then f e else e)) (concat (map elements (children d)))"
  by (cases d) (simp_all add: map_concat comp_def elements_update)

lemma query_all_update:
  assumes "\<And>e. sel (f e) = sel e"
  shows "query_all sel (update_element n f d) = query_all sel d"
proof -
  have "filter (\<lambda>(m, e). sel e) (map (\<lambda>(m, e). (m, if m = n then f e else e)) xs) =
      map (\<lambda>(m, e). (m, if m = n then f e else e)) (filter (\<lambda>(m, e). sel e) xs)" for xs
    by (induction xs) (auto simp: assms split: if_splits)
  then show ?thesis by (simp add: query_all_def below_update comp_def case_prod_unfold)
qed

lemma query_SomeD: "query sel d = Some n \<Longrightarrow> n \<in> set (query_all sel d)"
  by (auto simp: query_def split: list.splits)

lemma query_None: "query sel d = None \<longleftrightarrow> query_all sel d = []"
  by (auto simp: query_def split: list.splits)

lemma query_all_ids: "set (query_all sel d) \<subseteq> set (ids d)"
proof -
  have "set (query_all sel d) \<subseteq> fst ` set (concat (map elements (children d)))"
    unfolding query_all_def set_map by (rule image_mono) (simp only: filter_is_subset)
  then show ?thesis using image_mono [OF set_below, of fst d] by simp
qed

lemma query_ids: "query sel d = Some n \<Longrightarrow> n \<in> set (ids d)"
  using query_SomeD query_all_ids by blast

lemma query_update:
  "(\<And>e. sel (f e) = sel e) \<Longrightarrow> query sel (update_element n f d) = query sel d"
  by (simp add: query_def query_all_update)

lemma class_close [simp]: "has_class c (close_element e) = has_class c e"
  by (simp add: has_class_def close_element_def)

lemma id_close [simp]: "has_id i (close_element e) = has_id i e"
  by (simp add: has_id_def close_element_def)

lemma open_close [simp]: "\<not> open_dialog (close_element e)"
  by (simp add: open_dialog_def close_element_def has_attr_def)

lemma matches_update:
  "(\<And>e. sel (f e) = sel e) \<Longrightarrow> matches sel (update_element n f d) = matches sel d"
  by (cases d) auto

section \<open>Subtrees under an edit\<close>

lemma first_some_map: "first_some (map (\<lambda>x. map_option g (f x)) xs) = map_option g (first_some (map f xs))"
proof (induction xs)
  case (Cons x xs)
  then show ?case by (cases "f x") simp_all
qed simp

lemma find_append: "find_node n (append_child n c d) = map_option (append_child n c) (find_node n d)"
proof (induction d)
  case (Elem m e cs)
  have "map (find_node n) (map (append_child n c) cs) =
      map (\<lambda>x. map_option (append_child n c) (find_node n x)) cs"
    using Elem by simp
  then show ?case by (simp add: first_some_map del: map_map)
qed simp

lemma find_update:
  "find_node n (update_element m f d) = map_option (update_element m f) (find_node n d)"
proof (induction d)
  case (Elem k e cs)
  have "map (find_node n) (map (update_element m f) cs) =
      map (\<lambda>x. map_option (update_element m f) (find_node n x)) cs"
    using Elem by simp
  then show ?case by (simp add: first_some_map del: map_map)
qed simp

lemma first_some_Some: "first_some xs = Some x \<Longrightarrow> Some x \<in> set xs"
  by (induction xs rule: first_some.induct) auto

lemma first_some_None: "first_some xs = None \<longleftrightarrow> (\<forall>x \<in> set xs. x = None)"
  by (induction xs rule: first_some.induct) auto

lemma find_node_root: "find_node n d = Some d' \<Longrightarrow> node_id d' = Some n"
proof (induction d)
  case (Elem m e cs)
  then show ?case by (auto split: if_splits dest!: first_some_Some)
qed simp

lemma find_node_below: "find_node n d = Some d' \<Longrightarrow> set (elements d') \<subseteq> set (elements d)"
proof (induction d)
  case (Elem m e cs)
  show ?case
  proof (cases "n = m")
    case False
    then obtain c where "c \<in> set cs" "find_node n c = Some d'"
      using Elem.prems by (auto dest!: first_some_Some)
    then show ?thesis using Elem.IH by fastforce
  qed (use Elem.prems in auto)
qed simp

lemma find_node_None: "find_node n d = None \<longleftrightarrow> n \<notin> set (ids d)"
  by (induction d) (auto simp: first_some_None image_Un)

lemma elements_append_subset: "set (elements (append_child n c d)) \<subseteq> set (elements d) \<union> set (elements c)"
proof (induction d)
  case (Elem m e cs)
  then show ?case by fastforce
qed simp

lemma elements_append_mono: "set (elements d) \<subseteq> set (elements (append_child n c d))"
proof (induction d)
  case (Elem m e cs)
  then show ?case by fastforce
qed simp

text \<open>What a selector finds below a container to which a leaf is appended.\<close>

lemma query_None_children:
  "query sel (Elem n a cs) = None \<longleftrightarrow> (\<forall>c \<in> set cs. \<forall>y \<in> set (elements c). \<not> sel (snd y))"
  by (simp add: query_None query_all_def filter_empty_conv case_prod_unfold)

lemma no_match_append:
  "\<not> sel e \<Longrightarrow> (\<forall>y \<in> set (elements (append_child n (Elem k e []) d)). \<not> sel (snd y)) \<longleftrightarrow>
     (\<forall>y \<in> set (elements d). \<not> sel (snd y))"
  using elements_append_subset [of n "Elem k e []" d] elements_append_mono [of d n "Elem k e []"]
  by fastforce

lemma query_append_leaf:
  assumes "node_id d = Some n"
  shows "query sel (append_child n (Elem k e []) d) = None \<longleftrightarrow> query sel d = None \<and> \<not> sel e"
proof -
  obtain a cs where d: "d = Elem n a cs" using assms by (cases d) auto
  show ?thesis
  proof (cases "sel e")
    case True
    then show ?thesis by (auto simp: d query_None_children)
  next
    case False
    then show ?thesis by (simp add: d query_None_children no_match_append)
  qed
qed

end
