(* ===== verification/Layout.thy ===== *)
theory Layout
  imports Dom
begin

text \<open>
  Where the browser paints, and \<open>positionRelativeTo\<close> of \<open>code.js\<close>, which pins a popup or a dialog to
  the edges of another element.

  The layout engine is a parameter: a \<open>browser\<close> tells from a page the bounding rectangle of an
  element, whether it has an offset parent (whether it is painted), and its computed \<open>display\<close>.
  Coordinates are rationals. The attributes \<open>top\<close>, \<open>bottom\<close>, \<open>left\<close> and \<open>right\<close> of a positioned
  element name an edge of the reference; a name that is none of the four edges is no edge.
\<close>

section \<open>Rectangles and the browser\<close>

record rect =
  rect_left :: rat
  rect_top :: rat
  rect_width :: rat
  rect_height :: rat

definition rect_right :: "rect \<Rightarrow> rat" where
  "rect_right r = rect_left r + rect_width r"

definition rect_bottom :: "rect \<Rightarrow> rat" where
  "rect_bottom r = rect_top r + rect_height r"

record browser =
  bounding_rect :: "page \<Rightarrow> nid \<Rightarrow> rect"
  offset_parent :: "page \<Rightarrow> nid \<Rightarrow> bool"
  computed_display :: "page \<Rightarrow> nid \<Rightarrow> string"

definition overlap :: "rect \<Rightarrow> rect \<Rightarrow> bool" where
  "overlap r q \<longleftrightarrow> rect_left r < rect_right q \<and> rect_left q < rect_right r
     \<and> rect_top r < rect_bottom q \<and> rect_top q < rect_bottom r"

section \<open>\<open>positionRelativeTo\<close>\<close>

definition edges :: "rect \<Rightarrow> (string \<times> rat) list" where
  "edges r = [(''top'', rect_top r), (''bottom'', rect_bottom r),
              (''left'', rect_left r), (''right'', rect_right r)]"

definition position_step ::
  "rect \<Rightarrow> rat \<Rightarrow> rat \<Rightarrow> rat \<Rightarrow> nid \<Rightarrow> string \<Rightarrow> page \<Rightarrow> page" where
  "position_step r w h gap n attr p =
     (case attribute p n attr of None \<Rightarrow> p
      | Some refAttr \<Rightarrow>
          (case map_of (edges r) refAttr of None \<Rightarrow> p
           | Some edge \<Rightarrow>
               if edge = 0 then p
               else if attr = ''top'' then
                 edit n (set_style ''top'' (Px (edge + (if refAttr = ''bottom'' then gap else 0)))) p
               else if attr = ''bottom'' then
                 edit n (set_style ''top'' (Px (edge - h - (if refAttr = ''top'' then gap else 0)))) p
               else if attr = ''left'' then
                 edit n (set_style ''left'' (Px (edge + (if refAttr = ''right'' then gap else 0)))) p
               else if attr = ''right'' then edit n (set_style ''left'' (Px (edge - w))) p
               else p))"

definition positionRelativeTo ::
  "browser \<Rightarrow> nid \<Rightarrow> nid \<Rightarrow> rat option \<Rightarrow> page \<Rightarrow> page" where
  "positionRelativeTo b n reference gap p =
     (let g = (case gap of None \<Rightarrow> 0 | Some g \<Rightarrow> g);
          r = bounding_rect b p reference;
          w = rect_width (bounding_rect b p n);
          h = rect_height (bounding_rect b p n)
      in fold (position_step r w h g n) [''top'', ''bottom'', ''left'', ''right''] p)"

section \<open>The resulting styles\<close>

text \<open>The edge an attribute of an element selects: none when the attribute is missing, names no edge,
  or names an edge at the coordinate zero (which the code takes for a missing one).\<close>

definition selected_edge :: "rect \<Rightarrow> element \<Rightarrow> string \<Rightarrow> (string \<times> rat) option" where
  "selected_edge r e attr =
     (case get_attr e attr of None \<Rightarrow> None
      | Some refAttr \<Rightarrow>
          (case map_of (edges r) refAttr of None \<Rightarrow> None
           | Some edge \<Rightarrow> if edge = 0 then None else Some (refAttr, edge)))"

text \<open>What the code assigns to \<open>style.top\<close> (a bottom edge wins over a top edge) and \<open>style.left\<close>.\<close>

definition new_top :: "rect \<Rightarrow> rat \<Rightarrow> rat \<Rightarrow> element \<Rightarrow> rat option" where
  "new_top r h gap e =
     (case selected_edge r e ''bottom'' of
        Some (a, edge) \<Rightarrow> Some (edge - h - (if a = ''top'' then gap else 0))
      | None \<Rightarrow> map_option (\<lambda>(a, edge). edge + (if a = ''bottom'' then gap else 0))
                  (selected_edge r e ''top''))"

definition new_left :: "rect \<Rightarrow> rat \<Rightarrow> rat \<Rightarrow> element \<Rightarrow> rat option" where
  "new_left r w gap e =
     (case selected_edge r e ''right'' of
        Some (a, edge) \<Rightarrow> Some (edge - w)
      | None \<Rightarrow> map_option (\<lambda>(a, edge). edge + (if a = ''right'' then gap else 0))
                  (selected_edge r e ''left''))"

definition restyle :: "rat option \<Rightarrow> rat option \<Rightarrow> element \<Rightarrow> element" where
  "restyle t l e =
     (let e' = (case t of None \<Rightarrow> e | Some y \<Rightarrow> set_style ''top'' (Px y) e)
      in case l of None \<Rightarrow> e' | Some x \<Rightarrow> set_style ''left'' (Px x) e')"


section \<open>Correctness\<close>

lemma edit_edit: "edit n f (edit n g p) = edit n (f \<circ> g) p"
proof -
  have "update_element n f (update_element n g d) = update_element n (f \<circ> g) d" for d
    by (induction d) auto
  then show ?thesis by (simp add: edit_def)
qed

lemma edit_id: "edit n (\<lambda>e. e) p = p"
proof -
  have "update_element n (\<lambda>e. e) d = d" for d
    by (rule update_element_id) auto
  then show ?thesis by (simp add: edit_def)
qed

lemma doc_edit [simp]: "doc (edit n f p) = update_element n f (doc p)"
  by (simp add: edit_def)

lemma attribute_edit:
  "attribute (edit n f p) m a =
     (case element_of (doc p) m of None \<Rightarrow> None
      | Some e \<Rightarrow> get_attr (if m = n then f e else e) a)"
  by (simp add: attribute_def element_of_update split: option.split)

lemma attribute_edit_style [simp]:
  "attribute (edit n (set_style s v) p) m a = attribute p m a"
  by (simp add: attribute_edit) (simp add: attribute_def split: option.split)

lemma set_style_twice [simp]: "set_style s v \<circ> set_style s w = set_style s v"
  by (rule ext) (simp add: set_style_def)

text \<open>One pass of the loop, with the element's attributes known.\<close>

lemma position_step_top:
  assumes "attribute p n ''top'' = get_attr e ''top''"
  shows "position_step r w h g n ''top'' p =
    (case selected_edge r e ''top'' of None \<Rightarrow> p
     | Some (a, y) \<Rightarrow> edit n (set_style ''top'' (Px (y + (if a = ''bottom'' then g else 0)))) p)"
proof (cases "get_attr e ''top''")
  case (Some a)
  then show ?thesis using assms
    by (cases "map_of (edges r) a") (simp_all add: position_step_def selected_edge_def)
qed (use assms in \<open>simp add: position_step_def selected_edge_def\<close>)

lemma position_step_bottom:
  assumes "attribute p n ''bottom'' = get_attr e ''bottom''"
  shows "position_step r w h g n ''bottom'' p =
    (case selected_edge r e ''bottom'' of None \<Rightarrow> p
     | Some (a, y) \<Rightarrow> edit n (set_style ''top'' (Px (y - h - (if a = ''top'' then g else 0)))) p)"
proof (cases "get_attr e ''bottom''")
  case (Some a)
  then show ?thesis using assms
    by (cases "map_of (edges r) a") (simp_all add: position_step_def selected_edge_def)
qed (use assms in \<open>simp add: position_step_def selected_edge_def\<close>)

lemma position_step_left:
  assumes "attribute p n ''left'' = get_attr e ''left''"
  shows "position_step r w h g n ''left'' p =
    (case selected_edge r e ''left'' of None \<Rightarrow> p
     | Some (a, x) \<Rightarrow> edit n (set_style ''left'' (Px (x + (if a = ''right'' then g else 0)))) p)"
proof (cases "get_attr e ''left''")
  case (Some a)
  then show ?thesis using assms
    by (cases "map_of (edges r) a") (simp_all add: position_step_def selected_edge_def)
qed (use assms in \<open>simp add: position_step_def selected_edge_def\<close>)

lemma position_step_right:
  assumes "attribute p n ''right'' = get_attr e ''right''"
  shows "position_step r w h g n ''right'' p =
    (case selected_edge r e ''right'' of None \<Rightarrow> p
     | Some (a, x) \<Rightarrow> edit n (set_style ''left'' (Px (x - w))) p)"
proof (cases "get_attr e ''right''")
  case (Some a)
  then show ?thesis using assms
    by (cases "map_of (edges r) a") (simp_all add: position_step_def selected_edge_def)
qed (use assms in \<open>simp add: position_step_def selected_edge_def\<close>)

lemmas position_steps =
  position_step_top position_step_bottom position_step_left position_step_right

lemma restyle_simps [simp]:
  "restyle None None = (\<lambda>e. e)"
  "restyle (Some y) None = set_style ''top'' (Px y)"
  "restyle None (Some x) = set_style ''left'' (Px x)"
  by (simp_all add: restyle_def fun_eq_iff)

lemma restyle_split: "edit n (restyle t l) p = edit n (restyle None l) (edit n (restyle t None) p)"
proof -
  have "restyle None l \<circ> restyle t None = restyle t l"
    by (cases t; cases l) (simp_all add: restyle_def fun_eq_iff)
  then show ?thesis by (simp add: edit_edit)
qed

lemma attribute_restyle [simp]: "attribute (edit n (restyle t l) p) m a = attribute p m a"
  by (subst restyle_split, cases t; cases l) (simp_all add: edit_id)

lemma position_vertical:
  assumes "\<And>a. attribute p n a = get_attr e a"
  shows "position_step r w h g n ''bottom'' (position_step r w h g n ''top'' p) =
    edit n (restyle (new_top r h g e) None) p"
proof -
  note s = position_step_top [of _ n e] position_step_bottom [of _ n e]
  show ?thesis
    by (cases "selected_edge r e ''top''"; cases "selected_edge r e ''bottom''")
      (auto simp add: s assms new_top_def edit_edit edit_id split: prod.split)
qed

lemma position_horizontal:
  assumes "\<And>a. attribute p n a = get_attr e a"
  shows "position_step r w h g n ''right'' (position_step r w h g n ''left'' p) =
    edit n (restyle None (new_left r w g e)) p"
proof -
  note s = position_step_left [of _ n e] position_step_right [of _ n e]
  show ?thesis
    by (cases "selected_edge r e ''left''"; cases "selected_edge r e ''right''")
      (auto simp add: s assms new_left_def edit_edit edit_id split: prod.split)
qed

lemma positionRelativeTo_restyle:
  assumes "element_of (doc p) n = Some e"
  shows "positionRelativeTo b n ref gap p =
    edit n (restyle (new_top (bounding_rect b p ref) (rect_height (bounding_rect b p n))
                       (case gap of None \<Rightarrow> 0 | Some g \<Rightarrow> g) e)
                    (new_left (bounding_rect b p ref) (rect_width (bounding_rect b p n))
                       (case gap of None \<Rightarrow> 0 | Some g \<Rightarrow> g) e)) p"
proof -
  have *: "\<And>a. attribute p n a = get_attr e a" using assms by (simp add: attribute_def)
  show ?thesis
    by (simp add: positionRelativeTo_def Let_def position_vertical [OF *]
        position_horizontal [where e = e] * restyle_split [where t = "new_top _ _ _ _"
          and l = "new_left _ _ _ _"])
qed

end
