(* ===== verification/Help.thy ===== *)
theory Help
  imports Layout
begin

text \<open>
  The help overlay of \<open>code.js\<close>: \<open>collectHelpAnchors\<close>, \<open>showHelp\<close>, \<open>closeAllHelp\<close> and the click
  handler \<open>outsideClick\<close> of the body. \<open>showHelp\<close> puts a popup next to every element that carries a
  help text and is painted, on top of one backdrop; while help is shown the row of filters may be
  forced open. \<open>outsideClick\<close> dismisses the help and the dialogs.
\<close>

section \<open>Selectors\<close>

definition help_element :: "element \<Rightarrow> bool" where
  "help_element e \<longleftrightarrow> has_class ''helppopup'' e \<or> has_class ''help-backdrop'' e"

definition outside_exempt :: "element \<Rightarrow> bool" where
  "outside_exempt e \<longleftrightarrow> has_class ''help-trigger'' e \<or> has_class ''helppopup'' e
     \<or> has_id ''welcome-dialog'' e"

definition set_filter_row :: "string \<Rightarrow> page \<Rightarrow> page" where
  "set_filter_row d p = p\<lparr>css := snd (modifyRule ''.filter-row'' ''display'' d (css p))\<rparr>"

section \<open>\<open>closeAllHelp\<close>\<close>

definition remove_all :: "nid list \<Rightarrow> page \<Rightarrow> page" where
  "remove_all ns p = p\<lparr>doc := fold remove_node ns (doc p)\<rparr>"

definition closeAllHelp :: "page \<Rightarrow> page" where
  "closeAllHelp p0 =
     (let stale = query_all help_element (doc p0);
          p1 = remove_all stale p0;
          p2 = (if helpFiltersAutoOpened p1
                then (set_filter_row ''none'' p1)\<lparr>helpFiltersAutoOpened := False\<rparr> else p1)
      in case get_by_id ''welcome-dialog'' (doc p2) of
           None \<Rightarrow> p2
         | Some welcome \<Rightarrow> if is_open p2 welcome then close_dialog welcome p2 else p2)"

section \<open>\<open>outsideClick\<close>\<close>

text \<open>The target is the clicked element, or none for an event without an element as its target.\<close>

definition close_settings :: "page \<Rightarrow> page" where
  "close_settings p =
     (case get_by_id ''settings-modal'' (doc p) of
        None \<Rightarrow> p
      | Some settings \<Rightarrow> if is_open p settings then close_dialog settings p else p)"

definition outsideClick :: "nid option \<Rightarrow> page \<Rightarrow> page" where
  "outsideClick target p =
     (case target of
        None \<Rightarrow> close_settings (closeAllHelp p)
      | Some t \<Rightarrow>
          if closest outside_exempt t (doc p) \<noteq> None then p
          else case closest open_dialog t (doc p) of
                 Some openDialog \<Rightarrow>
                   if t \<noteq> openDialog then closeAllHelp p
                   else closeAllHelp (close_dialog openDialog p)
               | None \<Rightarrow> close_settings (closeAllHelp p))"

section \<open>\<open>collectHelpAnchors\<close>\<close>

definition collectHelpAnchors :: "nid \<Rightarrow> bool \<Rightarrow> page \<Rightarrow> nid list" where
  "collectHelpAnchors rt includeRoot p =
     (if includeRoot \<and> attribute p rt ''data-help-content'' \<noteq> None then [rt] else [])
     @ query_all (has_attr ''data-help-content'') (subtree p rt)"

section \<open>\<open>showHelp\<close>\<close>

definition HELP_PLACEMENTS :: "(string \<times> (string \<times> string) list) list" where
  "HELP_PLACEMENTS =
     [(''below-right'', [(''top'', ''bottom''), (''left'', ''left'')]),
      (''below-left'', [(''top'', ''bottom''), (''right'', ''right'')]),
      (''above-right'', [(''bottom'', ''top''), (''left'', ''left'')]),
      (''right-below'', [(''top'', ''top''), (''left'', ''right'')])]"

definition placement_of :: "string \<Rightarrow> (string \<times> string) list" where
  "placement_of side =
     (case map_of HELP_PLACEMENTS side of
        Some pl \<Rightarrow> pl
      | None \<Rightarrow> the (map_of HELP_PLACEMENTS ''below-right''))"

text \<open>\<open>tagName === 'DIALOG' ? open : offsetParent\<close>\<close>

definition anchor_visible :: "browser \<Rightarrow> page \<Rightarrow> nid \<Rightarrow> bool" where
  "anchor_visible b p anchor =
     (if (case element_of (doc p) anchor of None \<Rightarrow> False | Some e \<Rightarrow> tag e = ''DIALOG'')
      then is_open p anchor else offset_parent b p anchor)"

definition new_div :: "string \<Rightarrow> string \<Rightarrow> element" where
  "new_div cls html = \<lparr>tag = ''DIV'', attrs = [(''class'', cls)], style = [], modal = False,
     val = [], markup = html\<rparr>"

text \<open>\<open>appendChild\<close> of a freshly created element\<close>

definition append_new :: "nid \<Rightarrow> element \<Rightarrow> page \<Rightarrow> page" where
  "append_new container e p =
     p\<lparr>doc := append_child container (Elem (next_nid p) e []) (doc p),
       next_nid := next_nid p + 1\<rparr>"

text \<open>The opening tag of the popup's title, with its quotation marks (\<open>CHR 0x22\<close>).\<close>

definition helppopuptitle :: string where
  "helppopuptitle = ''<div class='' @ [CHR 0x22] @ ''helppopuptitle'' @ [CHR 0x22] @ ''>''"

definition popup_markup :: "page \<Rightarrow> nid \<Rightarrow> string" where
  "popup_markup p anchor =
     (case attribute p anchor ''data-help-title'' of
        None \<Rightarrow> []
      | Some title \<Rightarrow> if title = [] then []
                      else helppopuptitle @ title @ '':</div>'')
     @ (case attribute p anchor ''data-help-content'' of None \<Rightarrow> ''null'' | Some c \<Rightarrow> c)"

definition help_side :: "page \<Rightarrow> nid \<Rightarrow> string" where
  "help_side p anchor =
     (case attribute p anchor ''data-help-side'' of
        None \<Rightarrow> ''below-right''
      | Some s \<Rightarrow> if s = [] then ''below-right'' else s)"

definition with_placement :: "nid \<Rightarrow> string \<Rightarrow> page \<Rightarrow> page" where
  "with_placement popup side p =
     fold (\<lambda>(attr, v). edit popup (set_attr attr v)) (placement_of side) p"

definition place_popup :: "browser \<Rightarrow> nid \<Rightarrow> nid \<Rightarrow> page \<Rightarrow> page" where
  "place_popup b popup anchor p =
     (let side = help_side p anchor
      in if side = ''omni''
         then edit popup (set_style ''right'' (Px 0)) (edit popup (set_style ''top'' (Px 0)) p)
         else positionRelativeTo b popup anchor (Some 6) (with_placement popup side p))"

text \<open>The backdrop is created with the first popup of the container.\<close>

definition with_backdrop :: "nid \<Rightarrow> page \<Rightarrow> page" where
  "with_backdrop container p =
     (if query (has_class ''help-backdrop'') (subtree p container) = None
      then append_new container (new_div ''help-backdrop'' []) p else p)"

definition help_anchor :: "browser \<Rightarrow> nid \<Rightarrow> nid \<Rightarrow> page \<Rightarrow> page" where
  "help_anchor b container anchor p =
     (if \<not> anchor_visible b p anchor then p
      else
        let html = popup_markup p anchor;
            p1 = with_backdrop container p;
            popup = next_nid p1;
            p2 = append_new container (new_div ''helppopup'' html) p1
        in place_popup b popup anchor p2)"

definition open_filter_row :: "browser \<Rightarrow> page \<Rightarrow> page" where
  "open_filter_row b p =
     (case query (has_class ''filter-row'') (doc p) of
        None \<Rightarrow> p
      | Some filterRow \<Rightarrow>
          if computed_display b p filterRow = ''none''
          then (set_filter_row ''table-row'' p)\<lparr>helpFiltersAutoOpened := True\<rparr> else p)"

text \<open>The container of the popups and the anchors: a dialog that is open and has help, else the body.\<close>

definition help_scope :: "page \<Rightarrow> nid \<times> nid list" where
  "help_scope p =
     (case query open_dialog (doc p) of
        None \<Rightarrow> (body p, collectHelpAnchors (body p) False p)
      | Some openDialog \<Rightarrow>
          (let anchors = collectHelpAnchors openDialog True p
           in if anchors \<noteq> [] then (openDialog, anchors)
              else (body p, collectHelpAnchors (body p) False p)))"

definition showHelp :: "browser \<Rightarrow> page \<Rightarrow> page" where
  "showHelp b p0 =
     (let p1 = closeAllHelp p0;
          (container, anchors) = help_scope p1;
          p2 = (if container = body p1 then open_filter_row b p1 else p1);
          p3 = fold (help_anchor b container) anchors p2
      in if helpFiltersAutoOpened p3
            \<and> query (has_class ''helppopup'') (subtree p3 container) = None
         then (set_filter_row ''none'' p3)\<lparr>helpFiltersAutoOpened := False\<rparr> else p3)"

end
