(* ===== verification/Help_Correct.thy ===== *)
theory Help_Correct
  imports Help
begin

text \<open>
  Why the help overlay of \<open>Help\<close> is right. Closing the help is the stripping of the help elements from
  the tree; showing it only adds an overlay, which closing strips again; the overlay holds one popup
  for each painted element with a help text, each beside its element; a click dismisses the help and
  the dialogs it is meant to dismiss and no other.
\<close>

section \<open>Well-formed pages\<close>

definition page_wf :: "page \<Rightarrow> bool" where
  "page_wf p \<longleftrightarrow> distinct (ids (doc p)) \<and> (\<forall>n \<in> set (ids (doc p)). n < next_nid p)
     \<and> \<not> matches help_element (doc p) \<and> body p \<in> set (ids (strip help_element (doc p)))"

lemma page_wfD:
  assumes "page_wf p"
  shows "distinct (ids (doc p))" "n \<in> set (ids (doc p)) \<Longrightarrow> n < next_nid p"
    "\<not> matches help_element (doc p)" "body p \<in> set (ids (strip help_element (doc p)))"
  using assms by (auto simp: page_wf_def)

section \<open>What \<open>closeAllHelp\<close> leaves\<close>

text \<open>The specification: the document without help elements, its welcome dialog closed.\<close>

definition hide_welcome :: "dnode \<Rightarrow> dnode" where
  "hide_welcome d =
     (case get_by_id ''welcome-dialog'' d of
        None \<Rightarrow> d
      | Some w \<Rightarrow>
          (case element_of d w of
             None \<Rightarrow> d
           | Some e \<Rightarrow> if open_dialog e then update_element w close_element d else d))"

lemma doc_set_filter_row [simp]: "doc (set_filter_row v p) = doc p"
  by (simp add: set_filter_row_def)

lemma help_close [simp]: "help_element (close_element e) = help_element e"
  by (simp add: help_element_def)

lemma closeAllHelp_doc:
  assumes "distinct (ids (doc p))"
  shows "doc (closeAllHelp p) = hide_welcome (strip help_element (doc p))"
proof -
  have "fold remove_node (query_all help_element (doc p)) (doc p) = strip help_element (doc p)"
    by (rule prune_query [OF assms])
  then show ?thesis
    by (simp add: closeAllHelp_def Let_def remove_all_def hide_welcome_def is_open_def
        close_dialog_def edit_def split: option.split)
qed

lemma closeAllHelp_rest:
  "body (closeAllHelp p) = body p" "next_nid (closeAllHelp p) = next_nid p"
  "helpFiltersAutoOpened (closeAllHelp p) = False"
  "css (closeAllHelp p) = (if helpFiltersAutoOpened p then css (set_filter_row ''none'' p) else css p)"
  by (simp_all add: closeAllHelp_def Let_def remove_all_def close_dialog_def edit_def
      set_filter_row_def split: option.split)

lemma hide_welcome_update: "hide_welcome d = d \<or> (\<exists>w. hide_welcome d = update_element w close_element d)"
  by (auto simp: hide_welcome_def split: option.split)

lemma ids_hide [simp]: "ids (hide_welcome d) = ids d"
  using hide_welcome_update [of d] by auto

lemma query_all_hide:
  "(\<And>e. sel (close_element e) = sel e) \<Longrightarrow> query_all sel (hide_welcome d) = query_all sel d"
  using hide_welcome_update [of d] by (auto simp: query_all_update)

lemma strip_hide: "strip help_element (hide_welcome (strip help_element d)) = hide_welcome (strip help_element d)"
  by (rule strip_id) (simp add: query_all_hide query_all_strip)

lemma hide_closed:
  assumes "get_by_id ''welcome-dialog'' (hide_welcome d) = Some w"
    and "element_of (hide_welcome d) w = Some e"
  shows "\<not> open_dialog e"
proof -
  have w: "get_by_id ''welcome-dialog'' d = Some w"
    using assms(1) by (simp add: get_by_id_def query_def query_all_hide)
  then show ?thesis
    using assms(2)
    by (auto simp: hide_welcome_def element_of_update split: option.splits if_splits)
qed

lemma hide_hide [simp]: "hide_welcome (hide_welcome d) = hide_welcome d"
proof -
  have "hide_welcome d' = d'" if "d' = hide_welcome d" for d'
    unfolding hide_welcome_def [of d'] using hide_closed [of d] that
    by (auto split: option.splits)
  then show ?thesis by blast
qed

section \<open>Popups are an overlay\<close>

text \<open>\<open>q\<close> is \<open>p\<close> with help elements added to it.\<close>

definition overlay :: "page \<Rightarrow> page \<Rightarrow> bool" where
  "overlay p q \<longleftrightarrow> page_wf q \<and> strip help_element (doc q) = strip help_element (doc p)
     \<and> body q = body p \<and> css q = css p \<and> helpFiltersAutoOpened q = helpFiltersAutoOpened p
     \<and> next_nid p \<le> next_nid q"

lemma overlay_refl: "page_wf p \<Longrightarrow> overlay p p"
  by (simp add: overlay_def)

lemma overlay_trans: "overlay p q \<Longrightarrow> overlay q r \<Longrightarrow> overlay p r"
  by (auto simp: overlay_def)

lemma overlay_wf: "overlay p q \<Longrightarrow> page_wf q"
  by (simp add: overlay_def)

lemma mset_doc_append_new:
  assumes "page_wf p" and "container \<in> set (ids (doc p))"
  shows "mset (elements (doc (append_new container e p))) =
    add_mset (next_nid p, e) (mset (elements (doc p)))"
  using elements_append [OF page_wfD(1) [OF assms(1)] assms(2), of "Elem (next_nid p) e []"]
  by (simp add: append_new_def)

lemma ids_append_new:
  assumes "page_wf p" and "container \<in> set (ids (doc p))"
  shows "mset (ids (doc (append_new container e p))) = add_mset (next_nid p) (mset (ids (doc p)))"
  using arg_cong [OF mset_doc_append_new [OF assms], of "image_mset fst"] by simp

lemma overlay_append_new:
  assumes "page_wf p" and e: "help_element e"
  shows "overlay p (append_new container e p)"
proof -
  let ?q = "append_new container e p"
  have strip: "strip help_element (doc ?q) = strip help_element (doc p)"
    using e by (simp add: append_new_def strip_append)
  have "distinct (ids (doc ?q)) \<and> set (ids (doc ?q)) \<subseteq> insert (next_nid p) (set (ids (doc p)))"
  proof (cases "container \<in> set (ids (doc p))")
    case True
    have fresh: "next_nid p \<notin> set (ids (doc p))" using page_wfD(2) [OF assms(1)] by blast
    have m: "mset (ids (doc ?q)) = mset (next_nid p # ids (doc p))"
      using ids_append_new [OF assms(1) True] by simp
    have "distinct (next_nid p # ids (doc p))" using fresh page_wfD(1) [OF assms(1)] by simp
    then show ?thesis
      using mset_eq_imp_distinct_iff [OF m] mset_eq_setD [OF m] by auto
  next
    case False
    then show ?thesis using page_wfD(1) [OF assms(1)]
      by (simp add: append_new_def append_child_absent del: set_map) blast
  qed
  then have "distinct (ids (doc ?q))" "\<forall>n \<in> set (ids (doc ?q)). n < next_nid ?q"
    using page_wfD(2) [OF assms(1)] by (auto simp: append_new_def less_Suc_eq simp del: set_map)
  then show ?thesis
    using assms(1) strip by (simp add: overlay_def page_wf_def) (simp add: append_new_def)
qed

lemma overlay_edit:
  assumes "page_wf p" and e: "\<forall>(m, e) \<in> set (elements (doc p)). m = n \<longrightarrow> help_element e"
    and f: "\<And>e. help_element (f e) = help_element e"
  shows "overlay p (edit n f p)"
proof -
  have "strip help_element (update_element n f (doc p)) = strip help_element (doc p)"
    using e f page_wfD(3) [OF assms(1)] by (intro strip_update) auto
  then show ?thesis
    using assms(1) by (simp add: overlay_def page_wf_def matches_update f) (simp add: edit_def)
qed

section \<open>Placing a popup is an edit of that popup\<close>

lemma has_class_set_attr [simp]: "a \<noteq> ''class'' \<Longrightarrow> has_class c (set_attr a v e) = has_class c e"
  by (simp add: has_class_def)

lemma has_class_set_style [simp]: "has_class c (set_style s v e) = has_class c e"
  by (simp add: has_class_def)

lemma has_class_restyle [simp]: "has_class c (restyle t l e) = has_class c e"
  by (simp add: restyle_def split: option.split)

lemma placement_cases:
  "placement_of side =
    (if side = ''below-left'' then [(''top'', ''bottom''), (''right'', ''right'')]
     else if side = ''above-right'' then [(''bottom'', ''top''), (''left'', ''left'')]
     else if side = ''right-below'' then [(''top'', ''top''), (''left'', ''right'')]
     else [(''top'', ''bottom''), (''left'', ''left'')])"
  by (simp add: placement_of_def HELP_PLACEMENTS_def)

definition placed :: "string \<Rightarrow> element \<Rightarrow> element" where
  "placed side e = fold (\<lambda>(a, v). set_attr a v) (placement_of side) e"

lemma with_placement_edit: "with_placement popup side p = edit popup (placed side) p"
proof -
  have "fold (\<lambda>(a, v). edit popup (set_attr a v)) pl p =
      edit popup (fold (\<lambda>(a, v). set_attr a v) pl) p" for pl
    by (induction pl arbitrary: p) (auto simp: edit_id edit_edit comp_def id_def)
  then show ?thesis by (simp add: with_placement_def placed_def[abs_def])
qed

lemma has_class_placed [simp]: "has_class c (placed side e) = has_class c e"
  by (simp add: placed_def placement_cases)

lemma positionRelativeTo_absent:
  assumes "element_of (doc p) n = None"
  shows "positionRelativeTo b n ref gap p = p"
  using assms by (simp add: positionRelativeTo_def Let_def position_step_def attribute_def)

text \<open>An edit that changes neither the classes of an element nor its contents.\<close>

definition cosmetic :: "(element \<Rightarrow> element) \<Rightarrow> bool" where
  "cosmetic f \<longleftrightarrow> (\<forall>e. markup (f e) = markup e \<and> (\<forall>c. has_class c (f e) = has_class c e))"

lemma markup_set [simp]: "markup (set_attr a v e) = markup e" "markup (set_style a w e) = markup e"
  by (simp_all add: set_attr_def set_style_def)

lemma cosmetic_intros [intro]:
  "cosmetic (\<lambda>e. e)" "cosmetic (restyle t l)" "cosmetic (placed side)" "cosmetic (set_style s v)"
  "cosmetic f \<Longrightarrow> cosmetic g \<Longrightarrow> cosmetic (f \<circ> g)"
  by (simp_all add: cosmetic_def) (simp_all add: restyle_def placed_def placement_cases split: option.split)

lemma place_popup_edit: "\<exists>f. place_popup b popup anchor p = edit popup f p \<and> cosmetic f"
proof -
  let ?q = "with_placement popup (help_side p anchor) p"
  have "\<exists>f. positionRelativeTo b popup anchor (Some 6) ?q = edit popup f ?q \<and> cosmetic f"
  proof (cases "element_of (doc ?q) popup")
    case None
    then show ?thesis
      by (intro exI [of _ "\<lambda>e. e"] conjI) (auto simp: positionRelativeTo_absent edit_id)
  next
    case (Some e)
    then show ?thesis using positionRelativeTo_restyle [OF Some] by blast
  qed
  then obtain f where f: "positionRelativeTo b popup anchor (Some 6) ?q = edit popup f ?q"
    "cosmetic f" by blast
  show ?thesis
  proof (cases "help_side p anchor = ''omni''")
    case True
    then have "place_popup b popup anchor p =
        edit popup (set_style ''right'' (Px 0) \<circ> set_style ''top'' (Px 0)) p"
      by (simp add: place_popup_def Let_def edit_edit)
    then show ?thesis by blast
  next
    case False
    then have "place_popup b popup anchor p = edit popup (f \<circ> placed (help_side p anchor)) p"
      using f(1) by (simp add: place_popup_def Let_def with_placement_edit edit_edit)
    then show ?thesis using f(2) by blast
  qed
qed

section \<open>\<open>showHelp\<close> adds an overlay\<close>

lemma new_div_class [simp]:
  "has_class ''helppopup'' (new_div ''helppopup'' html)"
  "has_class ''help-backdrop'' (new_div ''help-backdrop'' html)"
  "\<not> has_class ''help-backdrop'' (new_div ''helppopup'' html)"
  "\<not> has_class ''helppopup'' (new_div ''help-backdrop'' html)"
  by (simp_all add: has_class_def get_attr_def new_div_def)

lemma new_div_help [simp]:
  "help_element (new_div ''helppopup'' html)" "help_element (new_div ''help-backdrop'' html)"
  by (simp_all add: help_element_def)

lemma new_element:
  assumes "page_wf p" and "(next_nid p, e') \<in> set (elements (doc (append_new container e p)))"
  shows "e' = e"
proof (cases "container \<in> set (ids (doc p))")
  case True
  have "(next_nid p, e') \<notin> set (elements (doc p))"
    using page_wfD(2) [OF assms(1), of "next_nid p"] by force
  then show ?thesis
    using mset_eq_setD [of "elements (doc (append_new container e p))" "(next_nid p, e) # elements (doc p)"]
      mset_doc_append_new [OF assms(1) True] assms(2) by auto
next
  case False
  then have "(next_nid p, e') \<in> set (elements (doc p))"
    using assms(2) by (simp add: append_new_def append_child_absent del: set_map)
  then show ?thesis using page_wfD(2) [OF assms(1), of "next_nid p"] by force
qed

lemma overlay_with_backdrop: "page_wf p \<Longrightarrow> overlay p (with_backdrop container p)"
  by (simp add: with_backdrop_def overlay_append_new overlay_refl)

lemma help_anchor_edit:
  assumes "page_wf p" and "anchor_visible b p anchor"
  obtains f where "cosmetic f" and "help_anchor b container anchor p =
      edit (next_nid (with_backdrop container p)) f
        (append_new container (new_div ''helppopup'' (popup_markup p anchor)) (with_backdrop container p))"
proof -
  let ?q = "append_new container (new_div ''helppopup'' (popup_markup p anchor)) (with_backdrop container p)"
  obtain f where "place_popup b (next_nid (with_backdrop container p)) anchor ?q =
      edit (next_nid (with_backdrop container p)) f ?q" "cosmetic f"
    using place_popup_edit by blast
  then show ?thesis using that assms(2) by (simp add: help_anchor_def Let_def)
qed

lemma overlay_help_anchor:
  assumes "page_wf p"
  shows "overlay p (help_anchor b container anchor p)"
proof (cases "anchor_visible b p anchor")
  case True
  let ?p1 = "with_backdrop container p"
  let ?p2 = "append_new container (new_div ''helppopup'' (popup_markup p anchor)) ?p1"
  have 1: "overlay p ?p1" by (rule overlay_with_backdrop [OF assms])
  have 2: "overlay ?p1 ?p2" by (simp add: overlay_append_new overlay_wf [OF 1])
  obtain f where f: "cosmetic f" "help_anchor b container anchor p = edit (next_nid ?p1) f ?p2"
    using help_anchor_edit [OF assms True] by blast
  have 3: "overlay ?p2 (edit (next_nid ?p1) f ?p2)"
  proof (rule overlay_edit [OF overlay_wf [OF 2]])
    show "\<forall>(m, e)\<in>set (elements (doc ?p2)). m = next_nid ?p1 \<longrightarrow> help_element e"
      using new_div_help(1) new_element [OF overlay_wf [OF 1]] by blast
    show "help_element (f e) = help_element e" for e
      using f(1) by (simp add: help_element_def cosmetic_def)
  qed
  then show ?thesis using f(2) overlay_trans [OF 1 overlay_trans [OF 2 3]] by simp
qed (simp add: help_anchor_def overlay_refl assms)

lemma overlay_anchors:
  "page_wf p \<Longrightarrow> overlay p (fold (help_anchor b container) anchors p)"
proof (induction anchors arbitrary: p)
  case (Cons a as)
  have "overlay p (help_anchor b container a p)" by (rule overlay_help_anchor [OF Cons.prems])
  then show ?case using Cons.IH overlay_wf overlay_trans by fastforce
qed (simp add: overlay_refl)

text \<open>The page on which the popups are laid out.\<close>

definition help_base :: "browser \<Rightarrow> page \<Rightarrow> page" where
  "help_base b p =
     (let p1 = closeAllHelp p
      in if fst (help_scope p1) = body p1 then open_filter_row b p1 else p1)"

definition help_layer :: "browser \<Rightarrow> page \<Rightarrow> page" where
  "help_layer b p = fold (help_anchor b (fst (help_scope (closeAllHelp p))))
     (snd (help_scope (closeAllHelp p))) (help_base b p)"

lemma showHelp_eq:
  "showHelp b p =
    (if helpFiltersAutoOpened (help_layer b p)
        \<and> query (has_class ''helppopup'')
            (subtree (help_layer b p) (fst (help_scope (closeAllHelp p)))) = None
     then (set_filter_row ''none'' (help_layer b p))\<lparr>helpFiltersAutoOpened := False\<rparr>
     else help_layer b p)"
  by (simp add: showHelp_def help_layer_def help_base_def Let_def split_beta)

lemma wf_closeAllHelp:
  assumes "page_wf p"
  shows "page_wf (closeAllHelp p)"
proof -
  let ?d = "strip help_element (doc p)"
  have d: "doc (closeAllHelp p) = hide_welcome ?d"
    by (rule closeAllHelp_doc [OF page_wfD(1) [OF assms]])
  have "\<not> matches help_element (hide_welcome ?d)"
    using hide_welcome_update [of ?d] page_wfD(3) [OF assms] by (auto simp: matches_update)
  moreover have "distinct (ids (hide_welcome ?d))"
    using distinct_strip [OF page_wfD(1) [OF assms]] by simp
  moreover have "set (ids (hide_welcome ?d)) \<subseteq> set (ids (doc p))"
    using ids_strip by (simp del: set_map)
  moreover have "body p \<in> set (ids (strip help_element (hide_welcome ?d)))"
    using page_wfD(4) [OF assms] by (simp add: strip_hide del: set_map)
  ultimately show ?thesis
    using assms unfolding page_wf_def d closeAllHelp_rest by blast
qed

lemma help_base_cases:
  obtains "help_base b p = closeAllHelp p"
  | row where "query (has_class ''filter-row'') (doc (closeAllHelp p)) = Some row"
      and "computed_display b (closeAllHelp p) row = ''none''"
      and "help_base b p =
        (set_filter_row ''table-row'' (closeAllHelp p))\<lparr>helpFiltersAutoOpened := True\<rparr>"
proof (cases "fst (help_scope (closeAllHelp p)) = body (closeAllHelp p)")
  case True
  then have *: "help_base b p = open_filter_row b (closeAllHelp p)"
    by (simp add: help_base_def)
  show ?thesis
  proof (cases "query (has_class ''filter-row'') (doc (closeAllHelp p))")
    case None
    then show ?thesis using * that(1) by (simp add: open_filter_row_def)
  next
    case (Some row)
    then show ?thesis using * that
      by (cases "computed_display b (closeAllHelp p) row = ''none''")
        (simp_all add: open_filter_row_def)
  qed
qed (use that in \<open>simp add: help_base_def\<close>)

lemma wf_cong: "doc p = doc q \<Longrightarrow> body p = body q \<Longrightarrow> next_nid p = next_nid q \<Longrightarrow> page_wf p = page_wf q"
  by (simp add: page_wf_def)

lemma set_filter_row_rest [simp]:
  "body (set_filter_row v p) = body p" "next_nid (set_filter_row v p) = next_nid p"
  "helpFiltersAutoOpened (set_filter_row v p) = helpFiltersAutoOpened p"
  by (simp_all add: set_filter_row_def)

lemma wf_help_base: "page_wf p \<Longrightarrow> page_wf (help_base b p)"
  by (rule help_base_cases [of b p]; drule wf_closeAllHelp) (simp_all add: page_wf_def)

lemma overlay_help_layer: "page_wf p \<Longrightarrow> overlay (help_base b p) (help_layer b p)"
  unfolding help_layer_def by (rule overlay_anchors [OF wf_help_base])

lemma wf_showHelp: "page_wf p \<Longrightarrow> page_wf (showHelp b p)"
  using overlay_wf [OF overlay_help_layer [of p b]] by (simp add: showHelp_eq page_wf_def)

section \<open>The row of filters\<close>

lemma set_property_twice:
  "v \<noteq> [] \<Longrightarrow> w \<noteq> [] \<Longrightarrow> set_property a v (set_property a w r) = set_property a v r"
  by (simp add: set_property_def)

lemma selectorText_set_property [simp]: "selectorText (set_property a v r) = selectorText r"
  by (simp add: set_property_def)

lemma modify_rules_twice:
  assumes "v \<noteq> []" and "w \<noteq> []"
  shows "modify_rules sel a w rs = Some rs' \<Longrightarrow> modify_rules sel a v rs' = modify_rules sel a v rs"
  by (induction rs arbitrary: rs') (auto simp: set_property_twice assms split: if_splits)

lemma modify_rules_none:
  "modify_rules sel a w rs = None \<longleftrightarrow> modify_rules sel a v rs = None"
  by (induction rs) auto

lemma modify_sheets_twice:
  assumes "v \<noteq> []" and "w \<noteq> []"
  shows "modify_sheets sel a w ss = Some ss' \<Longrightarrow> modify_sheets sel a v ss' = modify_sheets sel a v ss"
proof (induction ss arbitrary: ss')
  case (Cons rs ss)
  note n = modify_rules_none [of sel a w rs v]
  show ?case
  proof (cases "modify_rules sel a w rs")
    case None
    then show ?thesis using Cons n by auto
  next
    case (Some rs')
    then obtain rs'' where "modify_rules sel a v rs = Some rs''" using n by auto
    then show ?thesis using Some Cons.prems modify_rules_twice [OF assms Some] by auto
  qed
qed simp

lemma modify_sheets_none:
  "modify_sheets sel a w ss = None \<longleftrightarrow> modify_sheets sel a v ss = None"
proof (induction ss)
  case (Cons rs ss)
  show ?case
    using Cons modify_rules_none [of sel a w rs v]
    by (cases "modify_rules sel a w rs"; cases "modify_rules sel a v rs") simp_all
qed simp

lemma set_filter_row_twice:
  assumes "v \<noteq> []" and "w \<noteq> []"
  shows "set_filter_row v (set_filter_row w p) = set_filter_row v p"
proof (cases "modify_sheets ''.filter-row'' ''display'' w (css p)")
  case None
  then show ?thesis by (simp add: set_filter_row_def modifyRule_def)
next
  case (Some ss')
  then obtain ss'' where "modify_sheets ''.filter-row'' ''display'' v (css p) = Some ss''"
    using modify_sheets_none [of "''.filter-row''" "''display''" w "css p" v] by auto
  then show ?thesis
    using Some modify_sheets_twice [OF assms Some] by (simp add: set_filter_row_def modifyRule_def)
qed

section \<open>Properties of closing and showing\<close>

lemma closed_no_help:
  assumes "page_wf p"
  shows "query_all help_element (doc (closeAllHelp p)) = []"
  by (simp add: closeAllHelp_doc [OF page_wfD(1) [OF assms]] query_all_hide query_all_strip)

lemma closed_no_welcome:
  assumes "page_wf p" and "get_by_id ''welcome-dialog'' (doc (closeAllHelp p)) = Some w"
  shows "\<not> is_open (closeAllHelp p) w"
  using hide_closed assms(2)
  unfolding closeAllHelp_doc [OF page_wfD(1) [OF assms(1)]] is_open_def by (auto split: option.split)

text \<open>C6. Closing the help leaves no help element in the document: the document is the old one
  without its popups and backdrops, its welcome dialog closed if it has one, nothing else touched;
  no popup or backdrop can be found any more, and the flag of the forced filter row is reset.\<close>

theorem closeAllHelp_clean:
  assumes "page_wf p"
  shows "doc (closeAllHelp p) = hide_welcome (strip help_element (doc p))
    \<and> query_all help_element (doc (closeAllHelp p)) = []
    \<and> (\<forall>w. get_by_id ''welcome-dialog'' (doc (closeAllHelp p)) = Some w \<longrightarrow> \<not> is_open (closeAllHelp p) w)
    \<and> \<not> helpFiltersAutoOpened (closeAllHelp p) \<and> page_wf (closeAllHelp p)"
  using closeAllHelp_doc [OF page_wfD(1) [OF assms]] closed_no_help [OF assms]
    closed_no_welcome [OF assms] wf_closeAllHelp [OF assms]
  by (simp add: closeAllHelp_rest)

lemma closeAllHelp_twice:
  assumes "page_wf p" and "doc q = doc (closeAllHelp p)"
  shows "doc (closeAllHelp q) = doc (closeAllHelp p)"
proof -
  have d: "doc (closeAllHelp p) = hide_welcome (strip help_element (doc p))"
    by (rule closeAllHelp_doc [OF page_wfD(1) [OF assms(1)]])
  have "distinct (ids (doc q))" using assms page_wfD(1) [OF wf_closeAllHelp] by metis
  then show ?thesis by (simp add: closeAllHelp_doc assms(2) d strip_hide)
qed

lemma doc_help_base [simp]: "doc (help_base b p) = doc (closeAllHelp p)"
  by (rule help_base_cases [of b p]) simp_all

lemma close_after_overlay:
  assumes "page_wf p" and "overlay (help_base b p) q"
  shows "doc (closeAllHelp q) = doc (closeAllHelp p)"
proof -
  have d: "doc (closeAllHelp p) = hide_welcome (strip help_element (doc p))"
    by (rule closeAllHelp_doc [OF page_wfD(1) [OF assms(1)]])
  have "strip help_element (doc q) = doc (closeAllHelp p)"
    using assms(2) by (simp add: overlay_def d strip_hide)
  then show ?thesis
    using page_wfD(1) [OF overlay_wf [OF assms(2)]] by (simp add: closeAllHelp_doc d)
qed

text \<open>C7. Showing the help is undone by closing it: on a page whose filter row, when it is not
  displayed, is hidden by its own style rule, showing and then closing the help leaves exactly the
  page that closing alone leaves (documents, style sheets and flag), except that identifiers of
  elements have been used up.\<close>

theorem help_is_temporary:
  assumes "page_wf p"
    and "\<And>row. query (has_class ''filter-row'') (doc (closeAllHelp p)) = Some row \<Longrightarrow>
      computed_display b (closeAllHelp p) row = ''none'' \<Longrightarrow>
      set_filter_row ''none'' (closeAllHelp p) = closeAllHelp p"
  shows "closeAllHelp (showHelp b p) =
    (closeAllHelp p)\<lparr>next_nid := next_nid (showHelp b p)\<rparr>"
proof -
  let ?L = "help_layer b p" and ?r = "closeAllHelp p" and ?q = "showHelp b p"
  have ov: "overlay (help_base b p) ?L" by (rule overlay_help_layer [OF assms(1)])
  have "doc (closeAllHelp ?q) = doc (closeAllHelp ?L)"
    using wf_showHelp [OF assms(1), of b] overlay_wf [OF ov]
    by (simp add: closeAllHelp_doc page_wfD showHelp_eq)
  then have doc: "doc (closeAllHelp ?q) = doc ?r"
    using close_after_overlay [OF assms(1) ov] by simp
  have body: "body ?q = body ?r"
    using ov by (rule_tac help_base_cases [of b p])
      (auto simp: showHelp_eq overlay_def)
  have css: "css (closeAllHelp ?q) = css ?r"
  proof (rule help_base_cases [of b p])
    assume "help_base b p = ?r"
    then show ?thesis using ov by (simp add: showHelp_eq overlay_def closeAllHelp_rest)
  next
    fix row
    assume row: "query (has_class ''filter-row'') (doc ?r) = Some row"
      "computed_display b ?r row = ''none''"
      "help_base b p = (set_filter_row ''table-row'' ?r)\<lparr>helpFiltersAutoOpened := True\<rparr>"
    have L: "css ?L = css (set_filter_row ''table-row'' ?r)" "helpFiltersAutoOpened ?L"
      using ov row(3) by (simp_all add: overlay_def)
    have *: "css (set_filter_row ''none'' ?L) = css ?r"
    proof -
      have "css (set_filter_row ''none'' ?L) = css (set_filter_row ''none'' (set_filter_row ''table-row'' ?r))"
        using L(1) by (simp add: set_filter_row_def)
      then show ?thesis by (simp add: set_filter_row_twice assms(2) [OF row(1,2)])
    qed
    then show ?thesis using L(2) by (simp add: showHelp_eq closeAllHelp_rest)
  qed
  show ?thesis
  proof (rule page.equality)
    show "css (closeAllHelp ?q) = css (?r\<lparr>next_nid := next_nid ?q\<rparr>)" using css by simp
  qed (use doc body in \<open>simp_all add: closeAllHelp_rest(1-3)\<close>)
qed

section \<open>How many popups\<close>

definition popup_texts :: "page \<Rightarrow> string multiset" where
  "popup_texts p = mset (map (\<lambda>(n, e). markup e)
     (filter (\<lambda>(n, e). has_class ''helppopup'' e) (elements (doc p))))"

definition backdrop_count :: "page \<Rightarrow> nat" where
  "backdrop_count p = length (filter (\<lambda>(n, e). has_class ''help-backdrop'' e) (elements (doc p)))"

lemma filter_update_cosmetic:
  assumes "cosmetic f"
  shows "map (\<lambda>(n, e). markup e) (filter (\<lambda>(n, e). has_class c e)
      (map (\<lambda>(m, e). (m, if m = n then f e else e)) xs)) =
    map (\<lambda>(n, e). markup e) (filter (\<lambda>(n, e). has_class c e) xs)"
  using assms by (induction xs) (auto simp: cosmetic_def split: if_splits)

lemma counts_edit:
  assumes "cosmetic f"
  shows "popup_texts (edit n f p) = popup_texts p" "backdrop_count (edit n f p) = backdrop_count p"
proof -
  show "popup_texts (edit n f p) = popup_texts p"
    by (simp add: popup_texts_def elements_update filter_update_cosmetic [OF assms]
        del: mset_map mset_filter)
  have "length (filter (\<lambda>(n, e). has_class c e) (elements (doc (edit n f p)))) =
      length (map (\<lambda>(n, e). markup e) (filter (\<lambda>(n, e). has_class c e) (elements (doc (edit n f p)))))"
    for c by simp
  then show "backdrop_count (edit n f p) = backdrop_count p"
    by (simp add: backdrop_count_def elements_update filter_update_cosmetic [OF assms] del: length_map)
      simp
qed

lemma counts_append:
  assumes "page_wf p" and "container \<in> set (ids (doc p))"
  shows "popup_texts (append_new container e p) =
      (if has_class ''helppopup'' e then {#markup e#} else {#}) + popup_texts p"
    "backdrop_count (append_new container e p) =
      (if has_class ''help-backdrop'' e then 1 else 0) + backdrop_count p"
proof -
  let ?es = "elements (doc (append_new container e p))"
  have m: "mset ?es = add_mset (next_nid p, e) (mset (elements (doc p)))"
    by (rule mset_doc_append_new [OF assms])
  show "popup_texts (append_new container e p) =
      (if has_class ''helppopup'' e then {#markup e#} else {#}) + popup_texts p"
    by (simp add: popup_texts_def m)
  have "length (filter P ?es) = size (filter_mset P (mset ?es))" for P
    by (simp add: size_mset [symmetric] del: size_mset)
  then show "backdrop_count (append_new container e p) =
      (if has_class ''help-backdrop'' e then 1 else 0) + backdrop_count p"
    by (simp add: backdrop_count_def m) (simp add: size_mset [symmetric] del: size_mset)
qed

lemma subtree_root: "container \<in> set (ids (doc p)) \<Longrightarrow> node_id (subtree p container) = Some container"
  using find_node_None [of container "doc p"] find_node_root [of container "doc p"]
  by (auto simp: subtree_def split: option.splits)

lemma query_append_new:
  assumes "container \<in> set (ids (doc p))"
  shows "query sel (subtree (append_new container e p) container) = None \<longleftrightarrow>
    query sel (subtree p container) = None \<and> \<not> sel e"
proof -
  obtain d where d: "find_node container (doc p) = Some d"
    using assms find_node_None [of container "doc p"] by auto
  then show ?thesis
    using query_append_leaf [OF find_node_root [OF d]]
    by (simp add: subtree_def append_new_def find_append)
qed

lemma query_edit_cosmetic:
  assumes "cosmetic f"
  shows "query (has_class c) (subtree (edit n f p) m) = query (has_class c) (subtree p m)"
  using assms query_update [of "has_class c" f n]
  by (simp add: subtree_def find_update cosmetic_def split: option.split)

lemma ids_overlay: "overlay p q \<Longrightarrow> n \<in> set (ids (strip help_element (doc p))) \<Longrightarrow> n \<in> set (ids (doc q))"
  using ids_strip [of help_element "doc q"] by (auto simp: overlay_def)

lemma help_anchor_effect:
  assumes "page_wf p" and c: "container \<in> set (ids (strip help_element (doc p)))"
    and "anchor_visible b p anchor"
  defines "q \<equiv> help_anchor b container anchor p"
  shows "popup_texts q = add_mset (popup_markup p anchor) (popup_texts p)"
    and "backdrop_count q =
      (if query (has_class ''help-backdrop'') (subtree p container) = None then 1 else 0) + backdrop_count p"
    and "query (has_class ''help-backdrop'') (subtree q container) \<noteq> None"
    and "query (has_class ''helppopup'') (subtree q container) \<noteq> None"
proof -
  let ?p1 = "with_backdrop container p"
  obtain f where f: "cosmetic f" "q = edit (next_nid ?p1) f
      (append_new container (new_div ''helppopup'' (popup_markup p anchor)) ?p1)"
    using help_anchor_edit [OF assms(1,3)] unfolding q_def by blast
  have in_p: "container \<in> set (ids (doc p))" using ids_overlay [OF overlay_refl [OF assms(1)] c] .
  have in_p1: "container \<in> set (ids (doc ?p1))"
    using ids_overlay [OF overlay_with_backdrop [OF assms(1)] c] .
  note wf1 = overlay_wf [OF overlay_with_backdrop [OF assms(1), of container]]
  have p1: "popup_texts ?p1 = popup_texts p" "backdrop_count ?p1 =
      (if query (has_class ''help-backdrop'') (subtree p container) = None then 1 else 0) + backdrop_count p"
    by (simp_all add: with_backdrop_def counts_append [OF assms(1) in_p])
  have bd: "query (has_class ''help-backdrop'') (subtree ?p1 container) \<noteq> None"
  proof (cases "query (has_class ''help-backdrop'') (subtree p container) = None")
    case True
    then show ?thesis
      using query_append_new [OF in_p, of "has_class ''help-backdrop''"]
      by (auto simp: with_backdrop_def simp del: not_None_eq)
  qed (auto simp: with_backdrop_def)
  have "markup (new_div c h) = h" for c h by (simp add: new_div_def)
  then show "popup_texts q = add_mset (popup_markup p anchor) (popup_texts p)"
    by (simp add: f(2) counts_edit [OF f(1)] counts_append [OF wf1 in_p1] p1(1))
  show "backdrop_count q =
      (if query (has_class ''help-backdrop'') (subtree p container) = None then 1 else 0) + backdrop_count p"
    by (simp add: f(2) counts_edit [OF f(1)] counts_append [OF wf1 in_p1] p1(2))
  show "query (has_class ''help-backdrop'') (subtree q container) \<noteq> None"
    "query (has_class ''helppopup'') (subtree q container) \<noteq> None"
    unfolding f(2) query_edit_cosmetic [OF f(1)] query_append_new [OF in_p1] using bd by simp_all
qed

text \<open>The overlay is out of the flow: adding help elements does not change which of the other
  elements are painted. (Popups and backdrop are \<open>position: fixed\<close> in \<open>styles.css\<close>.)\<close>

definition overlay_browser :: "browser \<Rightarrow> bool" where
  "overlay_browser b \<longleftrightarrow> (\<forall>p q n. overlay p q \<longrightarrow> n \<in> set (ids (strip help_element (doc p))) \<longrightarrow>
     offset_parent b q n = offset_parent b p n)"

lemma element_of_strip:
  assumes "distinct (ids d)" and "n \<in> set (ids (strip sel d))"
  shows "element_of d n = element_of (strip sel d) n"
proof -
  obtain e where e: "(n, e) \<in> set (elements (strip sel d))" using assms(2) by auto
  have "(n, e) \<in> set (elements d)" using e subseq_set [OF elements_strip] by blast
  then show ?thesis
    using e assms(1) distinct_strip [OF assms(1)] by (simp add: element_of_def)
qed

lemma overlay_element:
  assumes "page_wf p" and "overlay p q" and "n \<in> set (ids (strip help_element (doc p)))"
  shows "element_of (doc q) n = element_of (doc p) n"
proof -
  have "strip help_element (doc q) = strip help_element (doc p)"
    using assms(2) by (simp add: overlay_def)
  then show ?thesis
    using assms(3) element_of_strip [OF page_wfD(1) [OF assms(1)], of n help_element]
      element_of_strip [OF page_wfD(1) [OF overlay_wf [OF assms(2)]], of n help_element] by simp
qed

lemma overlay_anchor:
  assumes "page_wf p" and "overlay p q" and "n \<in> set (ids (strip help_element (doc p)))"
    and "overlay_browser b"
  shows "popup_markup q n = popup_markup p n" "anchor_visible b q n = anchor_visible b p n"
  using overlay_element [OF assms(1-3)] assms(2-4)
  by (simp_all add: popup_markup_def attribute_def anchor_visible_def is_open_def overlay_browser_def)

lemma help_anchors_effect:
  assumes "page_wf p" and "container \<in> set (ids (strip help_element (doc p)))"
    and "overlay_browser b" and "overlay p q"
    and "set anchors \<subseteq> set (ids (strip help_element (doc p)))"
  defines "shown \<equiv> filter (anchor_visible b p) anchors"
    and "q' \<equiv> fold (help_anchor b container) anchors q"
  shows "popup_texts q' = mset (map (popup_markup p) shown) + popup_texts q \<and>
    backdrop_count q' = backdrop_count q +
      (if shown \<noteq> [] \<and> query (has_class ''help-backdrop'') (subtree q container) = None then 1 else 0) \<and>
    (shown \<noteq> [] \<longrightarrow> query (has_class ''helppopup'') (subtree q' container) \<noteq> None) \<and>
    (query (has_class ''helppopup'') (subtree q container) \<noteq> None \<longrightarrow>
       query (has_class ''helppopup'') (subtree q' container) \<noteq> None)"
  using assms(4,5) unfolding shown_def q'_def
proof (induction anchors arbitrary: q)
  case (Cons a as)
  let ?r = "help_anchor b container a q"
  have a: "a \<in> set (ids (strip help_element (doc p)))" using Cons.prems(2) by simp
  note wfq = overlay_wf [OF Cons.prems(1)]
  have r: "overlay p ?r" by (rule overlay_trans [OF Cons.prems(1) overlay_help_anchor [OF wfq]])
  have c: "container \<in> set (ids (strip help_element (doc q)))"
    using assms(2) Cons.prems(1) by (simp add: overlay_def)
  have vis: "anchor_visible b q a = anchor_visible b p a" "popup_markup q a = popup_markup p a"
    using overlay_anchor [OF assms(1) Cons.prems(1) a assms(3)] by simp_all
  have IH: "popup_texts (fold (help_anchor b container) as ?r) =
      mset (map (popup_markup p) (filter (anchor_visible b p) as)) + popup_texts ?r \<and>
    backdrop_count (fold (help_anchor b container) as ?r) = backdrop_count ?r +
      (if filter (anchor_visible b p) as \<noteq> [] \<and>
          query (has_class ''help-backdrop'') (subtree ?r container) = None then 1 else 0) \<and>
    (filter (anchor_visible b p) as \<noteq> [] \<longrightarrow> query (has_class ''helppopup'')
       (subtree (fold (help_anchor b container) as ?r) container) \<noteq> None) \<and>
    (query (has_class ''helppopup'') (subtree ?r container) \<noteq> None \<longrightarrow> query (has_class ''helppopup'')
       (subtree (fold (help_anchor b container) as ?r) container) \<noteq> None)"
    by (rule Cons.IH [OF r]) (use Cons.prems(2) in simp)
  show ?case
  proof (cases "anchor_visible b p a")
    case True
    then show ?thesis
      using help_anchor_effect [OF wfq c] IH vis
      by (simp del: not_None_eq)
  next
    case False
    then have "?r = q" using vis(1) by (simp add: help_anchor_def)
    then show ?thesis using IH False by simp
  qed
qed simp

lemma collectHelpAnchors_ids: "set (collectHelpAnchors n r p) \<subseteq> set (ids (doc p))"
proof -
  have "set (query_all sel (subtree p n)) \<subseteq> set (ids (doc p))" for sel
  proof (cases "find_node n (doc p)")
    case None
    then show ?thesis by (simp add: subtree_def query_all_def)
  next
    case (Some d)
    then show ?thesis
      using query_all_ids [of sel d] image_mono [OF find_node_below [OF Some], of fst]
      by (auto simp: subtree_def)
  qed
  moreover have "n \<in> set (ids (doc p))" if "attribute p n a \<noteq> None" for a
    using that element_of_None [of "doc p" n] by (auto simp: attribute_def split: option.splits)
  ultimately show ?thesis by (auto simp: collectHelpAnchors_def simp del: set_map)
qed

lemma help_scope_ids:
  assumes "page_wf p"
  shows "fst (help_scope p) \<in> set (ids (doc p))" "set (snd (help_scope p)) \<subseteq> set (ids (doc p))"
proof -
  have b: "body p \<in> set (ids (doc p))" using page_wfD(4) [OF assms] ids_strip by blast
  show "fst (help_scope p) \<in> set (ids (doc p))"
    using b query_ids [of open_dialog "doc p"]
    by (simp add: help_scope_def Let_def split: option.split del: set_map)
  show "set (snd (help_scope p)) \<subseteq> set (ids (doc p))"
    using collectHelpAnchors_ids by (simp add: help_scope_def Let_def split: option.split del: set_map)
qed

lemma no_help_elements:
  assumes "query_all help_element d = []" and "\<not> matches help_element d"
    and "(n, e) \<in> set (elements d)"
  shows "\<not> help_element e"
proof (cases d)
  case (Elem m a cs)
  then show ?thesis using assms by (auto simp: query_all_def filter_empty_conv)
qed (use assms in simp)

lemma counts_none:
  assumes "query_all help_element (doc p) = []" and "page_wf p"
  shows "popup_texts p = {#}" "backdrop_count p = 0"
  using no_help_elements [OF assms(1) page_wfD(3) [OF assms(2)]]
  by (auto simp: popup_texts_def backdrop_count_def filter_empty_conv help_element_def)

lemma query_subtree:
  assumes "query sel (subtree p n) \<noteq> None"
  shows "filter (\<lambda>(n, e). sel e) (elements (doc p)) \<noteq> []"
proof (cases "find_node n (doc p)")
  case None
  then show ?thesis using assms by (simp add: subtree_def query_None query_all_def)
next
  case (Some d)
  then obtain k e where "(k, e) \<in> set (concat (map elements (children d)))" "sel e"
    using assms by (auto simp: subtree_def query_None query_all_def filter_empty_conv)
  then have "(k, e) \<in> set (elements (doc p))" "sel e"
    using set_below [of d] find_node_below [OF Some] by blast+
  then show ?thesis by (auto simp: filter_empty_conv)
qed

lemma flag_popup: "helpFiltersAutoOpened (showHelp b p) \<Longrightarrow> popup_texts (showHelp b p) \<noteq> {#}"
  using query_subtree [of "has_class ''helppopup''" "help_layer b p" "fst (help_scope (closeAllHelp p))"]
  by (auto simp: showHelp_eq popup_texts_def simp del: mset_map mset_filter split: if_splits)

text \<open>The markup of a popup: the title, if there is one that is not empty, in an element of the class
  \<open>helppopuptitle\<close>, and the text.\<close>

fun popup_html :: "string option \<Rightarrow> string option \<Rightarrow> string" where
  "popup_html (Some (c # cs)) content =
     ''<div class='' @ [CHR 0x22] @ ''helppopuptitle'' @ [CHR 0x22] @ ''>'' @ (c # cs) @ '':</div>''
       @ popup_html None content"
| "popup_html title (Some content) = content"
| "popup_html title None = ''null''"

lemma popup_markup_html:
  "popup_markup p n = popup_html (attribute p n ''data-help-title'') (attribute p n ''data-help-content'')"
  by (cases "(attribute p n ''data-help-title'', attribute p n ''data-help-content'')" rule: popup_html.cases)
    (simp_all add: popup_markup_def helppopuptitle_def split: option.split)

text \<open>C8. Showing the help puts up exactly one popup, with the title and text of the element, for
  every element in scope that carries a help text and is painted, and one backdrop if there is any
  popup at all; the filter row stays forced open only while a popup is shown.\<close>

theorem showHelp_popups:
  assumes "page_wf p" and "overlay_browser b"
  shows "popup_texts (showHelp b p) = mset (map
        (\<lambda>n. popup_html (attribute (closeAllHelp p) n ''data-help-title'') (attribute (closeAllHelp p) n ''data-help-content''))
      (filter (anchor_visible b (help_base b p)) (snd (help_scope (closeAllHelp p)))))
    \<and> backdrop_count (showHelp b p) =
        (if filter (anchor_visible b (help_base b p)) (snd (help_scope (closeAllHelp p))) = [] then 0 else 1)
    \<and> (helpFiltersAutoOpened (showHelp b p) \<longrightarrow> popup_texts (showHelp b p) \<noteq> {#})"
proof -
  let ?r = "closeAllHelp p" and ?h = "help_base b p"
  let ?c = "fst (help_scope ?r)" and ?as = "snd (help_scope ?r)"
  have wf: "page_wf ?r" "page_wf ?h" using wf_closeAllHelp wf_help_base assms(1) by auto
  have q: "query_all help_element (doc ?r) = []"
    by (simp add: closeAllHelp_doc [OF page_wfD(1) [OF assms(1)]] query_all_hide query_all_strip)
  have s: "strip help_element (doc ?h) = doc ?r" using strip_id [OF q] by simp
  have eff: "popup_texts (help_layer b p) =
      mset (map (popup_markup ?h) (filter (anchor_visible b ?h) ?as)) + popup_texts ?h \<and>
    backdrop_count (help_layer b p) = backdrop_count ?h +
      (if filter (anchor_visible b ?h) ?as \<noteq> [] \<and>
          query (has_class ''help-backdrop'') (subtree ?h ?c) = None then 1 else 0) \<and>
    (filter (anchor_visible b ?h) ?as \<noteq> [] \<longrightarrow>
       query (has_class ''helppopup'') (subtree (help_layer b p) ?c) \<noteq> None) \<and>
    (query (has_class ''helppopup'') (subtree ?h ?c) \<noteq> None \<longrightarrow>
       query (has_class ''helppopup'') (subtree (help_layer b p) ?c) \<noteq> None)"
    unfolding help_layer_def
    using help_scope_ids [OF wf(1)]
    by (intro help_anchors_effect wf(2) assms(2) overlay_refl) (simp_all only: s)
  have none: "popup_texts ?h = {#}" "backdrop_count ?h = 0"
    using counts_none [of ?h] wf(2) q by simp_all
  have m: "popup_markup ?h = popup_markup ?r"
    by (rule ext) (simp add: popup_markup_def attribute_def)
  have q0: "query (has_class ''help-backdrop'') (subtree ?h ?c) = None"
  proof -
    obtain d where d: "find_node ?c (doc ?h) = Some d"
      using help_scope_ids(1) [OF wf(1)] find_node_None [of ?c "doc ?h"] by auto
    have "\<not> has_class ''help-backdrop'' (snd y)" if "y \<in> set (elements d)" for y
      using no_help_elements [of "doc ?h"] q page_wfD(3) [OF wf(2)] find_node_below [OF d] that
      by (cases y) (auto simp: help_element_def)
    then show ?thesis
      using set_below [of d] d
      by (auto simp: query_None query_all_def filter_empty_conv subtree_def)
  qed
  have L: "popup_texts (showHelp b p) = popup_texts (help_layer b p)"
    "backdrop_count (showHelp b p) = backdrop_count (help_layer b p)"
    by (simp_all add: showHelp_eq popup_texts_def backdrop_count_def)
  show ?thesis using eff none q0 m L flag_popup [of b p] by (simp flip: popup_markup_html)
qed

section \<open>Where a popup goes\<close>

text \<open>The corner of a popup of size \<open>w\<close>, \<open>h\<close> beside the rectangle \<open>r\<close>.\<close>

definition popup_corner :: "string \<Rightarrow> rect \<Rightarrow> rat \<Rightarrow> rat \<Rightarrow> rat \<times> rat" where
  "popup_corner side r w h =
     (if side = ''below-left'' then (rect_right r - w, rect_bottom r + 6)
      else if side = ''above-right'' then (rect_left r, rect_top r - h - 6)
      else if side = ''right-below'' then (rect_right r + 6, rect_top r)
      else (rect_left r, rect_bottom r + 6))"

definition corner_style :: "element \<Rightarrow> (css_value option \<times> css_value option)" where
  "corner_style e = (map_of (style e) ''left'', map_of (style e) ''top'')"

definition fresh_popup :: "element \<Rightarrow> bool" where
  "fresh_popup e \<longleftrightarrow> style e = [] \<and>
     get_attr e ''top'' = None \<and> get_attr e ''bottom'' = None \<and>
     get_attr e ''left'' = None \<and> get_attr e ''right'' = None"

lemma new_div_fresh [simp]: "fresh_popup (new_div c h)"
  by (simp add: fresh_popup_def new_div_def get_attr_def)

lemma place_popup_restyle:
  assumes "element_of (doc p) popup = Some e" and "help_side p anchor \<noteq> ''omni''"
  defines "q \<equiv> with_placement popup (help_side p anchor) p"
    and "e' \<equiv> placed (help_side p anchor) e"
  shows "element_of (doc (place_popup b popup anchor p)) popup =
    Some (restyle (new_top (bounding_rect b q anchor) (rect_height (bounding_rect b q popup)) 6 e')
      (new_left (bounding_rect b q anchor) (rect_width (bounding_rect b q popup)) 6 e') e')"
proof -
  have "element_of (doc q) popup = Some e'"
    using assms(1) by (simp add: q_def e'_def with_placement_edit element_of_update)
  then show ?thesis
    using assms(2)
    by (simp add: place_popup_def Let_def positionRelativeTo_restyle element_of_update flip: q_def)
qed

lemma get_attr_placed:
  assumes "fresh_popup e" and "a \<in> {''top'', ''bottom'', ''left'', ''right''}"
  shows "get_attr (placed side e) a = map_of (placement_of side) a"
  using assms by (auto simp: placed_def placement_cases fresh_popup_def)

lemma edges_simps [simp]:
  "map_of (edges r) ''top'' = Some (rect_top r)" "map_of (edges r) ''bottom'' = Some (rect_bottom r)"
  "map_of (edges r) ''left'' = Some (rect_left r)" "map_of (edges r) ''right'' = Some (rect_right r)"
  by (simp_all add: edges_def)

lemma selected_placed:
  assumes "fresh_popup e" and "a \<in> {''top'', ''bottom'', ''left'', ''right''}"
  shows "selected_edge r (placed side e) a =
    (case map_of (placement_of side) a of None \<Rightarrow> None
     | Some x \<Rightarrow> (case map_of (edges r) x of None \<Rightarrow> None
         | Some y \<Rightarrow> if y = 0 then None else Some (x, y)))"
  by (simp add: selected_edge_def get_attr_placed [OF assms])

lemma style_placed [simp]: "style (placed side e) = style e"
  by (simp add: placed_def placement_cases set_attr_def)

lemma corner_restyle:
  "style e = [] \<Longrightarrow> corner_style (restyle t l e) = (map_option Px l, map_option Px t)"
  by (cases t; cases l) (simp_all add: restyle_def corner_style_def set_style_def)

lemma placed_corner:
  assumes "fresh_popup e"
    and "rect_left r \<noteq> 0" "rect_top r \<noteq> 0" "rect_right r \<noteq> 0" "rect_bottom r \<noteq> 0"
  shows "(new_left r w 6 (placed side e), new_top r h 6 (placed side e)) =
    (Some (fst (popup_corner side r w h)), Some (snd (popup_corner side r w h)))"
  using assms(2-5)
  by (simp add: new_left_def new_top_def selected_placed [OF assms(1)] placement_cases popup_corner_def)

lemma corner_no_overlap:
  assumes "0 \<le> rect_width r" "0 \<le> rect_height r" "0 \<le> w" "0 \<le> h"
  shows "\<not> overlap \<lparr>rect_left = fst (popup_corner side r w h), rect_top = snd (popup_corner side r w h),
      rect_width = w, rect_height = h\<rparr> r"
  using assms by (simp add: overlap_def popup_corner_def rect_right_def rect_bottom_def)

text \<open>C9. A popup is placed on the side its element asks for (below and to the right for an unknown
  side), six pixels off the element and flush with the element's edge, and never covers the element,
  as long as no edge of the element is at the coordinate zero.\<close>

theorem popup_beside_anchor:
  assumes "element_of (doc p) popup = Some e" and "fresh_popup e"
    and "help_side p anchor \<noteq> ''omni''"
    and "r = bounding_rect b (with_placement popup (help_side p anchor) p) anchor"
    and "box = bounding_rect b (with_placement popup (help_side p anchor) p) popup"
    and "rect_left r \<noteq> 0" "rect_top r \<noteq> 0" "rect_right r \<noteq> 0" "rect_bottom r \<noteq> 0"
    and "0 \<le> rect_width r" "0 \<le> rect_height r" "0 \<le> rect_width box" "0 \<le> rect_height box"
  shows "\<exists>e' x y. element_of (doc (place_popup b popup anchor p)) popup = Some e'
    \<and> corner_style e' = (Some (Px x), Some (Px y))
    \<and> (x, y) = popup_corner (help_side p anchor) r (rect_width box) (rect_height box)
    \<and> \<not> overlap (box\<lparr>rect_left := x, rect_top := y\<rparr>) r"
proof -
  let ?s = "help_side p anchor"
  let ?c = "popup_corner ?s r (rect_width box) (rect_height box)"
  have st: "style (placed ?s e) = []" using assms(2) by (simp add: fresh_popup_def)
  have "element_of (doc (place_popup b popup anchor p)) popup =
      Some (restyle (Some (snd ?c)) (Some (fst ?c)) (placed ?s e))"
    using place_popup_restyle [OF assms(1,3), of b] assms(4,5)
      placed_corner [OF assms(2,6-9), of "rect_width box" ?s "rect_height box"] by simp
  moreover have "\<not> overlap (box\<lparr>rect_left := fst ?c, rect_top := snd ?c\<rparr>) r"
    using corner_no_overlap [OF assms(10-13), of ?s] by (simp add: overlap_def rect_right_def rect_bottom_def)
  ultimately show ?thesis
    by (intro exI conjI) (auto simp: corner_restyle [OF st])
qed

text \<open>An edge at the coordinate zero is taken for a missing one: the popup of an element at the
  very top of the viewport that asks for the side \<open>right-below\<close> gets no vertical position.\<close>

lemma popup_unplaced_at_zero:
  assumes "element_of (doc p) popup = Some e" and "fresh_popup e"
    and "help_side p anchor = ''right-below''"
    and "rect_top (bounding_rect b (with_placement popup ''right-below'' p) anchor) = 0"
  shows "\<exists>e'. element_of (doc (place_popup b popup anchor p)) popup = Some e'
    \<and> snd (corner_style e') = None"
proof -
  let ?r = "bounding_rect b (with_placement popup ''right-below'' p) anchor"
  have st: "style (placed ''right-below'' e) = []" using assms(2) by (simp add: fresh_popup_def)
  have "new_top ?r h 6 (placed ''right-below'' e) = None" for h
    using assms(4) by (simp add: new_top_def selected_placed [OF assms(2)] placement_cases)
  then show ?thesis
    using place_popup_restyle [OF assms(1), of anchor b] assms(3)
    by (simp add: corner_restyle [OF st])
qed

section \<open>Clicks\<close>

lemma wf_edit:
  assumes "page_wf p" and "\<And>e. help_element (f e) = help_element e"
  shows "page_wf (edit n f p)"
proof -
  have "ids (strip help_element (update_element n f (doc p))) = ids (strip help_element (doc p))"
  proof -
    have "strip help_element (update_element n f d) = update_element n f (strip help_element d)" for d
      by (induction d) (auto simp: filter_map comp_def matches_update assms(2))
    then show ?thesis by simp
  qed
  then show ?thesis
    using assms by (simp add: page_wf_def matches_update del: set_map) (simp add: edit_def del: set_map)
qed

lemma wf_close_dialog: "page_wf p \<Longrightarrow> page_wf (close_dialog n p)"
  by (simp add: close_dialog_def wf_edit)

lemma doc_close_dialog [simp]: "doc (close_dialog n p) = update_element n close_element (doc p)"
  by (simp add: close_dialog_def)

lemma get_by_id_close [simp]: "get_by_id i (update_element n close_element d) = get_by_id i d"
  by (simp add: get_by_id_def query_update)

lemma close_settings_doc:
  "doc (close_settings p) = doc p \<or> (\<exists>n. doc (close_settings p) = update_element n close_element (doc p))"
  by (simp add: close_settings_def split: option.split) blast

lemma settings_closed:
  assumes "get_by_id ''settings-modal'' (doc (close_settings p)) = Some n"
  shows "\<not> is_open (close_settings p) n"
proof -
  have "get_by_id ''settings-modal'' (doc p) = Some n"
    using assms close_settings_doc [of p] by auto
  then show ?thesis
    by (simp add: close_settings_def is_open_def element_of_update split: option.split)
qed

lemma is_open_close: "is_open (edit m close_element p) n \<Longrightarrow> is_open p n"
  by (cases "element_of (doc p) n") (auto simp: is_open_def element_of_update split: if_splits)

lemma is_open_close_settings:
  assumes "is_open (close_settings p) n"
  shows "is_open p n"
proof (cases "get_by_id ''settings-modal'' (doc p)")
  case None
  then show ?thesis using assms by (simp add: close_settings_def)
next
  case (Some m)
  then show ?thesis
    using assms is_open_close [of m p n]
    by (simp add: close_settings_def close_dialog_def split: if_splits)
qed

lemma closeAllHelp_keeps:
  assumes "page_wf p" and "n \<in> set (ids (strip help_element (doc p)))"
    and "get_by_id ''welcome-dialog'' (doc (closeAllHelp p)) \<noteq> Some n"
  shows "element_of (doc (closeAllHelp p)) n = element_of (doc p) n"
proof -
  let ?s = "strip help_element (doc p)"
  note d = closeAllHelp_doc [OF page_wfD(1) [OF assms(1)]]
  have "get_by_id ''welcome-dialog'' ?s \<noteq> Some n"
    using assms(3) by (simp add: d get_by_id_def query_def query_all_hide)
  then have "element_of (hide_welcome ?s) n = element_of ?s n"
    by (auto simp: hide_welcome_def element_of_update split: option.split)
  then show ?thesis
    using element_of_strip [OF page_wfD(1) [OF assms(1)] assms(2)] by (simp add: d)
qed

lemma is_open_closeAllHelp:
  assumes "page_wf p" and "is_open (closeAllHelp p) n"
  shows "is_open p n"
proof -
  have n: "n \<in> set (ids (doc (closeAllHelp p)))"
    using assms(2) element_of_None [of "doc (closeAllHelp p)" n] by (auto simp: is_open_def split: option.splits)
  then have "n \<in> set (ids (strip help_element (doc p)))"
    by (simp add: closeAllHelp_doc [OF page_wfD(1) [OF assms(1)]] del: set_map)
  moreover have "get_by_id ''welcome-dialog'' (doc (closeAllHelp p)) \<noteq> Some n"
    using closed_no_welcome [OF assms(1)] assms(2) by blast
  ultimately have "element_of (doc (closeAllHelp p)) n = element_of (doc p) n"
    by (rule closeAllHelp_keeps [OF assms(1)])
  then show ?thesis using assms(2) by (simp add: is_open_def)
qed

lemma query_all_close [simp]:
  "query_all help_element (update_element n close_element d) = query_all help_element d"
  by (simp add: query_all_update)

lemma close_settings_no_help:
  "query_all help_element (doc (close_settings p)) = query_all help_element (doc p)"
  using close_settings_doc [of p] by auto

text \<open>C11. What a click does. On a help trigger, a popup or the welcome dialog: nothing. Anywhere else
  it dismisses the help and the welcome dialog; besides, outside of every open dialog it closes the
  settings, on the backdrop of an open dialog (the event's target is the dialog itself) it closes that
  dialog, and inside an open dialog it leaves every dialog as it is, the welcome dialog excepted.\<close>

theorem outsideClick_effect:
  assumes "page_wf p" and "q = outsideClick (Some t) p"
  shows "(closest outside_exempt t (doc p) \<noteq> None \<longrightarrow> q = p)
    \<and> (closest outside_exempt t (doc p) = None \<longrightarrow>
         query_all help_element (doc q) = [] \<and>
         (\<forall>w. get_by_id ''welcome-dialog'' (doc q) = Some w \<longrightarrow> \<not> is_open q w) \<and>
         (closest open_dialog t (doc p) = None \<longrightarrow>
            (\<forall>n. get_by_id ''settings-modal'' (doc q) = Some n \<longrightarrow> \<not> is_open q n)) \<and>
         (closest open_dialog t (doc p) = Some t \<longrightarrow> \<not> is_open q t) \<and>
         (\<forall>d. closest open_dialog t (doc p) = Some d \<longrightarrow> d \<noteq> t \<longrightarrow>
            (\<forall>n \<in> set (ids (strip help_element (doc p))).
               get_by_id ''welcome-dialog'' (doc q) \<noteq> Some n \<longrightarrow> is_open q n = is_open p n)))"
proof (cases "closest outside_exempt t (doc p)")
  case None
  have outside: "query_all help_element (doc q) = []"
    "\<forall>w. get_by_id ''welcome-dialog'' (doc q) = Some w \<longrightarrow> \<not> is_open q w"
    "\<forall>n. get_by_id ''settings-modal'' (doc q) = Some n \<longrightarrow> \<not> is_open q n"
    if "q = close_settings (closeAllHelp p)"
    using closed_no_help [OF assms(1)] closed_no_welcome [OF assms(1)] settings_closed
      is_open_close_settings [of "closeAllHelp p"] close_settings_doc [of "closeAllHelp p"]
    unfolding that close_settings_no_help by auto
  have inside: "query_all help_element (doc (closeAllHelp p')) = []"
    "\<forall>w. get_by_id ''welcome-dialog'' (doc (closeAllHelp p')) = Some w \<longrightarrow> \<not> is_open (closeAllHelp p') w"
    if "page_wf p'" for p'
    using closed_no_help [OF that] closed_no_welcome [OF that] by auto
  have wf': "page_wf (close_dialog t p)" by (rule wf_close_dialog [OF assms(1)])
  have closed: "\<not> is_open (closeAllHelp (close_dialog t p)) t"
    using is_open_closeAllHelp [OF wf', of t]
    by (auto simp: is_open_def element_of_update split: option.splits)
  show ?thesis
  proof (cases "closest open_dialog t (doc p)")
    case N: None
    then have "q = close_settings (closeAllHelp p)" using None assms(2) by (simp add: outsideClick_def)
    then show ?thesis using N None outside by simp
  next
    case (Some d)
    show ?thesis
    proof (cases "d = t")
      case True
      then have "q = closeAllHelp (close_dialog t p)"
        using None Some assms(2) by (simp add: outsideClick_def)
      then show ?thesis using None Some True inside [OF wf'] closed by simp
    next
      case False
      then have q: "q = closeAllHelp p" using None Some assms(2) by (auto simp: outsideClick_def)
      have "is_open q n = is_open p n" if "n \<in> set (ids (strip help_element (doc p)))"
        "get_by_id ''welcome-dialog'' (doc q) \<noteq> Some n" for n
        using closeAllHelp_keeps [OF assms(1) that(1)] that(2) by (simp add: q is_open_def)
      then show ?thesis using None Some False inside [OF assms(1)] by (simp add: q)
    qed
  qed
qed (simp add: assms(2) outsideClick_def)

section \<open>A page of the site\<close>

text \<open>The skeleton of the page the server renders: the link that opens the help, the (hidden) row of
  filters, a table cell with a help text, the settings dialog and the welcome dialog, which is open.\<close>

definition sample_doc :: dnode where
  "sample_doc =
     node 0 ''#document'' [] [node 1 ''HTML'' [] [node 2 ''BODY'' []
       [node 3 ''A'' [(''class'', ''help-trigger''), (''data-help-content'', ''All help texts''),
                      (''data-help-side'', ''omni'')] [Text ''Help''],
        node 4 ''TR'' [(''class'', ''filter-row'')] [],
        node 5 ''TD'' [(''data-help-title'', ''Mods''), (''data-help-content'', ''The mods of the map''),
                       (''data-help-side'', ''right-below'')] [Text ''DT''],
        node 6 ''DIALOG'' [(''id'', ''settings-modal'')] [],
        node 7 ''DIALOG'' [(''id'', ''welcome-dialog''), (''open'', [])] []]]]"

definition sample_page :: page where
  "sample_page = \<lparr>doc = sample_doc, body = 2,
     css = [[\<lparr>selectorText = Some ''.filter-row'', declarations = [(''display'', ''none'')]\<rparr>]],
     next_nid = 8, helpFiltersAutoOpened = False\<rparr>"

definition sample_browser :: browser where
  "sample_browser = \<lparr>
     bounding_rect = (\<lambda>p n. \<lparr>rect_left = 10, rect_top = 20, rect_width = 100, rect_height = 30\<rparr>),
     offset_parent = (\<lambda>p n. element_of (strip help_element (doc p)) n \<noteq> None),
     computed_display = (\<lambda>p n. ''none'')\<rparr>"

lemma sample_wf: "page_wf sample_page"
  by code_simp

lemma sample_overlay: "overlay_browser sample_browser"
  by (simp add: overlay_browser_def overlay_def sample_browser_def)

lemma closeAllHelp_clean_witness:
  "query_all help_element (doc (closeAllHelp sample_page)) = [] \<and> page_wf sample_page"
  using closeAllHelp_clean [OF sample_wf] sample_wf by blast

lemma help_is_temporary_witness:
  "closeAllHelp (showHelp sample_browser sample_page) =
     (closeAllHelp sample_page)\<lparr>next_nid := next_nid (showHelp sample_browser sample_page)\<rparr>"
proof (rule help_is_temporary [OF sample_wf])
  show "set_filter_row ''none'' (closeAllHelp sample_page) = closeAllHelp sample_page"
    by code_simp
qed

lemma showHelp_popups_witness:
  "popup_texts (showHelp sample_browser sample_page) =
     {#''All help texts'', ''<div class='' @ [CHR 0x22] @ ''helppopuptitle'' @ [CHR 0x22] @ ''>Mods:</div>The mods of the map''#}
   \<and> backdrop_count (showHelp sample_browser sample_page) = 1"
proof -
  have "filter (anchor_visible sample_browser (help_base sample_browser sample_page))
      (snd (help_scope (closeAllHelp sample_page))) = [3, 5]"
    "attribute (closeAllHelp sample_page) 3 ''data-help-title'' = None"
    "attribute (closeAllHelp sample_page) 3 ''data-help-content'' = Some ''All help texts''"
    "attribute (closeAllHelp sample_page) 5 ''data-help-title'' = Some ''Mods''"
    "attribute (closeAllHelp sample_page) 5 ''data-help-content'' = Some ''The mods of the map''"
    by code_simp+
  then show ?thesis using showHelp_popups [OF sample_wf sample_overlay] by simp
qed

definition popup_page :: page where
  "popup_page = append_new 2 (new_div ''helppopup'' []) sample_page"

definition top_browser :: browser where
  "top_browser = sample_browser\<lparr>bounding_rect :=
     (\<lambda>p n. \<lparr>rect_left = 10, rect_top = 0, rect_width = 100, rect_height = 30\<rparr>)\<rparr>"

lemma popup_page_element: "element_of (doc popup_page) 8 = Some (new_div ''helppopup'' [])"
  by code_simp

lemma popup_page_side: "help_side popup_page 5 = ''right-below''"
  by code_simp

lemma popup_beside_anchor_witness:
  "\<exists>e' x y. element_of (doc (place_popup sample_browser 8 5 popup_page)) 8 = Some e'
    \<and> corner_style e' = (Some (Px x), Some (Px y)) \<and> (x, y) = (116, 20)"
proof -
  have s: "bounding_rect sample_browser p n =
      \<lparr>rect_left = 10, rect_top = 20, rect_width = 100, rect_height = 30\<rparr>" for p n
    by (simp add: sample_browser_def)
  show ?thesis
    using popup_beside_anchor [OF popup_page_element new_div_fresh _ refl refl, of 5 sample_browser]
    by (auto simp add: popup_page_side s rect_right_def rect_bottom_def popup_corner_def)
qed

lemma popup_unplaced_at_zero_witness:
  "\<exists>e'. element_of (doc (place_popup top_browser 8 5 popup_page)) 8 = Some e'
    \<and> snd (corner_style e') = None"
  by (rule popup_unplaced_at_zero [OF popup_page_element new_div_fresh popup_page_side])
    (simp add: top_browser_def)

lemma outsideClick_effect_witness:
  "closest outside_exempt 2 (doc sample_page) = None \<and> is_open sample_page 7
    \<and> \<not> is_open (outsideClick (Some 2) sample_page) 7"
proof -
  have t: "closest outside_exempt 2 (doc sample_page) = None" by code_simp
  have w: "get_by_id ''welcome-dialog'' (doc (outsideClick (Some 2) sample_page)) = Some 7"
    by code_simp
  have op: "is_open sample_page 7" by code_simp
  show ?thesis using outsideClick_effect [OF sample_wf refl, of 2] t w op by simp
qed

end
