(* ===== verification/Dialogs.thy ===== *)
theory Dialogs
  imports Layout
begin

text \<open>
  The handlers of \<open>code.js\<close> that fill and open dialogs: \<open>updateMoreDialogLinks\<close> and
  \<open>updateEditDialog\<close> copy the data of a table row into a dialog before it opens; the click listener
  opens the dialog that the clicked button commands, and positions it at the button.

  Reading a property of the missing element \<open>null\<close> throws a \<open>TypeError\<close>, after whatever was written
  before. The row is an element of the page.
\<close>

section \<open>Filling the dialogs\<close>

text \<open>Concatenating a missing attribute gives the word \<open>null\<close>.\<close>

definition js_string :: "string option \<Rightarrow> string" where
  "js_string v = (case v of None \<Rightarrow> ''null'' | Some s \<Rightarrow> s)"

definition with_element :: "string \<Rightarrow> (element \<Rightarrow> element) \<Rightarrow> (page, unit) js" where
  "with_element i f = (\<lambda>p.
     case get_by_id i (doc p) of None \<Rightarrow> (Inl TypeError, p) | Some n \<Rightarrow> (Inr (), edit n f p))"

definition updateMoreDialogLinks :: "nid \<Rightarrow> (page, unit) js" where
  "updateMoreDialogLinks row =
     js_bind (js_get (\<lambda>p. attribute p row ''data-beatmapid'')) (\<lambda>b.
     js_bind (with_element ''more-dialog-beatmap-link'' (set_attr ''href'' (''?b='' @ js_string b))) (\<lambda>_.
     js_bind (js_get (\<lambda>p. attribute p row ''data-beatmapsetid'')) (\<lambda>s.
     with_element ''more-dialog-set-link'' (set_attr ''href'' (''?s='' @ js_string s)))))"

text \<open>The text of the first child of the row's comment cell, if it has one.\<close>

definition comment_text :: "page \<Rightarrow> nid \<Rightarrow> string" where
  "comment_text p row =
     (case query (has_class ''comments'') (subtree p row) of
        None \<Rightarrow> []
      | Some comment \<Rightarrow>
          (case children (subtree p comment) of
             [] \<Rightarrow> []
           | firstChild # _ \<Rightarrow> js_trim (text_content firstChild)))"

text \<open>Assigning \<open>null\<close> to the value of an input empties it.\<close>

definition set_value :: "string option \<Rightarrow> element \<Rightarrow> element" where
  "set_value v e = e\<lparr>val := (case v of None \<Rightarrow> [] | Some s \<Rightarrow> s)\<rparr>"

definition updateEditDialog :: "nid \<Rightarrow> (page, unit) js" where
  "updateEditDialog row =
     js_bind (js_get (\<lambda>p. comment_text p row)) (\<lambda>commentText.
     js_bind (js_get (\<lambda>p. attribute p row ''data-beatmapid'')) (\<lambda>b.
     js_bind (with_element ''edit-dialog-beatmapid'' (set_value b)) (\<lambda>_.
     js_bind (js_get (\<lambda>p. attribute p row ''data-mods'')) (\<lambda>m.
     js_bind (with_element ''edit-dialog-mods'' (set_value m)) (\<lambda>_.
     with_element ''edit-dialog-comment'' (set_value (Some commentText)))))))"

section \<open>The click listener\<close>

definition show_modal_button :: "element \<Rightarrow> bool" where
  "show_modal_button e \<longleftrightarrow> get_attr e ''command'' = Some ''show-modal''"

definition onClick :: "browser \<Rightarrow> nid \<Rightarrow> (page, unit) js" where
  "onClick b target = (\<lambda>p.
     case closest show_modal_button target (doc p) of
       None \<Rightarrow> (Inr (), p)
     | Some btn \<Rightarrow>
         (case attribute p btn ''commandfor'' of
            None \<Rightarrow> (Inr (), p)
          | Some targetId \<Rightarrow>
              if targetId = [] then (Inr (), p)
              else
                (case get_by_id targetId (doc p) of
                   None \<Rightarrow> (Inl TypeError, p)
                 | Some dialog \<Rightarrow>
                     js_bind (show_modal dialog)
                       (\<lambda>_. js_modify (positionRelativeTo b dialog btn None)) p)))"

section \<open>Correctness\<close>

lemma with_element_run:
  "with_element i f p = (case get_by_id i (doc p) of None \<Rightarrow> (Inl TypeError, p) | Some n \<Rightarrow> (Inr (), edit n f p))"
  by (simp add: with_element_def)

lemma has_id_simps [simp]:
  "a \<noteq> ''id'' \<Longrightarrow> has_id i (set_attr a v e) = has_id i e"
  "has_id i (set_value w e) = has_id i e" "has_id i (set_style s x e) = has_id i e"
  by (simp_all add: has_id_def) (simp add: get_attr_def set_value_def)

lemma get_by_id_simps [simp]:
  "a \<noteq> ''id'' \<Longrightarrow> get_by_id i (update_element m (set_attr a v) d) = get_by_id i d"
  "get_by_id i (update_element m (set_value w) d) = get_by_id i d"
  by (simp_all add: get_by_id_def query_update)

lemma attribute_set_value [simp]: "attribute (edit m (set_value v) p) n a = attribute p n a"
  by (simp add: attribute_edit) (simp add: attribute_def get_attr_def set_value_def split: option.split)

lemma attribute_set_attr:
  assumes "element_of (doc p) m \<noteq> None"
  shows "attribute (edit m (set_attr x v) p) n a =
    (if n = m \<and> a = x then Some v else attribute p n a)"
  using assms by (cases "element_of (doc p) n") (auto simp: attribute_def element_of_update)

lemma attribute_set_other [simp]:
  "a \<noteq> x \<Longrightarrow> attribute (edit m (set_attr x v) p) n a = attribute p n a"
  by (simp add: attribute_edit) (simp add: attribute_def split: option.split)

lemma get_by_id_exists: "get_by_id i (doc p) = Some n \<Longrightarrow> element_of (doc p) n \<noteq> None"
  using query_ids [of "has_id i" "doc p" n] element_of_None by (simp add: get_by_id_def)

lemmas handler_run = js_run with_element_run

lemma updateMoreDialogLinks_run:
  "updateMoreDialogLinks row p =
    (case get_by_id ''more-dialog-beatmap-link'' (doc p) of
       None \<Rightarrow> (Inl TypeError, p)
     | Some b \<Rightarrow>
         (let p1 = edit b (set_attr ''href'' (''?b='' @ js_string (attribute p row ''data-beatmapid''))) p
          in case get_by_id ''more-dialog-set-link'' (doc p) of
               None \<Rightarrow> (Inl TypeError, p1)
             | Some s \<Rightarrow> (Inr (),
                 edit s (set_attr ''href'' (''?s='' @ js_string (attribute p row ''data-beatmapsetid''))) p1)))"
  by (simp add: updateMoreDialogLinks_def handler_run Let_def split: option.split)

text \<open>The links of the more-dialog point to the beatmap and to the set of the row, and nothing else
  on the page changes.\<close>

lemma updateMoreDialogLinks_links:
  assumes "get_by_id ''more-dialog-beatmap-link'' (doc p) = Some b"
    and "get_by_id ''more-dialog-set-link'' (doc p) = Some s" and "s \<noteq> b"
  shows "\<exists>q. updateMoreDialogLinks row p = (Inr (), q)
    \<and> attribute q b ''href'' = Some (''?b='' @ js_string (attribute p row ''data-beatmapid''))
    \<and> attribute q s ''href'' = Some (''?s='' @ js_string (attribute p row ''data-beatmapsetid''))
    \<and> (\<forall>n. n \<noteq> b \<longrightarrow> n \<noteq> s \<longrightarrow> element_of (doc q) n = element_of (doc p) n)"
  using assms get_by_id_exists [OF assms(1)] get_by_id_exists [OF assms(2)]
  by (simp add: updateMoreDialogLinks_run Let_def attribute_set_attr element_of_update)

lemma updateEditDialog_run:
  "updateEditDialog row p =
    (case get_by_id ''edit-dialog-beatmapid'' (doc p) of
       None \<Rightarrow> (Inl TypeError, p)
     | Some b \<Rightarrow>
         (let p1 = edit b (set_value (attribute p row ''data-beatmapid'')) p
          in case get_by_id ''edit-dialog-mods'' (doc p) of
               None \<Rightarrow> (Inl TypeError, p1)
             | Some m \<Rightarrow>
                 (let p2 = edit m (set_value (attribute p row ''data-mods'')) p1
                  in case get_by_id ''edit-dialog-comment'' (doc p) of
                       None \<Rightarrow> (Inl TypeError, p2)
                     | Some c \<Rightarrow> (Inr (), edit c (set_value (Some (comment_text p row))) p2))))"
  by (simp add: updateEditDialog_def handler_run Let_def split: option.split)

definition input_value :: "page \<Rightarrow> nid \<Rightarrow> string option" where
  "input_value p n = map_option val (element_of (doc p) n)"

lemma input_value_edit:
  assumes "element_of (doc p) m \<noteq> None"
  shows "input_value (edit m (set_value v) p) n =
    (if n = m then Some (case v of None \<Rightarrow> [] | Some s \<Rightarrow> s) else input_value p n)"
  using assms by (auto simp: input_value_def element_of_update set_value_def)

text \<open>The edit dialog is filled with the beatmap, the mods and the trimmed comment of the row (empty
  where the row has none), and nothing else on the page changes.\<close>

lemma updateEditDialog_fills:
  assumes "get_by_id ''edit-dialog-beatmapid'' (doc p) = Some b"
    and "get_by_id ''edit-dialog-mods'' (doc p) = Some m"
    and "get_by_id ''edit-dialog-comment'' (doc p) = Some c" and "distinct [b, m, c]"
  shows "\<exists>q. updateEditDialog row p = (Inr (), q)
    \<and> input_value q b = Some (case attribute p row ''data-beatmapid'' of None \<Rightarrow> [] | Some s \<Rightarrow> s)
    \<and> input_value q m = Some (case attribute p row ''data-mods'' of None \<Rightarrow> [] | Some s \<Rightarrow> s)
    \<and> input_value q c = Some (comment_text p row)
    \<and> (\<forall>n. n \<notin> {b, m, c} \<longrightarrow> element_of (doc q) n = element_of (doc p) n)"
  using assms get_by_id_exists [OF assms(1)] get_by_id_exists [OF assms(2)] get_by_id_exists [OF assms(3)]
  by (simp add: updateEditDialog_run Let_def input_value_edit element_of_update)

text \<open>Clicking a row prepares the dialogs for it, and nothing else on the page: the links of the more-dialog
  point to the beatmap and to the set of the row, and the edit dialog is filled with its beatmap, its mods
  and its trimmed comment (empty where the row has none).\<close>

lemma row_dialogs_filled:
  shows "(get_by_id ''more-dialog-beatmap-link'' (doc p) = Some b
      \<and> get_by_id ''more-dialog-set-link'' (doc p) = Some s \<and> s \<noteq> b \<longrightarrow>
      (\<exists>q. updateMoreDialogLinks row p = (Inr (), q)
        \<and> attribute q b ''href'' = Some (''?b='' @ js_string (attribute p row ''data-beatmapid''))
        \<and> attribute q s ''href'' = Some (''?s='' @ js_string (attribute p row ''data-beatmapsetid''))
        \<and> (\<forall>n. n \<noteq> b \<longrightarrow> n \<noteq> s \<longrightarrow> element_of (doc q) n = element_of (doc p) n)))
    \<and> (get_by_id ''edit-dialog-beatmapid'' (doc p) = Some b' \<and> get_by_id ''edit-dialog-mods'' (doc p) = Some m
      \<and> get_by_id ''edit-dialog-comment'' (doc p) = Some c \<and> distinct [b', m, c] \<longrightarrow>
      (\<exists>q. updateEditDialog row p = (Inr (), q)
        \<and> input_value q b' = Some (case attribute p row ''data-beatmapid'' of None \<Rightarrow> [] | Some s \<Rightarrow> s)
        \<and> input_value q m = Some (case attribute p row ''data-mods'' of None \<Rightarrow> [] | Some s \<Rightarrow> s)
        \<and> input_value q c = Some (comment_text p row)
        \<and> (\<forall>n. n \<notin> {b', m, c} \<longrightarrow> element_of (doc q) n = element_of (doc p) n)))"
  using updateMoreDialogLinks_links [of p b s row] updateEditDialog_fills [of p b' m c row] by blast

section \<open>Opening a dialog\<close>

lemma positionRelativeTo_is_open [simp]:
  "is_open (positionRelativeTo b n ref gap p) m = is_open p m"
proof (cases "element_of (doc p) n")
  case (Some e)
  have "open_dialog (restyle t l x) = open_dialog x" for t l x
    by (simp add: restyle_def open_dialog_def has_attr_def set_style_def get_attr_def split: option.split)
  then show ?thesis
    by (auto simp: positionRelativeTo_restyle [OF Some] is_open_def element_of_update split: option.split)
qed (simp add: positionRelativeTo_def Let_def position_step_def attribute_def)

lemma positionRelativeTo_modal [simp]:
  "map_option modal (element_of (doc (positionRelativeTo b n ref gap p)) m) =
     map_option modal (element_of (doc p) m)"
proof (cases "element_of (doc p) n")
  case (Some e)
  have "modal (restyle t l x) = modal x" for t l x
    by (simp add: restyle_def set_style_def split: option.split)
  then show ?thesis
    by (simp add: positionRelativeTo_restyle [OF Some] element_of_update option.map_comp comp_def)
qed (simp add: positionRelativeTo_def Let_def position_step_def attribute_def)

lemma onClick_run:
  assumes "closest show_modal_button t (doc p) = Some btn"
    and "attribute p btn ''commandfor'' = Some i" and "i \<noteq> []" and "get_by_id i (doc p) = Some d"
    and "element_of (doc p) d = Some e" and "tag e = ''DIALOG''"
  shows "onClick b t p =
    (if \<not> is_open p d then
       (Inr (), positionRelativeTo b d btn None
          (edit d (\<lambda>e. (set_attr ''open'' [] e)\<lparr>modal := True\<rparr>) p))
     else if modal e then (Inr (), positionRelativeTo b d btn None p)
     else (Inl InvalidStateError, p))"
  using assms by (simp add: onClick_def js_run show_modal_def is_open_def open_dialog_def)

lemma opened:
  assumes "element_of (doc p) d = Some e" and "tag e = ''DIALOG''"
  defines "q \<equiv> edit d (\<lambda>e. (set_attr ''open'' [] e)\<lparr>modal := True\<rparr>) p"
  shows "is_open q n \<longleftrightarrow> n = d \<or> is_open p n" "map_option modal (element_of (doc q) d) = Some True"
  using assms(1,2)
  by (simp_all add: q_def is_open_def element_of_update open_dialog_def has_attr_def set_attr_def
      get_attr_def)

text \<open>The dialog on the page where it was just opened, if it was closed.\<close>

definition opened_page :: "page \<Rightarrow> nid \<Rightarrow> page" where
  "opened_page p d = (if is_open p d then p else edit d (\<lambda>e. (set_attr ''open'' [] e)\<lparr>modal := True\<rparr>) p)"

definition style_value :: "page \<Rightarrow> nid \<Rightarrow> string \<Rightarrow> css_value option" where
  "style_value p n s = (case element_of (doc p) n of None \<Rightarrow> None | Some e \<Rightarrow> map_of (style e) s)"

lemma opened_element:
  assumes "element_of (doc p) d = Some e"
  obtains e' where "element_of (doc (opened_page p d)) d = Some e'" "style e' = style e"
    "\<And>a. a \<noteq> ''open'' \<Longrightarrow> get_attr e' a = get_attr e a"
  using that assms
  by (cases "is_open p d") (simp_all add: opened_page_def element_of_update set_attr_def [of _ _ e] get_attr_def)

lemma new_edges_cong:
  assumes "\<And>a. a \<noteq> ''open'' \<Longrightarrow> get_attr e' a = get_attr e a"
  shows "new_top r h g e' = new_top r h g e" "new_left r w g e' = new_left r w g e"
proof -
  have "selected_edge r e' a = selected_edge r e a" if "a \<noteq> ''open''" for a
    using assms that by (simp add: selected_edge_def)
  then show "new_top r h g e' = new_top r h g e" "new_left r w g e' = new_left r w g e"
    by (simp_all add: new_top_def new_left_def cong: option.case_cong)
qed

lemma style_restyle:
  "map_of (style (restyle t l e)) ''top'' = (case t of None \<Rightarrow> map_of (style e) ''top'' | Some y \<Rightarrow> Some (Px y))"
  "map_of (style (restyle t l e)) ''left'' = (case l of None \<Rightarrow> map_of (style e) ''left'' | Some x \<Rightarrow> Some (Px x))"
  by (cases t; cases l; simp add: restyle_def set_style_def)+

text \<open>Where \<open>positionRelativeTo\<close> puts the opened dialog.\<close>

lemma dialog_moved:
  assumes "element_of (doc p) d = Some e"
    and "r = bounding_rect b (opened_page p d) btn" and "box = bounding_rect b (opened_page p d) d"
    and "q = positionRelativeTo b d btn None (opened_page p d)"
  shows "style_value q d ''top'' =
      (case new_top r (rect_height box) 0 e of None \<Rightarrow> style_value p d ''top'' | Some y \<Rightarrow> Some (Px y))
    \<and> style_value q d ''left'' =
      (case new_left r (rect_width box) 0 e of None \<Rightarrow> style_value p d ''left'' | Some x \<Rightarrow> Some (Px x))
    \<and> (\<forall>n. n \<noteq> d \<longrightarrow> element_of (doc q) n = element_of (doc p) n)"
proof -
  obtain e' where e': "element_of (doc (opened_page p d)) d = Some e'" "style e' = style e"
    "\<And>a. a \<noteq> ''open'' \<Longrightarrow> get_attr e' a = get_attr e a"
    using opened_element [OF assms(1)] by metis
  have q: "q = edit d (restyle (new_top r (rect_height box) 0 e) (new_left r (rect_width box) 0 e)) (opened_page p d)"
    unfolding assms(4) positionRelativeTo_restyle [OF e'(1)] assms(2,3)
    using new_edges_cong [of e' e, OF e'(3)] by simp
  have "element_of (doc (opened_page p d)) n = element_of (doc p) n" if "n \<noteq> d" for n
    using that by (simp add: opened_page_def element_of_update)
  then show ?thesis using assms(1) e'(1,2) unfolding q
    by (simp add: style_value_def element_of_update style_restyle cong: option.case_cong)
qed

text \<open>The dialogs of the site hang below their button, flush with its right edge.\<close>

definition hangs_below :: "element \<Rightarrow> bool" where
  "hangs_below e \<longleftrightarrow> get_attr e ''top'' = Some ''bottom'' \<and> get_attr e ''bottom'' = None
     \<and> get_attr e ''right'' = Some ''right''"

lemma hangs_below_edges:
  assumes "hangs_below e" and "rect_bottom r \<noteq> 0" and "rect_right r \<noteq> 0"
  shows "new_top r h 0 e = Some (rect_bottom r)" "new_left r w 0 e = Some (rect_right r - w)"
  using assms by (simp_all add: hangs_below_def new_top_def new_left_def selected_edge_def edges_def)


section \<open>A row of the table\<close>

text \<open>A row with its buttons, and the dialogs the server renders beside the table.\<close>

definition row_doc :: dnode where
  "row_doc =
     node 0 ''#document'' [] [node 1 ''HTML'' [] [node 2 ''BODY'' []
       [node 3 ''TR'' [(''data-beatmapid'', ''12''), (''data-beatmapsetid'', ''7'')]
         [node 4 ''TD'' [(''class'', ''comments'')] [Text '' nice map ''],
          node 5 ''BUTTON'' [(''command'', ''show-modal''), (''commandfor'', ''edit-dialog'')] [Text ''Edit'']],
        node 6 ''DIALOG'' [(''id'', ''edit-dialog''), (''top'', ''bottom''), (''right'', ''right'')]
         [node 7 ''INPUT'' [(''id'', ''edit-dialog-beatmapid'')] [],
          node 8 ''INPUT'' [(''id'', ''edit-dialog-mods'')] [],
          node 9 ''TEXTAREA'' [(''id'', ''edit-dialog-comment'')] []],
        node 10 ''DIALOG'' [(''id'', ''more-dialog'')]
         [node 11 ''A'' [(''id'', ''more-dialog-beatmap-link'')] [],
          node 12 ''A'' [(''id'', ''more-dialog-set-link'')] []]]]]"

definition row_page :: page where
  "row_page = \<lparr>doc = row_doc, body = 2, css = [], next_nid = 13, helpFiltersAutoOpened = False\<rparr>"

lemma row_ids:
  "get_by_id ''more-dialog-beatmap-link'' (doc row_page) = Some 11"
  "get_by_id ''more-dialog-set-link'' (doc row_page) = Some 12"
  "get_by_id ''edit-dialog-beatmapid'' (doc row_page) = Some 7"
  "get_by_id ''edit-dialog-mods'' (doc row_page) = Some 8"
  "get_by_id ''edit-dialog-comment'' (doc row_page) = Some 9"
  "get_by_id ''edit-dialog'' (doc row_page) = Some 6"
  by code_simp+

lemma row_values:
  "attribute row_page 3 ''data-beatmapid'' = Some ''12''" "attribute row_page 3 ''data-mods'' = None"
  "attribute row_page 3 ''data-beatmapsetid'' = Some ''7''" "comment_text row_page 3 = ''nice map''"
  by code_simp+

lemma row_dialogs_filled_witness:
  "(\<exists>q. updateMoreDialogLinks 3 row_page = (Inr (), q) \<and> attribute q 11 ''href'' = Some ''?b=12''
      \<and> attribute q 12 ''href'' = Some ''?s=7'')
    \<and> (\<exists>q. updateEditDialog 3 row_page = (Inr (), q) \<and> input_value q 7 = Some ''12''
      \<and> input_value q 8 = Some [] \<and> input_value q 9 = Some ''nice map'')"
  using row_dialogs_filled [of row_page 11 12 3 7 8 9] row_ids(1-5)
  by (auto simp: row_values js_string_def)

definition row_browser :: browser where
  "row_browser =
     \<lparr>bounding_rect = (\<lambda>p n. if n = 5 then \<lparr>rect_left = 100, rect_top = 30, rect_width = 40, rect_height = 20\<rparr>
        else \<lparr>rect_left = 0, rect_top = 0, rect_width = 90, rect_height = 60\<rparr>),
      offset_parent = (\<lambda>p n. True), computed_display = (\<lambda>p n. ''block'')\<rparr>"


end
