(* ===== verification/Welcome.thy ===== *)
theory Welcome
  imports Dom
begin

text \<open>
  \<open>showWelcomeIfNeeded\<close> of \<open>code.js\<close>: the welcome dialog opens unless a cookie says that this version
  of it was shown. The cookie jar holds name, value and expiry (in seconds) of each cookie; reading
  \<open>document.cookie\<close> renders the cookies that have not expired, and the script searches that string
  with a regular expression. \<open>now\<close> is the time in milliseconds.
\<close>

section \<open>The cookie jar\<close>

record cookie =
  cookie_name :: string
  cookie_value :: string
  cookie_expires :: "int option"

definition live :: "int \<Rightarrow> cookie \<Rightarrow> bool" where
  "live now c \<longleftrightarrow> (case cookie_expires c of None \<Rightarrow> True | Some t \<Rightarrow> now < t * 1000)"

definition cookie_pair :: "cookie \<Rightarrow> string" where
  "cookie_pair c = cookie_name c @ ''='' @ cookie_value c"

fun join_cookies :: "cookie list \<Rightarrow> string" where
  "join_cookies [] = []"
| "join_cookies [c] = cookie_pair c"
| "join_cookies (c # d # cs) = cookie_pair c @ ''; '' @ join_cookies (d # cs)"

definition document_cookie :: "int \<Rightarrow> cookie list \<Rightarrow> string" where
  "document_cookie now jar = join_cookies (filter (live now) jar)"

definition set_cookie :: "cookie \<Rightarrow> cookie list \<Rightarrow> cookie list" where
  "set_cookie c jar =
     (if cookie_name c \<in> cookie_name ` set jar
      then map (\<lambda>d. if cookie_name d = cookie_name c then c else d) jar
      else jar @ [c])"

section \<open>The regular expression\<close>

text \<open>\<open>(?:^|;\s*)welcomeDisplayed=([^;]*)\<close>. The name begins with no white space, so the greedy
  \<open>\s*\<close> never has to give a character back.\<close>

definition match_value :: "string \<Rightarrow> string option" where
  "match_value s =
     (if take 17 s = ''welcomeDisplayed='' then Some (takeWhile (\<lambda>c. c \<noteq> CHR '';'') (drop 17 s))
      else None)"

fun match_later :: "string \<Rightarrow> string option" where
  "match_later [] = None"
| "match_later (c # cs) =
     (if c = CHR '';''
      then (case match_value (dropWhile js_ws cs) of Some v \<Rightarrow> Some v | None \<Rightarrow> match_later cs)
      else match_later cs)"

definition match_cookie :: "string \<Rightarrow> string option" where
  "match_cookie s = (case match_value s of Some v \<Rightarrow> Some v | None \<Rightarrow> match_later s)"

section \<open>\<open>showWelcomeIfNeeded\<close>\<close>

type_synonym site = "page \<times> cookie list"

definition WELCOME_VERSION :: string where
  "WELCOME_VERSION = ''6''"

definition welcome_cookie :: "int \<Rightarrow> cookie" where
  "welcome_cookie now =
     \<lparr>cookie_name = ''welcomeDisplayed'', cookie_value = WELCOME_VERSION,
      cookie_expires = Some ((now + 365 * 86400 * 1000) div 1000)\<rparr>"

definition showWelcomeIfNeeded :: "int \<Rightarrow> (site, unit) js" where
  "showWelcomeIfNeeded now = (\<lambda>(p, jar).
     if match_cookie (document_cookie now jar) = Some WELCOME_VERSION then (Inr (), p, jar)
     else
       (case get_by_id ''welcome-dialog'' (doc p) of
          None \<Rightarrow> (Inr (), p, jar)
        | Some dialog \<Rightarrow>
            (case show_dialog dialog p of
               (Inl e, p') \<Rightarrow> (Inl e, p', jar)
             | (Inr _, p') \<Rightarrow> (Inr (), p', set_cookie (welcome_cookie now) jar))))"

section \<open>The expression finds the cookie\<close>

definition jar_ok :: "cookie list \<Rightarrow> bool" where
  "jar_ok jar \<longleftrightarrow> distinct (map cookie_name jar) \<and>
     (\<forall>c \<in> set jar. cookie_name c \<noteq> [] \<and> \<not> js_ws (hd (cookie_name c)) \<and>
        CHR ''='' \<notin> set (cookie_name c) \<and> CHR '';'' \<notin> set (cookie_name c) \<and>
        CHR '';'' \<notin> set (cookie_value c))"

definition jar_lookup :: "int \<Rightarrow> cookie list \<Rightarrow> string \<Rightarrow> string option" where
  "jar_lookup now jar n =
     map_of (map (\<lambda>c. (cookie_name c, cookie_value c)) (filter (live now) jar)) n"

lemma match_value_pair:
  assumes "CHR ''='' \<notin> set n" and "CHR '';'' \<notin> set v"
    and "rest = [] \<or> hd rest = CHR '';''"
  shows "match_value (n @ ''='' @ v @ rest) = (if n = ''welcomeDisplayed'' then Some v else None)"
proof -
  let ?s = "n @ ''='' @ v @ rest"
  have name: "takeWhile (\<lambda>c. c \<noteq> CHR ''='') ?s = n"
    using assms(1) by (simp add: takeWhile_append)
  have vl: "takeWhile (\<lambda>c. c \<noteq> CHR '';'') (v @ rest) = v"
    using assms(2,3) by (cases rest) (auto simp: takeWhile_append)
  show ?thesis
  proof (cases "take 17 ?s = ''welcomeDisplayed=''")
    case True
    then have "?s = ''welcomeDisplayed='' @ drop 17 ?s" by (metis append_take_drop_id)
    then have "n = takeWhile (\<lambda>c. c \<noteq> CHR ''='') (''welcomeDisplayed='' @ drop 17 ?s)"
      using name by simp
    then have n: "n = ''welcomeDisplayed''" by simp
    then show ?thesis using True vl by (simp add: match_value_def)
  next
    case False
    then have "n \<noteq> ''welcomeDisplayed''" by auto
    then show ?thesis using False by (simp add: match_value_def)
  qed
qed

lemma match_later_skip: "CHR '';'' \<notin> set xs \<Longrightarrow> match_later (xs @ ys) = match_later ys"
  by (induction xs) auto

lemma match_later_next:
  assumes "s \<noteq> []" and "\<not> js_ws (hd s)"
  shows "match_later (''; '' @ s) = match_cookie s"
  using assms by (cases s) (simp_all add: match_cookie_def js_ws_def split: option.split)

lemma match_cookie_join:
  assumes "jar_ok jar"
  shows "match_cookie (join_cookies jar) =
    map_of (map (\<lambda>c. (cookie_name c, cookie_value c)) jar) ''welcomeDisplayed''"
  using assms
proof (induction jar rule: join_cookies.induct)
  case 1
  then show ?case by (simp add: match_cookie_def match_value_def)
next
  case (2 c)
  then show ?case
    using match_value_pair [of "cookie_name c" "cookie_value c" "[]"]
      match_later_skip [of "cookie_pair c" "[]"]
    by (auto simp: match_cookie_def cookie_pair_def jar_ok_def)
next
  case (3 c d cs)
  let ?rest = "''; '' @ join_cookies (d # cs)"
  have c: "CHR ''='' \<notin> set (cookie_name c)" "CHR '';'' \<notin> set (cookie_value c)"
    "CHR '';'' \<notin> set (cookie_pair c)"
    and ok: "jar_ok (d # cs)" and d: "cookie_name d \<noteq> []" "\<not> js_ws (hd (cookie_name d))"
    using 3(2) by (auto simp: jar_ok_def cookie_pair_def)
  have hd: "join_cookies (d # cs) \<noteq> [] \<and> hd (join_cookies (d # cs)) = hd (cookie_name d)"
    using d(1) by (cases cs) (simp_all add: cookie_pair_def)
  have v: "match_value (cookie_pair c @ ?rest) =
      (if cookie_name c = ''welcomeDisplayed'' then Some (cookie_value c) else None)"
    using match_value_pair [OF c(1,2), of ?rest] by (simp add: cookie_pair_def)
  have l: "match_later (cookie_pair c @ ?rest) = match_cookie (join_cookies (d # cs))"
    unfolding match_later_skip [OF c(3)] by (rule match_later_next) (use hd d in auto)
  have "match_cookie (cookie_pair c @ ?rest) =
      (if cookie_name c = ''welcomeDisplayed'' then Some (cookie_value c)
       else match_cookie (join_cookies (d # cs)))"
    unfolding match_cookie_def [of "cookie_pair c @ ?rest"] v l by simp
  then show ?case using 3(1) [OF ok] by simp
qed

lemma jar_ok_filter: "jar_ok jar \<Longrightarrow> jar_ok (filter P jar)"
  by (simp add: jar_ok_def distinct_map_filter)

text \<open>C15. On every well-formed cookie jar the regular expression finds exactly the value of the cookie
  \<open>welcomeDisplayed\<close>, wherever it stands among the other cookies, and nothing when it is missing or
  has expired.\<close>

theorem welcome_match_lookup:
  assumes "jar_ok jar"
  shows "match_cookie (document_cookie now jar) = jar_lookup now jar ''welcomeDisplayed''"
  unfolding document_cookie_def jar_lookup_def
  by (rule match_cookie_join [OF jar_ok_filter [OF assms]])

section \<open>The dialog opens once until the cookie expires\<close>

lemma welcome_match:
  "jar_ok jar \<Longrightarrow> match_cookie (document_cookie now jar) = jar_lookup now jar ''welcomeDisplayed''"
  unfolding document_cookie_def jar_lookup_def by (rule match_cookie_join [OF jar_ok_filter])

lemma welcome_name [simp]:
  "cookie_name (welcome_cookie now) = ''welcomeDisplayed''"
  "cookie_value (welcome_cookie now) = WELCOME_VERSION"
  by (simp_all add: welcome_cookie_def)

lemma names_set_cookie:
  "map cookie_name (set_cookie c jar) =
    (if cookie_name c \<in> cookie_name ` set jar then map cookie_name jar
     else map cookie_name jar @ [cookie_name c])"
  by (simp add: set_cookie_def comp_def if_distrib cong: if_cong)

lemma set_set_cookie: "set (set_cookie c jar) \<subseteq> insert c (set jar)"
  by (auto simp: set_cookie_def)

lemma jar_ok_set:
  assumes "jar_ok jar" and "jar_ok [c]"
  shows "jar_ok (set_cookie c jar)"
proof -
  have "distinct (map cookie_name (set_cookie c jar))"
    using assms(1) by (auto simp: names_set_cookie jar_ok_def)
  then show ?thesis
    using assms set_set_cookie [of c jar] unfolding jar_ok_def by (simp, blast)
qed

lemma jar_ok_welcome [simp]: "jar_ok [welcome_cookie now]"
  by (simp add: jar_ok_def) (simp add: WELCOME_VERSION_def js_ws_def)

lemma lookup_set:
  assumes "jar_ok jar"
  shows "jar_lookup t (set_cookie c jar) (cookie_name c) =
    (if live t c then Some (cookie_value c) else None)"
proof (cases "cookie_name c \<in> cookie_name ` set jar")
  case True
  have "map_of (map (\<lambda>c. (cookie_name c, cookie_value c)) (filter (live t)
      (map (\<lambda>d. if cookie_name d = cookie_name c then c else d) jar))) (cookie_name c) =
      (if live t c \<and> cookie_name c \<in> cookie_name ` set jar then Some (cookie_value c) else None)"
    by (induction jar) auto
  then show ?thesis using True by (simp add: jar_lookup_def set_cookie_def)
next
  case False
  then have "map_of (map (\<lambda>c. (cookie_name c, cookie_value c)) (filter (live t) jar)) (cookie_name c) = None"
    by (auto simp: map_of_eq_None_iff)
  then show ?thesis using False by (simp add: jar_lookup_def set_cookie_def map_add_def)
qed

definition expiry :: "int \<Rightarrow> int" where
  "expiry now = (now + 365 * 86400 * 1000) div 1000 * 1000"

lemma live_welcome: "live t (welcome_cookie now) \<longleftrightarrow> t < expiry now"
  by (simp add: live_def welcome_cookie_def expiry_def)

lemma welcome_set_match:
  assumes "jar_ok jar"
  shows "match_cookie (document_cookie t (set_cookie (welcome_cookie now) jar)) =
    (if t < expiry now then Some WELCOME_VERSION else None)"
  using lookup_set [OF assms, of t "welcome_cookie now"]
  by (simp add: welcome_match [OF jar_ok_set [OF assms]] live_welcome)

text \<open>C16. A visit that has to show the welcome dialog opens it and stores the cookie; from then on the
  handler does nothing, on any page, until the cookie expires, which is within a second of 365 days
  after the visit; after that it asks for the dialog again.\<close>

theorem welcome_once:
  assumes "jar_ok jar" and "jar_lookup now jar ''welcomeDisplayed'' \<noteq> Some WELCOME_VERSION"
    and "get_by_id ''welcome-dialog'' (doc p) = Some d" and "show_dialog d p = (Inr (), p')"
    and "showWelcomeIfNeeded now (p, jar) = (r, q, jar')"
  shows "r = Inr () \<and> q = p' \<and> jar_ok jar'
    \<and> (\<forall>t p. t < expiry now \<longrightarrow> showWelcomeIfNeeded t (p, jar') = (Inr (), p, jar'))
    \<and> (\<forall>t. expiry now \<le> t \<longrightarrow> jar_lookup t jar' ''welcomeDisplayed'' = None)
    \<and> now + 365 * 86400 * 1000 - 1000 < expiry now \<and> expiry now \<le> now + 365 * 86400 * 1000"
proof -
  have j: "jar' = set_cookie (welcome_cookie now) jar" "r = Inr ()" "q = p'"
    using assms(2,5) by (auto simp: showWelcomeIfNeeded_def welcome_match [OF assms(1)] assms(3,4))
  have "jar_ok jar'" using jar_ok_set [OF assms(1)] by (simp add: j)
  moreover have "showWelcomeIfNeeded t (p, jar') = (Inr (), p, jar')" if "t < expiry now" for t p
    using that by (simp add: showWelcomeIfNeeded_def j welcome_set_match [OF assms(1)])
  moreover have "jar_lookup t jar' ''welcomeDisplayed'' = None" if "expiry now \<le> t" for t
    using that lookup_set [OF assms(1), of t "welcome_cookie now"] by (simp add: j live_welcome)
  moreover have "now + 365 * 86400 * 1000 - 1000 < expiry now" "expiry now \<le> now + 365 * 86400 * 1000"
    by (simp_all add: expiry_def)
  ultimately show ?thesis using j by blast
qed

definition sample_jar :: "cookie list" where
  "sample_jar = [\<lparr>cookie_name = ''session'', cookie_value = ''abc'', cookie_expires = None\<rparr>,
     \<lparr>cookie_name = ''welcomeDisplayed'', cookie_value = ''5'', cookie_expires = Some 99\<rparr>]"

definition welcome_page :: page where
  "welcome_page = \<lparr>doc = node 0 ''#document'' [] [node 1 ''HTML'' [] [node 2 ''BODY'' []
       [node 3 ''DIALOG'' [(''id'', ''welcome-dialog'')] []]]],
     body = 2, css = [], next_nid = 4, helpFiltersAutoOpened = False\<rparr>"

lemma sample_jar_ok: "jar_ok sample_jar"
  by code_simp

lemma welcome_match_lookup_witness:
  "match_cookie ''session=abc; welcomeDisplayed=5'' = Some ''5''"
proof -
  have "document_cookie 500 sample_jar = ''session=abc; welcomeDisplayed=5''"
    "jar_lookup 500 sample_jar ''welcomeDisplayed'' = Some ''5''"
    by code_simp+
  then show ?thesis using welcome_match_lookup [OF sample_jar_ok, of 500] by simp
qed

lemma welcome_once_witness:
  "fst (showWelcomeIfNeeded 500 (welcome_page, sample_jar)) = Inr ()
   \<and> (\<forall>p. showWelcomeIfNeeded 31535999999 (p, snd (snd (showWelcomeIfNeeded 500 (welcome_page, sample_jar)))) =
        (Inr (), p, snd (snd (showWelcomeIfNeeded 500 (welcome_page, sample_jar)))))"
proof -
  have c: "jar_lookup 500 sample_jar ''welcomeDisplayed'' \<noteq> Some WELCOME_VERSION"
    "get_by_id ''welcome-dialog'' (doc welcome_page) = Some 3"
    "fst (show_dialog 3 welcome_page) = Inr ()" "(31535999999::int) < expiry 500"
    by code_simp+
  then have s: "show_dialog 3 welcome_page = (Inr (), snd (show_dialog 3 welcome_page))"
    by (metis prod.collapse)
  show ?thesis
    using welcome_once [OF sample_jar_ok c(1,2) s, of "fst (showWelcomeIfNeeded 500 (welcome_page, sample_jar))"
        "fst (snd (showWelcomeIfNeeded 500 (welcome_page, sample_jar)))"
        "snd (snd (showWelcomeIfNeeded 500 (welcome_page, sample_jar)))"] c(4)
    by simp
qed

end
