(* ===== verification/Site.thy ===== *)
theory Site
  imports Help_Correct Dialogs Welcome
begin

text \<open>
  The page as a machine: every handler of \<open>code.js\<close> that changes the document, in any order and any
  number of times. The handlers share the document and the flag of the forced filter row; this theory
  shows that together they keep the document well formed (identifiers unique, new ones fresh) and
  force the filter row open only while help is on display.
\<close>

inductive site_step :: "browser \<Rightarrow> page \<Rightarrow> page \<Rightarrow> bool" for b where
  show_help: "site_step b p (showHelp b p)"
| click: "site_step b p (outsideClick t p)"
| command: "onClick b t p = (r, q) \<Longrightarrow> site_step b p q"
| more_links: "updateMoreDialogLinks row p = (r, q) \<Longrightarrow> site_step b p q"
| fill_edit: "updateEditDialog row p = (r, q) \<Longrightarrow> site_step b p q"
| show_welcome: "showWelcomeIfNeeded now (p, jar) = (r, q, jar') \<Longrightarrow> site_step b p q"

inductive_cases site_stepE: "site_step b p q"

definition site_start :: "page \<Rightarrow> bool" where
  "site_start p \<longleftrightarrow> page_wf p \<and> \<not> helpFiltersAutoOpened p"

definition site_good :: "page \<Rightarrow> bool" where
  "site_good p \<longleftrightarrow> page_wf p \<and> (helpFiltersAutoOpened p \<longrightarrow> popup_texts p \<noteq> {#})"

section \<open>Cosmetic edits keep a good page good\<close>

named_theorems site_edits \<open>handlers that only edit elements\<close>

lemma cosmetic_help: "cosmetic f \<Longrightarrow> help_element (f e) = help_element e"
  by (simp add: cosmetic_def help_element_def)

lemma flag_edit [simp]: "helpFiltersAutoOpened (edit n f p) = helpFiltersAutoOpened p"
  by (simp add: edit_def)

lemma good_edit [site_edits]: "cosmetic f \<Longrightarrow> site_good p \<Longrightarrow> site_good (edit n f p)"
  by (simp add: site_good_def wf_edit cosmetic_help counts_edit)

lemma cosmetic_set_value [intro]: "cosmetic (set_value v)"
  by (simp add: cosmetic_def set_value_def has_class_def get_attr_def)

lemma cosmetic_set_attr: "a \<noteq> ''class'' \<Longrightarrow> cosmetic (set_attr a v)"
  by (simp add: cosmetic_def)

lemma cosmetic_open: "cosmetic (\<lambda>e. (set_attr ''open'' [] e)\<lparr>modal := True\<rparr>)"
  by (simp add: cosmetic_def has_class_def get_attr_def set_attr_def)

lemma good_position [site_edits]: "site_good p \<Longrightarrow> site_good (positionRelativeTo b n ref gap p)"
proof (cases "element_of (doc p) n")
  case (Some e)
  then show "site_good p \<Longrightarrow> ?thesis"
    by (auto simp: positionRelativeTo_restyle intro: good_edit)
qed (simp add: positionRelativeTo_absent)

lemma good_show_modal [site_edits]:
  assumes "show_modal d p = (r, q)" and "site_good p"
  shows "site_good q"
  using assms good_edit [OF cosmetic_open]
  by (auto simp: show_modal_def split: option.splits if_splits)

lemma good_show_dialog [site_edits]:
  assumes "show_dialog d p = (r, q)" and "site_good p"
  shows "site_good q"
  using assms good_edit [OF cosmetic_set_attr [of "''open''" "[]"]]
  by (auto simp: show_dialog_def split: option.splits if_splits)

lemma good_more [site_edits]:
  assumes "updateMoreDialogLinks row p = (r, q)" and "site_good p"
  shows "site_good q"
  using assms by (auto simp: updateMoreDialogLinks_run Let_def split: option.splits
      intro!: good_edit cosmetic_set_attr)

lemma good_update_edit [site_edits]:
  assumes "updateEditDialog row p = (r, q)" and "site_good p"
  shows "site_good q"
  using assms by (auto simp: updateEditDialog_run Let_def split: option.splits intro!: good_edit)

lemma good_command [site_edits]:
  assumes "onClick b t p = (r, q)" and "site_good p"
  shows "site_good q"
proof (cases "\<exists>btn i d. closest show_modal_button t (doc p) = Some btn
    \<and> attribute p btn ''commandfor'' = Some i \<and> i \<noteq> [] \<and> get_by_id i (doc p) = Some d")
  case True
  then obtain btn d where *: "onClick b t p =
      js_bind (show_modal d) (\<lambda>_. js_modify (positionRelativeTo b d btn None)) p"
    by (auto simp: onClick_def)
  obtain r' q' where s: "show_modal d p = (r', q')" by (cases "show_modal d p")
  have "site_good q'" by (rule good_show_modal [OF s assms(2)])
  then show ?thesis
    using assms(1) s good_position [of q' b d btn None]
    by (auto simp: * js_run split: sum.splits)
qed (use assms in \<open>auto simp: onClick_def split: option.splits if_splits\<close>)

lemma good_welcome [site_edits]:
  assumes "showWelcomeIfNeeded now (p, jar) = (r, q, jar')" and "site_good p"
  shows "site_good q"
  using assms good_show_dialog
  by (auto simp: showWelcomeIfNeeded_def split: if_splits option.splits prod.splits sum.splits)

section \<open>The help keeps a good page good\<close>

lemma good_closed: "page_wf p \<Longrightarrow> site_good (closeAllHelp p)"
  by (simp add: site_good_def wf_closeAllHelp closeAllHelp_rest)

lemma good_showHelp: "site_good p \<Longrightarrow> site_good (showHelp b p)"
  using flag_popup [of b p] by (simp add: site_good_def wf_showHelp)

lemma cosmetic_close: "cosmetic close_element"
  by (simp add: cosmetic_def) (simp add: close_element_def remove_attr_def)

lemma good_close_settings: "site_good p \<Longrightarrow> site_good (close_settings p)"
  by (auto simp: close_settings_def close_dialog_def intro: good_edit cosmetic_close split: option.split)

lemma good_outsideClick: "site_good p \<Longrightarrow> site_good (outsideClick t p)"
  using good_closed [of p] good_closed [OF wf_close_dialog [of p]] good_close_settings
  by (auto simp: outsideClick_def site_good_def [of p] split: option.split)

interpretation site: invariant_machine site_start "site_step b" site_good
proof unfold_locales
  show "site_good p" if "site_start p" for p
    using that by (simp add: site_start_def site_good_def)
  show "site_good q" if "site_good p" "site_step b p q" for p q
    by (rule site_stepE [OF that(2)])
      (use that(1) in \<open>auto intro: good_showHelp good_outsideClick site_edits\<close>)
qed

text \<open>C20. Whatever the user does and in whatever order (help, clicks, dialogs, welcome), the document
  stays well formed, and the filter row is marked as forced open only while a help popup is shown.\<close>

theorem site_invariant:
  assumes "page_wf p" and "\<not> helpFiltersAutoOpened p" and "(site_step b)\<^sup>*\<^sup>* p q"
  shows "page_wf q \<and> (helpFiltersAutoOpened q \<longrightarrow> popup_texts q \<noteq> {#})"
  using site.reachable_good [of p b q] assms by (simp add: site_start_def site_good_def)

lemma site_invariant_witness:
  "page_wf (outsideClick (Some 2) (showHelp sample_browser sample_page))"
proof -
  have "(site_step sample_browser)\<^sup>*\<^sup>* sample_page (outsideClick (Some 2) (showHelp sample_browser sample_page))"
    by (meson converse_rtranclp_into_rtranclp rtranclp.rtrancl_refl site_step.show_help site_step.click)
  moreover have "\<not> helpFiltersAutoOpened sample_page" by (simp add: sample_page_def)
  ultimately show ?thesis using site_invariant [OF sample_wf] by blast
qed

end
