(* ===== verification/Countdown.thy ===== *)
theory Countdown
  imports Dom
begin

text \<open>
  \<open>startCountdown\<close> of \<open>code.js\<close>: after the settings were saved, the dialog counts down the seconds and
  then runs a callback (the page reloads it), unless the dialog is closed before.

  The state holds the page, the intervals the browser runs (each with what its closure captured), the
  handle the next interval gets (handles are positive), the script's variable \<open>_countdownInterval\<close>,
  and a log of the callbacks that ran. The callback itself is a label.
\<close>

section \<open>The state\<close>

record closure =
  remaining :: int
  resultEl :: nid
  dialogEl :: "nid option"
  onComplete :: nat

record timers =
  page :: page
  intervals :: "(nat \<times> closure) list"
  next_handle :: nat
  countdownInterval :: "nat option"
  completed :: "nat list"

text \<open>Assigning \<open>textContent\<close> replaces the children by one text.\<close>

fun set_text :: "nid \<Rightarrow> string \<Rightarrow> dnode \<Rightarrow> dnode" where
  "set_text n s (Text t) = Text t"
| "set_text n s (Elem m e cs) = Elem m e (if m = n then [Text s] else map (set_text n s) cs)"

definition write_text :: "nid \<Rightarrow> string \<Rightarrow> timers \<Rightarrow> timers" where
  "write_text n t s = s\<lparr>page := (page s)\<lparr>doc := set_text n t (doc (page s))\<rparr>\<rparr>"

definition reload_text :: "int \<Rightarrow> string" where
  "reload_text n = ''Reloading in '' @ show_int n @ ''s...''"

text \<open>\<open>clearInterval\<close>; clearing \<open>null\<close> does nothing.\<close>

definition clearInterval :: "nat option \<Rightarrow> timers \<Rightarrow> timers" where
  "clearInterval h s =
     (case h of None \<Rightarrow> s | Some i \<Rightarrow> s\<lparr>intervals := filter (\<lambda>(j, c). j \<noteq> i) (intervals s)\<rparr>)"

definition setInterval :: "closure \<Rightarrow> timers \<Rightarrow> timers" where
  "setInterval c s = s\<lparr>intervals := intervals s @ [(next_handle s, c)],
     next_handle := next_handle s + 1, countdownInterval := Some (next_handle s)\<rparr>"

section \<open>\<open>startCountdown\<close> and its ticks\<close>

definition startCountdown :: "int \<Rightarrow> nat \<Rightarrow> (timers, unit) js" where
  "startCountdown seconds label = (\<lambda>s.
     let s1 = clearInterval (countdownInterval s) s
     in case get_by_id ''settings-save-result'' (doc (page s1)) of
          None \<Rightarrow> (Inl TypeError, s1)
        | Some r \<Rightarrow>
            let d = get_by_id ''settings-modal'' (doc (page s1));
                s2 = write_text r (reload_text seconds) s1
            in (Inr (), setInterval
                  \<lparr>remaining = seconds, resultEl = r, dialogEl = d, onComplete = label\<rparr> s2))"

definition stop :: "timers \<Rightarrow> timers" where
  "stop s = (clearInterval (countdownInterval s) s)\<lparr>countdownInterval := None\<rparr>"

definition set_remaining :: "nat \<Rightarrow> int \<Rightarrow> timers \<Rightarrow> timers" where
  "set_remaining h r s = s\<lparr>intervals :=
     map (\<lambda>(j, c). (j, if j = h then c\<lparr>remaining := r\<rparr> else c)) (intervals s)\<rparr>"

definition tick :: "nat \<Rightarrow> timers \<Rightarrow> timers" where
  "tick h s =
     (case map_of (intervals s) h of
        None \<Rightarrow> s
      | Some c \<Rightarrow>
          if (case dialogEl c of None \<Rightarrow> False | Some d \<Rightarrow> \<not> is_open (page s) d) then stop s
          else
            let r = remaining c - 1;
                s1 = set_remaining h r s
            in if r \<le> 0 then (stop s1)\<lparr>completed := completed s1 @ [onComplete c]\<rparr>
               else write_text (resultEl c) (reload_text r) s1)"

text \<open>Everything that can happen: a start, a tick of a running interval, and any change that the rest
  of the page makes to the document.\<close>

inductive countdown_step :: "timers \<Rightarrow> timers \<Rightarrow> bool" where
  start: "startCountdown n l s = (r, t) \<Longrightarrow> countdown_step s t"
| tick: "h \<in> fst ` set (intervals s) \<Longrightarrow> countdown_step s (tick h s)"
| page: "countdown_step s (s\<lparr>page := p\<rparr>)"

definition idle :: "timers \<Rightarrow> bool" where
  "idle s \<longleftrightarrow> intervals s = [] \<and> countdownInterval s = None \<and> 0 < next_handle s"

section \<open>Never two countdowns\<close>

text \<open>At most one interval runs, and it is the one the script knows and can clear.\<close>

definition one_countdown :: "timers \<Rightarrow> bool" where
  "one_countdown s \<longleftrightarrow> length (intervals s) \<le> 1
     \<and> (\<forall>h \<in> fst ` set (intervals s). countdownInterval s = Some h)
     \<and> (\<forall>h. countdownInterval s = Some h \<longrightarrow> 0 < h \<and> h < next_handle s) \<and> 0 < next_handle s"

lemma clear_all: "one_countdown s \<Longrightarrow> intervals (clearInterval (countdownInterval s) s) = []"
  by (cases "intervals s") (auto simp: one_countdown_def clearInterval_def filter_empty_conv split: option.split)

lemma clear_rest [simp]:
  "countdownInterval (clearInterval h s) = countdownInterval s"
  "next_handle (clearInterval h s) = next_handle s" "page (clearInterval h s) = page s"
  "completed (clearInterval h s) = completed s"
  by (simp_all add: clearInterval_def split: option.split)

lemma stop_simps:
  assumes "one_countdown s"
  shows "intervals (stop s) = []" "countdownInterval (stop s) = None" "page (stop s) = page s"
    "next_handle (stop s) = next_handle s" "completed (stop s) = completed s"
  using clear_all [OF assms] by (simp_all add: stop_def)

lemma one_start:
  assumes "one_countdown s" and "startCountdown n l s = (r, t)"
  shows "one_countdown t"
  using assms(2) clear_all [OF assms(1)] assms(1)
  by (auto simp: startCountdown_def Let_def setInterval_def write_text_def one_countdown_def
      less_Suc_eq split: option.splits)

lemma one_set_remaining: "one_countdown s \<Longrightarrow> one_countdown (set_remaining h r s)"
  by (auto simp: one_countdown_def set_remaining_def)

lemma one_stop: "one_countdown s \<Longrightarrow> one_countdown (stop s)"
  by (simp add: one_countdown_def [of "stop s"] stop_simps) (simp add: one_countdown_def)

lemma one_tick:
  assumes "one_countdown s"
  shows "one_countdown (tick h s)"
proof -
  have c: "one_countdown (s'\<lparr>completed := x\<rparr>) = one_countdown s'" for s' x
    by (simp add: one_countdown_def)
  have w: "one_countdown (write_text n x s') = one_countdown s'" for s' x n
    by (simp add: one_countdown_def write_text_def)
  show ?thesis
    using assms by (simp add: tick_def Let_def c w one_set_remaining one_stop split: option.split)
qed

interpretation countdown: invariant_machine idle countdown_step one_countdown
proof unfold_locales
  show "one_countdown s" if "idle s" for s
    using that by (simp add: idle_def one_countdown_def)
  fix s t
  assume s: "one_countdown s" and step: "countdown_step s t"
  from step show "one_countdown t"
  proof (cases rule: countdown_step.cases)
    case (page p)
    then show ?thesis using s by (simp add: one_countdown_def)
  qed (use s in \<open>auto intro: one_start one_tick\<close>)
qed

text \<open>C17. However often the settings are saved and whatever happens to the page meanwhile, at most one
  countdown runs at any time, and it is the one the script has a handle on.\<close>

theorem at_most_one_countdown:
  assumes "idle s" and "countdown_step\<^sup>*\<^sup>* s t"
  shows "length (intervals t) \<le> 1 \<and> (\<forall>h \<in> fst ` set (intervals t). countdownInterval t = Some h)"
  using countdown.reachable_good [OF assms] by (simp add: one_countdown_def)

section \<open>The countdown runs to its end\<close>

text \<open>The identifiers strictly below an element.\<close>

fun below_ids :: "nid \<Rightarrow> dnode \<Rightarrow> nid set" where
  "below_ids n (Text s) = {}"
| "below_ids n (Elem m e cs) =
     (if m = n then \<Union>c \<in> set cs. set (ids c) else \<Union>c \<in> set cs. below_ids n c)"

lemma map_of_concat_cong:
  "(\<And>x. x \<in> set xs \<Longrightarrow> map_of (f x) m = map_of (g x) m) \<Longrightarrow>
     map_of (concat (map f xs)) m = map_of (concat (map g xs)) m"
  by (induction xs) (simp_all add: map_add_def split: option.split)

lemma element_of_set_text:
  "m \<notin> below_ids n d \<Longrightarrow> element_of (set_text n s d) m = element_of d m"
  unfolding element_of_def
proof (induction d)
  case (Elem k e cs)
  show ?case
  proof (cases "k = n")
    case True
    then have "map_of (concat (map elements cs)) m = None"
      using Elem.prems by (force simp: map_of_eq_None_iff)
    then show ?thesis using True by simp
  next
    case False
    have "map_of (concat (map (elements \<circ> set_text n s) cs)) m = map_of (concat (map elements cs)) m"
      by (rule map_of_concat_cong) (use Elem False in auto)
    then show ?thesis using False by simp
  qed
qed simp

lemma below_set_text: "m \<notin> below_ids n d \<Longrightarrow> m \<notin> below_ids n (set_text n s d)"
  by (induction d) (auto split: if_splits)

text \<open>What a running countdown looks like after some of its seconds: \<open>r\<close> remain.\<close>

definition counting :: "nat \<Rightarrow> int \<Rightarrow> nid \<Rightarrow> nid option \<Rightarrow> nat \<Rightarrow> timers \<Rightarrow> bool" where
  "counting h r el d l s \<longleftrightarrow>
     intervals s = [(h, \<lparr>remaining = r, resultEl = el, dialogEl = d, onComplete = l\<rparr>)]
     \<and> countdownInterval s = Some h
     \<and> (\<forall>m. d = Some m \<longrightarrow> is_open (page s) m \<and> m \<notin> below_ids el (doc (page s)))"

lemma is_open_write:
  "m \<notin> below_ids el (doc (page s)) \<Longrightarrow> is_open (page (write_text el t s)) m = is_open (page s) m"
  by (simp add: is_open_def write_text_def element_of_set_text)

lemma tick_counting:
  assumes "counting h r el d l s" and "1 < r"
  shows "counting h (r - 1) el d l (tick h s)" "completed (tick h s) = completed s"
    "tick h s = write_text el (reload_text (r - 1)) (set_remaining h (r - 1) s)"
proof -
  have t: "tick h s = write_text el (reload_text (r - 1)) (set_remaining h (r - 1) s)"
    using assms by (auto simp: tick_def Let_def counting_def split: option.splits)
  show "tick h s = write_text el (reload_text (r - 1)) (set_remaining h (r - 1) s)" by (rule t)
  show "completed (tick h s) = completed s"
    by (simp add: t write_text_def set_remaining_def)
  have p: "page (set_remaining h (r - 1) s) = page s" by (simp add: set_remaining_def)
  show "counting h (r - 1) el d l (tick h s)"
    using assms(1) unfolding counting_def t
    by (auto simp: is_open_write p) (auto simp: write_text_def set_remaining_def below_set_text)
qed

lemma tick_last:
  assumes "counting h r el d l s" and "r \<le> 1"
  shows "completed (tick h s) = completed s @ [l]" "intervals (tick h s) = []"
    "countdownInterval (tick h s) = None"
  using assms by (auto simp: tick_def Let_def counting_def stop_def clearInterval_def
      set_remaining_def split: option.splits)

lemma ticks_counting:
  assumes "counting h r el d l s" and "int k < max 1 r"
  shows "counting h (r - int k) el d l ((tick h ^^ k) s) \<and> completed ((tick h ^^ k) s) = completed s"
  using assms(2)
proof (induction k)
  case 0
  then show ?case using assms(1) by simp
next
  case (Suc k)
  then have "counting h (r - int k) el d l ((tick h ^^ k) s)" "completed ((tick h ^^ k) s) = completed s"
    "1 < r - int k" by auto
  then show ?case using tick_counting [of h "r - int k" el d l "(tick h ^^ k) s"]
    by (simp add: algebra_simps)
qed

lemma start_counting:
  assumes "one_countdown s" and "get_by_id ''settings-save-result'' (doc (page s)) = Some el"
    and "d = get_by_id ''settings-modal'' (doc (page s))"
    and "\<And>m. d = Some m \<Longrightarrow> is_open (page s) m \<and> m \<notin> below_ids el (doc (page s))"
  shows "\<exists>t. startCountdown n l s = (Inr (), t) \<and> counting (next_handle s) n el d l t
    \<and> completed t = completed s
    \<and> page t = (page s)\<lparr>doc := set_text el (reload_text n) (doc (page s))\<rparr>"
proof -
  let ?s1 = "clearInterval (countdownInterval s) s"
  let ?t = "setInterval \<lparr>remaining = n, resultEl = el, dialogEl = d, onComplete = l\<rparr>
    (write_text el (reload_text n) ?s1)"
  have "is_open (page (write_text el (reload_text n) ?s1)) m" if "d = Some m" for m
    using assms(4) [OF that] is_open_write [of m el ?s1] by simp
  then have "counting (next_handle s) n el d l ?t"
    using assms(4) clear_all [OF assms(1)]
    by (auto simp: counting_def setInterval_def below_set_text) (auto simp: write_text_def below_set_text)
  moreover have "startCountdown n l s = (Inr (), ?t)"
    using assms(2,3) by (simp add: startCountdown_def Let_def)
  ultimately show ?thesis by (auto simp: setInterval_def write_text_def)
qed

text \<open>C18. A countdown of \<open>n\<close> seconds runs its callback exactly once, at the \<open>n\<close>-th tick (the first tick
  when \<open>n\<close> is not positive) and not before, if the dialog stays open; then no interval is left.\<close>

theorem countdown_completes:
  assumes "idle s0" and "countdown_step\<^sup>*\<^sup>* s0 s"
    and "get_by_id ''settings-save-result'' (doc (page s)) = Some el"
    and "\<And>m. get_by_id ''settings-modal'' (doc (page s)) = Some m \<Longrightarrow>
      is_open (page s) m \<and> m \<notin> below_ids el (doc (page s))"
  shows "\<exists>t. startCountdown n l s = (Inr (), t)
    \<and> (\<forall>k. int k < max 1 n \<longrightarrow> completed ((tick (next_handle s) ^^ k) t) = completed s)
    \<and> completed ((tick (next_handle s) ^^ nat (max 1 n)) t) = completed s @ [l]
    \<and> intervals ((tick (next_handle s) ^^ nat (max 1 n)) t) = []"
proof -
  have one: "one_countdown s" by (rule countdown.reachable_good [OF assms(1,2)])
  let ?d = "get_by_id ''settings-modal'' (doc (page s))"
  obtain t where t: "startCountdown n l s = (Inr (), t)" "counting (next_handle s) n el ?d l t"
    "completed t = completed s"
    using start_counting [OF one assms(3) refl assms(4), of n l] by blast
  note ticks = ticks_counting [OF t(2)]
  obtain k where k: "nat (max 1 n) = Suc k" by (cases "nat (max 1 n)") auto
  have "int k < max 1 n" "n - int k \<le> 1" using k by auto
  then have "completed ((tick (next_handle s) ^^ Suc k) t) = completed s @ [l]"
    "intervals ((tick (next_handle s) ^^ Suc k) t) = []"
    using ticks [of k] tick_last [of "next_handle s" "n - int k" el ?d l] t(3) by auto
  then show ?thesis using t(1,3) ticks k by auto
qed

text \<open>C19. Closing the dialog cancels its countdown: the next tick ends it without running the callback
  and frees the handle; and starting another countdown ends the one before it.\<close>

theorem countdown_cancelled:
  assumes "idle s0" and "countdown_step\<^sup>*\<^sup>* s0 s" and "map_of (intervals s) h = Some c"
  shows "(\<forall>d. dialogEl c = Some d \<longrightarrow> \<not> is_open (page s) d \<longrightarrow>
       intervals (tick h s) = [] \<and> countdownInterval (tick h s) = None \<and>
       completed (tick h s) = completed s)
    \<and> (\<forall>n l r t. startCountdown n l s = (r, t) \<longrightarrow>
       map_of (intervals t) h = None \<and> completed t = completed s)"
proof -
  have one: "one_countdown s" by (rule countdown.reachable_good [OF assms(1,2)])
  have h: "(h, c) \<in> set (intervals s)" using assms(3) by (rule map_of_SomeD)
  then have i: "countdownInterval s = Some h" "h < next_handle s"
    using one by (force simp: one_countdown_def)+
  have start: "map_of (intervals t) h = None \<and> completed t = completed s"
    if "startCountdown n l s = (r, t)" for n l r t
    using that i clear_all [OF one]
    by (auto simp: startCountdown_def Let_def setInterval_def write_text_def split: option.splits)
  have "intervals (tick h s) = [] \<and> countdownInterval (tick h s) = None \<and> completed (tick h s) = completed s"
    if "dialogEl c = Some d" "\<not> is_open (page s) d" for d
    using that assms(3) stop_simps [OF one] by (simp add: tick_def)
  then show ?thesis using start by blast
qed

section \<open>A run\<close>

definition settings_page :: "bool \<Rightarrow> page" where
  "settings_page opened = \<lparr>doc = node 0 ''#document'' [] [node 1 ''HTML'' [] [node 2 ''BODY'' []
       [node 3 ''DIALOG'' ((''id'', ''settings-modal'') # (if opened then [(''open'', [])] else []))
         [node 4 ''P'' [(''id'', ''settings-save-result'')] []]]]],
     body = 2, css = [], next_nid = 5, helpFiltersAutoOpened = False\<rparr>"

definition idle_timers :: timers where
  "idle_timers = \<lparr>page = settings_page True, intervals = [], next_handle = 1,
     countdownInterval = None, completed = []\<rparr>"

definition closed_timers :: timers where
  "closed_timers = (snd (startCountdown 5 0 idle_timers))\<lparr>page := settings_page False\<rparr>"

lemma idle_timers_idle: "idle idle_timers"
  by (simp add: idle_def idle_timers_def)

lemma started: "countdown_step\<^sup>*\<^sup>* idle_timers (snd (startCountdown 5 0 idle_timers))"
  by (rule r_into_rtranclp, rule countdown_step.start [OF prod.collapse [symmetric]])

lemma closed_reachable: "countdown_step\<^sup>*\<^sup>* idle_timers closed_timers"
  using started unfolding closed_timers_def by (rule rtranclp.rtrancl_into_rtrancl) (rule countdown_step.page)

lemma at_most_one_countdown_witness:
  "length (intervals closed_timers) \<le> 1"
  using at_most_one_countdown [OF idle_timers_idle closed_reachable] by simp

lemma countdown_completes_witness:
  "\<exists>t. startCountdown 5 0 idle_timers = (Inr (), t) \<and> completed ((tick 1 ^^ 4) t) = []
     \<and> completed ((tick 1 ^^ 5) t) = [0]"
proof -
  have r: "get_by_id ''settings-save-result'' (doc (page idle_timers)) = Some 4"
    "get_by_id ''settings-modal'' (doc (page idle_timers)) = Some 3"
    "is_open (page idle_timers) 3" "3 \<notin> below_ids 4 (doc (page idle_timers))"
    "next_handle idle_timers = 1" "completed idle_timers = []"
    by code_simp+
  obtain t where t: "startCountdown 5 0 idle_timers = (Inr (), t)"
    "\<forall>k. int k < max 1 5 \<longrightarrow> completed ((tick (next_handle idle_timers) ^^ k) t) = completed idle_timers"
    "completed ((tick (next_handle idle_timers) ^^ nat (max 1 5)) t) = completed idle_timers @ [0]"
    using countdown_completes [OF idle_timers_idle rtranclp.rtrancl_refl r(1), of 5 0] r(2-4) by auto
  have "completed ((tick 1 ^^ 4) t) = []" using t(2) [rule_format, of 4] r(5,6) by simp
  moreover have "completed ((tick 1 ^^ 5) t) = [0]" using t(3) r(5,6) by simp
  ultimately show ?thesis using t(1) by blast
qed

lemma countdown_cancelled_witness:
  "intervals closed_timers \<noteq> [] \<and> intervals (tick 1 closed_timers) = [] \<and> completed (tick 1 closed_timers) = []"
proof -
  have c: "map_of (intervals closed_timers) 1 =
      Some \<lparr>remaining = 5, resultEl = 4, dialogEl = Some 3, onComplete = 0\<rparr>"
    "\<not> is_open (page closed_timers) 3" "completed closed_timers = []"
    by code_simp+
  then show ?thesis
    using countdown_cancelled [OF idle_timers_idle closed_reachable c(1)] by auto
qed

end
