(* ===== verification/Java_Base.thy ===== *)
theory Java_Base
  imports Js_Number "HOL-Library.List_Lexorder" "HOL-Library.Char_ord"
begin

text \<open>
  What the Java components of the server share: exceptions as values, the string operations of
  \<open>java.lang.String\<close> and \<open>java.lang.Long\<close> that they use, and sorted sets of strings (\<open>TreeSet\<close> in the
  order of \<open>String.compareTo\<close>, that is lexicographic by character).

  A Java method that may throw has the result type \<open>java_exn + 'a\<close>; one that changes a state returns
  the state besides, with what was written before the exception.
\<close>

section \<open>Exceptions\<close>

datatype java_exn =
    NullPointer | StringIndexOutOfBounds | NumberFormat | IllegalArgument | PpaddictError string

type_synonym 'a result = "java_exn + 'a"

definition bind_result :: "'a result \<Rightarrow> ('a \<Rightarrow> 'b result) \<Rightarrow> 'b result" where
  "bind_result r f = (case r of Inl e \<Rightarrow> Inl e | Inr x \<Rightarrow> f x)"

lemma bind_result_simps [simp]: "bind_result (Inl e) f = Inl e" "bind_result (Inr x) f = f x"
  by (simp_all add: bind_result_def)

section \<open>Integers of 32 bits\<close>

text \<open>The value of an \<open>int\<close> after an operation that may overflow.\<close>

definition int32 :: "int \<Rightarrow> int" where
  "int32 i = (i + 2 ^ 31) mod 2 ^ 32 - 2 ^ 31"

lemma int32_id: "- (2 ^ 31) \<le> i \<Longrightarrow> i < 2 ^ 31 \<Longrightarrow> int32 i = i"
  by (simp add: int32_def)

section \<open>Strings\<close>

text \<open>\<open>s.indexOf(c, from)\<close>: minus one when there is none.\<close>

fun index_of :: "char \<Rightarrow> string \<Rightarrow> nat option" where
  "index_of c [] = None"
| "index_of c (x # xs) = (if x = c then Some 0 else map_option Suc (index_of c xs))"

definition indexOf :: "string \<Rightarrow> char \<Rightarrow> int \<Rightarrow> int" where
  "indexOf s c from =
     (case index_of c (drop (nat from) s) of None \<Rightarrow> -1 | Some i \<Rightarrow> int (nat from) + int i)"

definition substring :: "string \<Rightarrow> int \<Rightarrow> int \<Rightarrow> string result" where
  "substring s from to =
     (if 0 \<le> from \<and> from \<le> to \<and> to \<le> int (length s)
      then Inr (take (nat to - nat from) (drop (nat from) s)) else Inl StringIndexOutOfBounds)"

abbreviation substring_from :: "string \<Rightarrow> int \<Rightarrow> string result" where
  "substring_from s from \<equiv> substring s from (int (length s))"

text \<open>\<open>s.toLowerCase()\<close>, for ASCII letters.\<close>

definition to_lower :: "string \<Rightarrow> string" where
  "to_lower s = map (\<lambda>c. let n = (of_char c :: nat)
     in if 65 \<le> n \<and> n \<le> 90 then char_of (n + 32) else c) s"

definition startsWith :: "string \<Rightarrow> string \<Rightarrow> bool" where
  "startsWith s p \<longleftrightarrow> take (length p) s = p"

text \<open>\<open>trim\<close> removes the characters up to the space.\<close>

definition trim :: "string \<Rightarrow> string" where
  "trim s = rev (dropWhile (\<lambda>c. (of_char c :: nat) \<le> 32) (rev (dropWhile (\<lambda>c. (of_char c :: nat) \<le> 32) s)))"

text \<open>\<open>Long.parseLong\<close>: an optional sign and decimal digits, in the range of 64 bits.\<close>

definition parseLong :: "string \<Rightarrow> int result" where
  "parseLong s =
     (let neg = (s \<noteq> [] \<and> hd s = CHR ''-'');
          u = (if s \<noteq> [] \<and> (hd s = CHR ''-'' \<or> hd s = CHR ''+'') then tl s else s);
          n = int (digits_value 10 (digit_prefix 10 u));
          v = (if neg then - n else n)
      in if u \<noteq> [] \<and> length (digit_prefix 10 u) = length u \<and> - (2 ^ 63) \<le> v \<and> v < 2 ^ 63
         then Inr v else Inl NumberFormat)"

lemma parseLong_show_nat:
  assumes "int n < 2 ^ 63"
  shows "parseLong (show_nat n) = Inr (int n)"
proof -
  have "hd (show_nat n) \<in> set (show_nat n)" by (rule hd_in_set) simp
  note h = show_nat_chars(2,3) [OF this]
  have "- (2 ^ 63) \<le> int n" by (rule order_trans [of _ 0]) simp_all
  then show ?thesis
    using assms h by (simp add: parseLong_def Let_def digit_prefix_show_nat digits_value_show_nat)
qed

lemma index_of_append: "c \<notin> set xs \<Longrightarrow> index_of c (xs @ c # ys) = Some (length xs)"
  by (induction xs) auto

lemma indexOf_append: "c \<notin> set xs \<Longrightarrow> indexOf (xs @ c # ys) c 0 = int (length xs)"
  by (simp add: indexOf_def index_of_append)

lemma indexOf_later:
  "c \<notin> set xs \<Longrightarrow> indexOf (zs @ xs @ c # ys) c (int (length zs)) = int (length zs) + int (length xs)"
  by (simp add: indexOf_def index_of_append)

lemma substring_from_append: "substring_from (xs @ ys) (int (length xs)) = Inr ys"
  by (simp add: substring_def)

lemma substring_to_append: "substring (xs @ ys) 0 (int (length xs)) = Inr xs"
  by (simp add: substring_def)

lemma to_lower_append: "to_lower (s @ t) = to_lower s @ to_lower t"
  by (simp add: to_lower_def)

lemma length_to_lower [simp]: "length (to_lower s) = length s"
  by (simp add: to_lower_def)

lemma to_lower_blank: "to_lower (CHR '' '' # s) = CHR '' '' # to_lower s"
  by (simp add: to_lower_def)

lemma to_lower_no_blank: "CHR '' '' \<notin> set s \<Longrightarrow> CHR '' '' \<notin> set (to_lower s)"
proof -
  have "CHR '' '' \<noteq> char_of (of_char c + 32 :: nat)" if "65 \<le> (of_char c :: nat)" "(of_char c :: nat) \<le> 90" for c
  proof
    assume "CHR '' '' = char_of (of_char c + 32 :: nat)"
    from arg_cong [OF this, of "of_char :: char \<Rightarrow> nat"]
    have "(of_char (char_of (of_char c + 32 :: nat) :: char) :: nat) = 32" by simp
    then show False using that by (simp add: of_char_of)
  qed
  then show "CHR '' '' \<notin> set s \<Longrightarrow> CHR '' '' \<notin> set (to_lower s)"
    unfolding to_lower_def by (auto simp: Let_def)
qed

section \<open>Sorted sets of strings\<close>

text \<open>A \<open>TreeSet\<close> is the increasing list of its elements.\<close>

definition tree_set :: "string list \<Rightarrow> bool" where
  "tree_set xs \<longleftrightarrow> sorted_wrt (<) xs"

definition tree_add :: "string \<Rightarrow> string list \<Rightarrow> string list" where
  "tree_add x xs = takeWhile (\<lambda>y. y < x) xs @ [x] @ dropWhile (\<lambda>y. y \<le> x) xs"

definition tree_remove :: "string \<Rightarrow> string list \<Rightarrow> string list" where
  "tree_remove x xs = filter (\<lambda>y. y \<noteq> x) xs"

definition tail_set :: "string \<Rightarrow> string list \<Rightarrow> string list" where
  "tail_set x xs = dropWhile (\<lambda>y. y < x) xs"

lemma tree_set_Cons: "tree_set (y # ys) \<longleftrightarrow> (\<forall>z \<in> set ys. y < z) \<and> tree_set ys"
  by (simp add: tree_set_def)

lemma takeWhile_less: "tree_set xs \<Longrightarrow> takeWhile (\<lambda>y. y < x) xs = filter (\<lambda>y. y < x) xs"
proof (induction xs)
  case (Cons y ys)
  have "filter (\<lambda>z. z < x) ys = []" if "\<not> y < x"
    using Cons.prems that by (fastforce simp: tree_set_Cons filter_empty_conv)
  then show ?case using Cons by (simp add: tree_set_Cons)
qed simp

lemma dropWhile_le: "tree_set xs \<Longrightarrow> dropWhile (\<lambda>y. y \<le> x) xs = filter (\<lambda>y. x < y) xs"
proof (induction xs)
  case (Cons y ys)
  have "filter (\<lambda>z. x < z) ys = ys" if "x < y"
    using Cons.prems that by (intro filter_True) (auto simp: tree_set_Cons)
  then show ?case using Cons by (auto simp: tree_set_Cons not_le)
qed simp

lemma dropWhile_less: "tree_set xs \<Longrightarrow> dropWhile (\<lambda>y. y < x) xs = filter (\<lambda>y. x \<le> y) xs"
proof (induction xs)
  case (Cons y ys)
  have "filter (\<lambda>z. x \<le> z) ys = ys" if "x \<le> y"
    using Cons.prems that by (intro filter_True) (auto simp: tree_set_Cons dest: le_less_trans)
  then show ?case using Cons by (auto simp: tree_set_Cons not_less)
qed simp

lemmas tree_set_split = takeWhile_less dropWhile_le dropWhile_less

lemma tree_set_filter: "tree_set xs \<Longrightarrow> tree_set (filter P xs)"
  by (simp add: tree_set_def sorted_wrt_filter)

lemma tree_add_tree_set: "tree_set xs \<Longrightarrow> tree_set (tree_add x xs)"
  by (simp add: tree_add_def tree_set_split)
    (auto simp: tree_set_def sorted_wrt_append sorted_wrt_filter)

lemma set_tree_add: "tree_set xs \<Longrightarrow> set (tree_add x xs) = insert x (set xs)"
  by (auto simp: tree_add_def tree_set_split)

lemma tree_remove_tree_set: "tree_set xs \<Longrightarrow> tree_set (tree_remove x xs)"
  unfolding tree_remove_def by (rule tree_set_filter)

lemma set_tree_remove: "set (tree_remove x xs) = set xs - {x}"
  by (auto simp: tree_remove_def)

section \<open>Prefixes in the lexicographic order\<close>

lemma le_prefix: "(p :: string) \<le> p @ t"
  by (induction p) simp_all

lemma between_prefix: "(p :: string) \<le> e \<Longrightarrow> e \<le> p @ t \<Longrightarrow> startsWith e p"
proof (induction p arbitrary: e)
  case (Cons c p)
  then show ?case by (cases e) (auto simp: startsWith_def)
qed (simp add: startsWith_def)

lemma startsWith_append: "startsWith s p \<longleftrightarrow> (\<exists>t. s = p @ t)"
  unfolding startsWith_def by (metis append_eq_conv_conj append_take_drop_id)

text \<open>The first element from a prefix on: the least element with the prefix, if there is any.\<close>

lemma tail_set_first:
  assumes "tree_set xs" and "tail_set p xs = e # es"
  shows "startsWith e p \<longleftrightarrow> (\<exists>s \<in> set xs. startsWith s p)" "e \<in> set xs"
proof -
  have f: "filter (\<lambda>y. p \<le> y) xs = e # es"
    using assms by (simp add: tail_set_def tree_set_split)
  then have m: "set (e # es) = {y \<in> set xs. p \<le> y}" by (metis set_filter)
  then show e: "e \<in> set xs" by auto
  have pe: "p \<le> e" using m by auto
  have "sorted_wrt (<) (e # es)" using assms(1) f sorted_wrt_filter unfolding tree_set_def by metis
  then have least: "e \<le> s" if "s \<in> set xs" "p \<le> s" for s
    using m that by (auto simp: set_eq_iff less_imp_le)
  show "startsWith e p \<longleftrightarrow> (\<exists>s \<in> set xs. startsWith s p)"
  proof
    assume "\<exists>s \<in> set xs. startsWith s p"
    then obtain t where "p @ t \<in> set xs" by (auto simp: startsWith_append)
    then have "e \<le> p @ t" using least le_prefix by blast
    then show "startsWith e p" using between_prefix pe by blast
  qed (use e in blast)
qed

lemma tail_set_empty:
  assumes "tree_set xs" and "tail_set p xs = []" and "s \<in> set xs"
  shows "\<not> startsWith s p"
proof -
  have "\<not> p \<le> s" using assms by (auto simp: tail_set_def tree_set_split filter_empty_conv)
  then show ?thesis using le_prefix by (auto simp: startsWith_append)
qed

end
