(* ===== verification/Comments.thy ===== *)
theory Comments
  imports Java_Base
begin

text \<open>
  The comments of a user (\<open>PersistentUserData\<close>): a sorted set of strings
  \<open>beatmap-mods-date-text\<close>, read by the least element with the prefix \<open>beatmap-mods-\<close>; and
  \<open>UserDataServiceImpl.saveComment\<close>, which stores the comment of the edit dialog.

  The set may be missing (\<open>null\<close>). Time is an argument. \<open>Mods.fromShortNamesContinuous\<close> belongs to
  a library and is a parameter.
\<close>

section \<open>The comments of \<open>PersistentUserData\<close>\<close>

record comment =
  comment_text :: string
  comment_date :: int

definition key_prefix :: "int \<Rightarrow> int \<Rightarrow> string" where
  "key_prefix i mods = show_int i @ ''-'' @ show_int mods @ ''-''"

text \<open>The constructor \<open>Comment(String)\<close> and \<open>Comment.toString\<close>.\<close>

definition parse_comment :: "string \<Rightarrow> comment result" where
  "parse_comment s =
     (let pos = indexOf s (CHR ''-'') 0
      in bind_result (substring s 0 pos) (\<lambda>d.
         bind_result (parseLong d) (\<lambda>date.
         bind_result (substring_from s (pos + 1)) (\<lambda>text.
         Inr \<lparr>comment_text = text, comment_date = date\<rparr>))))"

definition print_comment :: "comment \<Rightarrow> string" where
  "print_comment c = show_int (comment_date c) @ ''-'' @ comment_text c"

definition getComment :: "string list option \<Rightarrow> int \<Rightarrow> int \<Rightarrow> comment option result" where
  "getComment comments i mods =
     (case comments of
        None \<Rightarrow> Inr None
      | Some cs \<Rightarrow>
          (case tail_set (key_prefix i mods) cs of
             [] \<Rightarrow> Inr None
           | entry # _ \<Rightarrow>
               if \<not> startsWith entry (key_prefix i mods) then Inr None
               else
                 bind_result
                   (substring_from entry
                      (indexOf entry (CHR ''-'') (indexOf entry (CHR ''-'') 0 + 1) + 1))
                   (\<lambda>s. bind_result (parse_comment s) (\<lambda>c. Inr (Some c)))))"

text \<open>The local variable keeps the old value of the field, \<open>null\<close> included.\<close>

definition putBeatMapComment ::
  "int \<Rightarrow> int \<Rightarrow> int \<Rightarrow> string \<Rightarrow> string list option \<Rightarrow> unit result \<times> string list option" where
  "putBeatMapComment now i mods text comments =
     (let field = (case comments of None \<Rightarrow> Some [] | Some cs \<Rightarrow> Some cs)
      in case getComment field i mods of
           Inl e \<Rightarrow> (Inl e, field)
         | Inr old \<Rightarrow>
             (case comments of
                None \<Rightarrow> (if old \<noteq> None \<or> text \<noteq> [] then (Inl NullPointer, field) else (Inr (), field))
              | Some cs \<Rightarrow>
                  let set1 = (case old of None \<Rightarrow> cs
                       | Some c \<Rightarrow> tree_remove (key_prefix i mods @ print_comment c) cs);
                      set2 = (if text = [] then set1
                              else tree_add (key_prefix i mods @ show_int now @ ''-'' @ text) set1)
                  in (Inr (), Some set2)))"

section \<open>\<open>UserDataServiceImpl.saveComment\<close>\<close>

definition BEATMAP_COMMENT_LENGTH :: nat where
  "BEATMAP_COMMENT_LENGTH = 64"

definition mods_of :: "(string \<Rightarrow> int) \<Rightarrow> string option \<Rightarrow> int" where
  "mods_of fromShortNames mods =
     (case mods of
        None \<Rightarrow> 0
      | Some m \<Rightarrow> if m = [] then 0 else if m = ''?'' then -1 else fromShortNames m)"

text \<open>What happens to the comments of the user: nothing without a comment, an error without login.\<close>

definition saveComment ::
  "(string \<Rightarrow> int) \<Rightarrow> int \<Rightarrow> bool \<Rightarrow> int \<Rightarrow> string option \<Rightarrow> string option \<Rightarrow> string list option
     \<Rightarrow> unit result \<times> string list option" where
  "saveComment fromShortNames now loggedIn i mods text comments =
     (case text of
        None \<Rightarrow> (Inr (), comments)
      | Some t \<Rightarrow>
          if \<not> loggedIn then (Inl (PpaddictError ''You need to log in to use this feature.''), comments)
          else
            let field = (case comments of None \<Rightarrow> Some [] | Some cs \<Rightarrow> Some cs);
                t' = trim (take BEATMAP_COMMENT_LENGTH (trim t))
            in case putBeatMapComment now i (mods_of fromShortNames mods) t' field of
                 (Inl e, _) \<Rightarrow> (Inl e, comments)
               | (Inr _, saved) \<Rightarrow> (Inr (), saved))"

section \<open>Well-formed stores\<close>

definition entry :: "nat \<Rightarrow> nat \<Rightarrow> nat \<Rightarrow> string \<Rightarrow> string" where
  "entry i mods date text =
     key_prefix (int i) (int mods) @ show_int (int date) @ ''-'' @ text"

text \<open>Sorted; every element is the entry of a comment with a date of 63 bits; one comment per key.\<close>

definition store_ok :: "string list \<Rightarrow> bool" where
  "store_ok xs \<longleftrightarrow> tree_set xs \<and>
     (\<forall>e \<in> set xs. \<exists>i m d t. e = entry i m d t \<and> int d < 2 ^ 63) \<and>
     (\<forall>i m d t d' t'. entry i m d t \<in> set xs \<longrightarrow> entry i m d' t' \<in> set xs \<longrightarrow> d = d' \<and> t = t')"

lemma show_int_nat: "show_int (int n) = show_nat n"
  by (simp add: show_int_def)

lemma show_nat_no_dash: "CHR ''-'' \<notin> set (show_nat n)"
  using show_nat_chars(2) by blast

lemma show_nat_inject: "show_nat m = show_nat n \<Longrightarrow> m = n"
  by (metis digits_value_show_nat)

lemma split_at_dash:
  "CHR ''-'' \<notin> set xs \<Longrightarrow> CHR ''-'' \<notin> set ys \<Longrightarrow> xs @ CHR ''-'' # s = ys @ CHR ''-'' # t \<Longrightarrow> xs = ys \<and> s = t"
proof (induction xs arbitrary: ys)
  case Nil
  then show ?case by (cases ys) auto
next
  case (Cons x xs)
  then show ?case by (cases ys) auto
qed

lemma entry_split: "entry i m d t = show_nat i @ CHR ''-'' # show_nat m @ CHR ''-'' # show_nat d @ CHR ''-'' # t"
  by (simp add: entry_def key_prefix_def show_int_nat)

lemma entry_inject: "entry i m d t = entry i' m' d' t' \<Longrightarrow> i = i' \<and> m = m' \<and> d = d' \<and> t = t'"
  unfolding entry_split by (meson split_at_dash show_nat_no_dash show_nat_inject)

lemma entry_key: "startsWith (entry i m d t) (key_prefix (int i') (int m')) \<longleftrightarrow> i = i' \<and> m = m'"
proof
  assume "startsWith (entry i m d t) (key_prefix (int i') (int m'))"
  then obtain r where "entry i m d t = show_nat i' @ CHR ''-'' # show_nat m' @ CHR ''-'' # r"
    by (auto simp: startsWith_append key_prefix_def show_int_nat)
  then show "i = i' \<and> m = m'"
    unfolding entry_split by (meson split_at_dash show_nat_no_dash show_nat_inject)
qed (auto simp: startsWith_append entry_def)

lemma parse_print:
  assumes "int d < 2 ^ 63"
  shows "parse_comment (show_nat d @ CHR ''-'' # t) = Inr \<lparr>comment_text = t, comment_date = int d\<rparr>"
proof -
  have "indexOf (show_nat d @ CHR ''-'' # t) (CHR ''-'') 0 = int (length (show_nat d))"
    by (rule indexOf_append [OF show_nat_no_dash])
  moreover have "substring_from (show_nat d @ CHR ''-'' # t) (int (length (show_nat d)) + 1) = Inr t"
    using substring_from_append [of "show_nat d @ ''-''" t] by (simp add: algebra_simps)
  moreover have "substring (show_nat d @ CHR ''-'' # t) 0 (int (length (show_nat d))) = Inr (show_nat d)"
    by (rule substring_to_append)
  ultimately show ?thesis
    using parseLong_show_nat [OF assms] by (simp only: parse_comment_def Let_def bind_result_simps)
qed

lemma cut_key:
  "substring_from (entry i m d t) (indexOf (entry i m d t) (CHR ''-'') (indexOf (entry i m d t) (CHR ''-'') 0 + 1) + 1)
     = Inr (show_nat d @ CHR ''-'' # t)"
proof -
  let ?e = "entry i m d t" and ?r = "show_nat d @ CHR ''-'' # t"
  have "indexOf ?e (CHR ''-'') 0 = int (length (show_nat i))"
    unfolding entry_split by (rule indexOf_append [OF show_nat_no_dash])
  moreover have "indexOf ?e (CHR ''-'') (int (length (show_nat i)) + 1) =
      int (length (show_nat i)) + 1 + int (length (show_nat m))"
    using indexOf_later [OF show_nat_no_dash, of "show_nat i @ ''-''" m ?r]
    by (simp add: entry_split algebra_simps)
  moreover have "substring_from ?e (int (length (show_nat i @ ''-'' @ show_nat m @ ''-''))) = Inr ?r"
    using substring_from_append [of "show_nat i @ ''-'' @ show_nat m @ ''-''" ?r] by (simp add: entry_split)
  ultimately show ?thesis by (simp add: algebra_simps)
qed

text \<open>What a store says: the date and the text of the comment for a beatmap and mods.\<close>

definition comment_at :: "string list \<Rightarrow> nat \<Rightarrow> nat \<Rightarrow> comment option \<Rightarrow> bool" where
  "comment_at xs i m c \<longleftrightarrow>
     (case c of
        None \<Rightarrow> \<forall>d t. entry i m d t \<notin> set xs
      | Some c \<Rightarrow> 0 \<le> comment_date c \<and> entry i m (nat (comment_date c)) (comment_text c) \<in> set xs)"

lemma getComment_at:
  assumes "store_ok xs"
  shows "\<exists>c. getComment (Some xs) (int i) (int m) = Inr c \<and> comment_at xs i m c"
proof (cases "tail_set (key_prefix (int i) (int m)) xs")
  case Nil
  have "\<forall>d t. entry i m d t \<notin> set xs"
    using tail_set_empty [OF _ Nil] assms entry_key unfolding store_ok_def by blast
  then show ?thesis by (simp add: getComment_def Nil comment_at_def)
next
  case (Cons e es)
  have t: "tree_set xs" using assms by (simp add: store_ok_def)
  note first = tail_set_first [OF t Cons]
  obtain i' m' d t where e: "e = entry i' m' d t" "int d < 2 ^ 63"
    using assms first(2) unfolding store_ok_def by blast
  show ?thesis
  proof (cases "startsWith e (key_prefix (int i) (int m))")
    case False
    then have "\<forall>d t. entry i m d t \<notin> set xs" using first(1) entry_key by blast
    then show ?thesis using False by (simp add: getComment_def Cons comment_at_def)
  next
    case True
    then have k: "i' = i" "m' = m" using entry_key e(1) by auto
    have "getComment (Some xs) (int i) (int m) = Inr (Some \<lparr>comment_text = t, comment_date = int d\<rparr>)"
      using True unfolding getComment_def e(1) k
      by (simp add: Cons e(1) k cut_key parse_print [OF e(2)])
    then show ?thesis using first(2) e(1) k by (simp add: comment_at_def)
  qed
qed

lemma comment_at_unique:
  assumes "store_ok xs" and "comment_at xs i m c" and "comment_at xs i m c'"
  shows "c = c'"
proof (cases c; cases c')
  fix a b
  assume c: "c = Some a" "c' = Some b"
  have *: "nat (comment_date a) = nat (comment_date b) \<and> comment_text a = comment_text b"
    using assms unfolding store_ok_def c comment_at_def by (simp, blast)
  moreover have "0 \<le> comment_date a" "0 \<le> comment_date b"
    using assms(2,3) c by (simp_all add: comment_at_def)
  ultimately show ?thesis using c by (cases a; cases b) simp
qed (use assms in \<open>auto simp: comment_at_def\<close>)

section \<open>The comments are a map\<close>

text \<open>An interface: a store of values under keys, where storing nothing deletes. What a history of
  operations leaves under a key is what the last operation on that key stored.\<close>

locale keyed_store =
  fixes lookup :: "'s \<Rightarrow> 'k \<Rightarrow> 'v option"
    and store :: "'k \<Rightarrow> 'w \<Rightarrow> 's \<Rightarrow> 's"
    and meaning :: "'w \<Rightarrow> 'v option"
    and ok :: "'s \<Rightarrow> bool"
    and fine :: "'w \<Rightarrow> bool"
  assumes ok_store: "ok s \<Longrightarrow> fine w \<Longrightarrow> ok (store k w s)"
    and lookup_store: "ok s \<Longrightarrow> fine w \<Longrightarrow> lookup (store k w s) k' = (if k' = k then meaning w else lookup s k')"
begin

definition run :: "('k \<times> 'w) list \<Rightarrow> 's \<Rightarrow> 's" where
  "run = fold (\<lambda>(k, w). store k w)"

lemma ok_run: "ok s \<Longrightarrow> \<forall>(k, w) \<in> set h. fine w \<Longrightarrow> ok (run h s)"
  by (induction h arbitrary: s) (auto simp: run_def ok_store)

lemma lookup_run:
  "ok s \<Longrightarrow> \<forall>(k, w) \<in> set h. fine w \<Longrightarrow>
     lookup (run h s) k = (case map_of (rev h) k of None \<Rightarrow> lookup s k | Some w \<Rightarrow> meaning w)"
proof (induction h arbitrary: s)
  case (Cons x h)
  obtain k' w where x: "x = (k', w)" by (cases x)
  have "lookup (run h (store k' w s)) k =
      (case map_of (rev h) k of None \<Rightarrow> lookup (store k' w s) k | Some w \<Rightarrow> meaning w)"
    by (rule Cons.IH) (use Cons.prems x in \<open>auto simp: ok_store\<close>)
  then show ?case
    using Cons.prems x by (auto simp: run_def lookup_store map_add_def split: option.split)
qed (simp add: run_def)

end

definition comment_lookup :: "string list \<Rightarrow> nat \<times> nat \<Rightarrow> comment option" where
  "comment_lookup xs k =
     (case getComment (Some xs) (int (fst k)) (int (snd k)) of Inl e \<Rightarrow> None | Inr c \<Rightarrow> c)"

definition comment_store :: "nat \<times> nat \<Rightarrow> nat \<times> string \<Rightarrow> string list \<Rightarrow> string list" where
  "comment_store k w xs =
     (case putBeatMapComment (int (fst w)) (int (fst k)) (int (snd k)) (snd w) (Some xs) of
        (Inr _, Some ys) \<Rightarrow> ys | _ \<Rightarrow> xs)"

definition comment_meaning :: "nat \<times> string \<Rightarrow> comment option" where
  "comment_meaning w =
     (if snd w = [] then None else Some \<lparr>comment_text = snd w, comment_date = int (fst w)\<rparr>)"

lemma lookup_iff:
  assumes "store_ok xs"
  shows "comment_lookup xs (i, m) = c \<longleftrightarrow> comment_at xs i m c"
proof -
  obtain c' where "getComment (Some xs) (int i) (int m) = Inr c'" "comment_at xs i m c'"
    using getComment_at [OF assms] by blast
  then show ?thesis using comment_at_unique [OF assms] by (auto simp: comment_lookup_def)
qed

text \<open>The store after a comment was put, as a set of entries.\<close>

lemma put_result:
  assumes "store_ok xs"
  obtains ys where
    "putBeatMapComment (int d) (int i) (int m) t (Some xs) = (Inr (), Some ys)" and "tree_set ys"
    and "set ys = {e \<in> set xs. \<forall>d t. e \<noteq> entry i m d t} \<union> (if t = [] then {} else {entry i m d t})"
proof -
  obtain c where c: "getComment (Some xs) (int i) (int m) = Inr c" "comment_at xs i m c"
    using getComment_at [OF assms] by blast
  define zs where "zs = (case c of None \<Rightarrow> xs
      | Some c \<Rightarrow> tree_remove (key_prefix (int i) (int m) @ print_comment c) xs)"
  have ts: "tree_set xs" using assms by (simp add: store_ok_def)
  have zs: "set zs = {e \<in> set xs. \<forall>d t. e \<noteq> entry i m d t}" "tree_set zs"
  proof -
    show "tree_set zs" using ts tree_remove_tree_set by (simp add: zs_def split: option.split)
    show "set zs = {e \<in> set xs. \<forall>d t. e \<noteq> entry i m d t}"
    proof (cases c)
      case None
      then show ?thesis using c(2) by (auto simp: zs_def comment_at_def)
    next
      case (Some a)
      have a: "0 \<le> comment_date a" "entry i m (nat (comment_date a)) (comment_text a) \<in> set xs"
        using c(2) Some by (simp_all add: comment_at_def)
      have p: "key_prefix (int i) (int m) @ print_comment a = entry i m (nat (comment_date a)) (comment_text a)"
        using a(1) by (simp add: print_comment_def entry_def)
      have only: "d = nat (comment_date a) \<and> t = comment_text a" if "entry i m d t \<in> set xs" for d t
        using assms a(2) that unfolding store_ok_def by blast
      show ?thesis
        using only by (auto simp: zs_def Some p set_tree_remove dest: entry_inject)
    qed
  qed
  define ys where "ys = (if t = [] then zs else tree_add (entry i m d t) zs)"
  show thesis
  proof (rule that [of ys])
    show "putBeatMapComment (int d) (int i) (int m) t (Some xs) = (Inr (), Some ys)"
      by (cases c) (simp_all add: putBeatMapComment_def Let_def c(1) ys_def zs_def entry_def)
    show "tree_set ys" using zs(2) tree_add_tree_set by (simp add: ys_def)
    show "set ys = {e \<in> set xs. \<forall>d t. e \<noteq> entry i m d t} \<union> (if t = [] then {} else {entry i m d t})"
      using set_tree_add [OF zs(2)] zs(1) by (auto simp: ys_def)
  qed
qed

lemma put_store:
  assumes "store_ok xs" and "int d < 2 ^ 63"
  shows "store_ok (comment_store (i, m) (d, t) xs)"
    and "comment_lookup (comment_store (i, m) (d, t) xs) (i', m') =
      (if (i', m') = (i, m) then comment_meaning (d, t) else comment_lookup xs (i', m'))"
proof -
  obtain ys where put: "putBeatMapComment (int d) (int i) (int m) t (Some xs) = (Inr (), Some ys)"
    and ts: "tree_set ys"
    and ys: "set ys = {e \<in> set xs. \<forall>d t. e \<noteq> entry i m d t} \<union> (if t = [] then {} else {entry i m d t})"
    by (rule put_result [OF assms(1)])
  have c: "comment_store (i, m) (d, t) xs = ys" by (simp add: comment_store_def put)
  have old: "d' = d'' \<and> t' = t''" if "entry a b d' t' \<in> set xs" "entry a b d'' t'' \<in> set xs" for a b d' t' d'' t''
    using assms(1) that unfolding store_ok_def by blast
  have form: "\<exists>i m d t. e = entry i m d t \<and> int d < 2 ^ 63" if "e \<in> set xs" for e
    using assms(1) that unfolding store_ok_def by blast
  show ok: "store_ok (comment_store (i, m) (d, t) xs)"
    unfolding store_ok_def c
  proof (intro conjI ballI allI impI ts)
    show "\<exists>i m d t. e = entry i m d t \<and> int d < 2 ^ 63" if "e \<in> set ys" for e
      using that form assms(2) by (auto simp: ys split: if_splits)
    fix a b d' t' d'' t''
    assume "entry a b d' t' \<in> set ys" "entry a b d'' t'' \<in> set ys"
    then show "d' = d''" "t' = t''"
      using old [of a b d' t' d'' t''] by (auto simp: ys split: if_splits dest: entry_inject)
  qed
  show "comment_lookup (comment_store (i, m) (d, t) xs) (i', m') =
      (if (i', m') = (i, m) then comment_meaning (d, t) else comment_lookup xs (i', m'))"
  proof (cases "(i', m') = (i, m)")
    case True
    have "comment_at ys i m (comment_meaning (d, t))"
      by (auto simp: comment_at_def comment_meaning_def ys)
    then show ?thesis using True lookup_iff [OF ok [unfolded c]] c by simp
  next
    case False
    have "entry i' m' d' t' \<in> set ys \<longleftrightarrow> entry i' m' d' t' \<in> set xs" for d' t'
      using False by (auto simp: ys dest: entry_inject)
    then have "comment_at ys i' m' x \<longleftrightarrow> comment_at xs i' m' x" for x
      by (simp add: comment_at_def split: option.split)
    then show ?thesis
      using False lookup_iff [OF ok [unfolded c]] lookup_iff [OF assms(1)] c by metis
  qed
qed

interpretation comments: keyed_store comment_lookup comment_store comment_meaning store_ok
  "\<lambda>w. int (fst w) < 2 ^ 63"
proof unfold_locales
  show "store_ok (comment_store k w xs)" if "store_ok xs" "int (fst w) < 2 ^ 63" for xs w k
    using put_store(1) [of xs "fst w" "fst k" "snd k" "snd w"] that by simp
  show "comment_lookup (comment_store k w xs) k' =
      (if k' = k then comment_meaning w else comment_lookup xs k')"
    if "store_ok xs" "int (fst w) < 2 ^ 63" for xs w k k'
    using put_store(2) [of xs "fst w" "fst k" "snd k" "snd w" "fst k'" "snd k'"] that by simp
qed

text \<open>C21. The comments of a user are a map: after any history of edits at any times, looking up a
  beatmap with mods gives the text and the time of the last edit of exactly that key (nothing if
  that edit emptied it, and what was there before the history if there was no edit of it), and
  neither storing nor looking up ever fails.\<close>

theorem comments_are_a_map:
  assumes "store_ok xs" and "\<forall>((i, m), d, t) \<in> set h. int d < 2 ^ 63"
  defines "ys \<equiv> fold (\<lambda>((i, m), d, t) ys. the (snd (putBeatMapComment (int d) (int i) (int m) t (Some ys)))) h xs"
  shows "getComment (Some ys) (int i) (int m) =
    (case map_of (rev h) (i, m) of
       None \<Rightarrow> getComment (Some xs) (int i) (int m)
     | Some (d, t) \<Rightarrow> Inr (if t = [] then None else Some \<lparr>comment_text = t, comment_date = int d\<rparr>))"
proof -
  have step: "the (snd (putBeatMapComment (int d) (int i) (int m) t (Some zs))) = comment_store (i, m) (d, t) zs"
    if "store_ok zs" for zs i m d t
    by (rule put_result [OF that, of d i m t]) (simp add: comment_store_def)
  have ok: "store_ok (comments.run h xs)" if "store_ok xs" "\<forall>((i, m), d, t) \<in> set h. int d < 2 ^ 63" for h xs
    by (rule comments.ok_run [OF that(1)]) (use that(2) in auto)
  have ys: "fold (\<lambda>((i, m), d, t) ys. the (snd (putBeatMapComment (int d) (int i) (int m) t (Some ys)))) h zs
      = comments.run h zs" if "store_ok zs" "\<forall>((i, m), d, t) \<in> set h. int d < 2 ^ 63" for h zs
    using that
  proof (induction h arbitrary: zs)
    case (Cons x h)
    obtain i m d t where x: "x = ((i, m), d, t)" by (metis prod.exhaust)
    have "store_ok (comment_store (i, m) (d, t) zs)"
      using put_store(1) [OF Cons.prems(1), of d] Cons.prems(2) x by auto
    then show ?case
      using Cons.IH Cons.prems(2) x step [OF Cons.prems(1)] by (simp add: comments.run_def)
  qed (simp add: comments.run_def)
  have ok_ys: "store_ok ys" using ok [OF assms(1,2)] ys [OF assms(1,2)] by (simp add: ys_def)
  have get: "getComment (Some zs) (int i) (int m) = Inr (comment_lookup zs (i, m))" if "store_ok zs" for zs
    using getComment_at [OF that, of i m] by (auto simp: comment_lookup_def)
  have "comment_lookup ys (i, m) = (case map_of (rev h) (i, m) of
      None \<Rightarrow> comment_lookup xs (i, m) | Some w \<Rightarrow> comment_meaning w)"
    unfolding ys_def ys [OF assms(1,2)] by (rule comments.lookup_run [OF assms(1)]) (use assms(2) in auto)
  then show ?thesis
    by (simp add: get [OF ok_ys] get [OF assms(1)] comment_meaning_def split: option.split prod.split)
qed

lemma length_trim: "length (trim s) \<le> length s"
  unfolding trim_def by (metis length_dropWhile_le length_rev order_trans)

lemma put_get_store:
  assumes "store_ok xs" and "int d < 2 ^ 63"
  shows "\<exists>ys. putBeatMapComment (int d) (int i) (int m) t (Some xs) = (Inr (), Some ys) \<and> store_ok ys
    \<and> getComment (Some ys) (int i) (int m) = Inr (comment_meaning (d, t))"
proof -
  obtain ys where ys: "putBeatMapComment (int d) (int i) (int m) t (Some xs) = (Inr (), Some ys)"
    by (rule put_result [OF assms(1), of d i m t])
  then have c: "comment_store (i, m) (d, t) xs = ys" by (simp add: comment_store_def)
  have ok: "store_ok ys" using put_store(1) [OF assms, of i m t] c by simp
  have "comment_lookup ys (i, m) = comment_meaning (d, t)"
    using put_store(2) [OF assms, of i m t i m] c by simp
  then show ?thesis using ys ok getComment_at [OF ok, of i m] by (auto simp: comment_lookup_def)
qed

text \<open>A logged-in user who saves a comment for a beatmap with known mods sees it from then on,
  trimmed and cut to at most 64 characters, whether or not there were comments before; without login
  nothing is stored.\<close>

theorem saveComment_visible:
  assumes "xs = None \<or> (\<exists>ys. xs = Some ys \<and> store_ok ys)" and "int now < 2 ^ 63"
    and "mods_of fromShortNames mods = int m"
  shows "\<exists>ys. saveComment fromShortNames (int now) True (int i) mods (Some t) xs = (Inr (), Some ys)
    \<and> store_ok ys
    \<and> getComment (Some ys) (int i) (int m) =
        Inr (comment_meaning (now, trim (take BEATMAP_COMMENT_LENGTH (trim t))))
    \<and> length (trim (take BEATMAP_COMMENT_LENGTH (trim t))) \<le> 64
    \<and> snd (saveComment fromShortNames (int now) False (int i) mods (Some t) xs) = xs"
proof -
  define zs where "zs = (case xs of None \<Rightarrow> [] | Some ys \<Rightarrow> ys)"
  have ok: "store_ok zs"
    using assms(1) by (auto simp: zs_def store_ok_def tree_set_def)
  have f: "(case xs of None \<Rightarrow> Some [] | Some cs \<Rightarrow> Some cs) = Some zs"
    by (simp add: zs_def split: option.split)
  have "length (trim (take BEATMAP_COMMENT_LENGTH (trim t))) \<le> 64"
    using length_trim [of "take BEATMAP_COMMENT_LENGTH (trim t)"] by (simp add: BEATMAP_COMMENT_LENGTH_def)
  then show ?thesis
    using put_get_store [OF ok assms(2), of i m "trim (take BEATMAP_COMMENT_LENGTH (trim t))"]
    by (auto simp: saveComment_def Let_def f assms(3))
qed

section \<open>Unknown mods\<close>

text \<open>For unknown mods, which are stored as minus one, the sign is taken for a separator: the comment
  comes back with the date 1 and with its time in front of its text, and it can no longer be
  deleted.\<close>

theorem unknown_mods_garbled:
  fixes now i later :: nat
  assumes "t \<noteq> []"
  defines "s \<equiv> snd (putBeatMapComment (int now) (int i) (-1) t (Some []))"
  shows "getComment s (int i) (-1) =
      Inr (Some \<lparr>comment_text = show_nat now @ ''-'' @ t, comment_date = 1\<rparr>)
    \<and> snd (putBeatMapComment (int later) (int i) (-1) [] s) = s"
proof -
  let ?k = "key_prefix (int i) (-1)"
  let ?r = "show_nat 1 @ CHR ''-'' # show_nat now @ CHR ''-'' # t"
  let ?e = "show_nat i @ CHR ''-'' # [] @ CHR ''-'' # ?r"
  have k: "?k = show_nat i @ ''--'' @ show_nat 1 @ ''-''"
    by (simp add: key_prefix_def show_int_def)
  have s: "s = Some [?e]"
    using assms(1) by (simp add: s_def putBeatMapComment_def getComment_def tail_set_def tree_add_def k show_int_nat)
  have i1: "indexOf ?e (CHR ''-'') 0 = int (length (show_nat i))"
    by (rule indexOf_append [OF show_nat_no_dash])
  have i2: "indexOf ?e (CHR ''-'') (int (length (show_nat i)) + 1) = int (length (show_nat i)) + 1"
    using indexOf_later [of "CHR ''-''" "[]" "show_nat i @ ''-''" ?r] by (simp add: algebra_simps)
  have cut: "substring_from ?e (int (length (show_nat i)) + 1 + 1) = Inr ?r"
    using substring_from_append [of "show_nat i @ ''--''" ?r] by (simp add: algebra_simps)
  have st: "startsWith ?e ?k" by (simp add: startsWith_append k)
  have tl: "tail_set ?k [?e] = [?e]"
    using le_prefix [of ?k "show_nat now @ CHR ''-'' # t"] by (simp add: tail_set_def k not_less)
  have get: "getComment s (int i) (-1) =
      Inr (Some \<lparr>comment_text = show_nat now @ ''-'' @ t, comment_date = 1\<rparr>)"
    unfolding s getComment_def option.case tl list.case i1 i2
    using st cut parse_print [of 1 "show_nat now @ CHR ''-'' # t"] by simp
  have "?k @ print_comment \<lparr>comment_text = show_nat now @ ''-'' @ t, comment_date = 1\<rparr> \<noteq> ?e"
    by (simp add: k print_comment_def show_int_def)
  then have "tree_remove (?k @ print_comment \<lparr>comment_text = show_nat now @ ''-'' @ t, comment_date = 1\<rparr>) [?e] = [?e]"
    by (simp add: tree_remove_def)
  then have "snd (putBeatMapComment (int later) (int i) (-1) [] s) = s"
    using get by (simp add: putBeatMapComment_def s)
  then show ?thesis using get by blast
qed

section \<open>Concrete stores\<close>

definition sample_store :: "string list" where
  "sample_store = comment_store (12, 64) (5, ''old'') (comment_store (7, 0) (3, ''nice'') [])"

lemma sample_store_ok: "store_ok sample_store"
  unfolding sample_store_def by (intro put_store(1)) (simp_all add: store_ok_def tree_set_def)

lemma comments_are_a_map_witness:
  "getComment (Some (fold (\<lambda>((i, m), d, t) ys. the (snd (putBeatMapComment (int d) (int i) (int m) t (Some ys))))
      [((12, 64), 9, ''new''), ((7, 0), 9, [])] sample_store)) 12 64 =
     Inr (Some \<lparr>comment_text = ''new'', comment_date = 9\<rparr>)"
  using comments_are_a_map [OF sample_store_ok, of "[((12, 64), 9, ''new''), ((7, 0), 9, [])]" 12 64] by simp

lemma saveComment_visible_witness:
  "\<exists>ys. saveComment (\<lambda>m. 64) 9 True 12 (Some ''DT'') (Some '' hi '') (Some sample_store) = (Inr (), Some ys)
     \<and> getComment (Some ys) 12 64 = Inr (comment_meaning (9, ''hi''))"
proof -
  have t: "trim (take BEATMAP_COMMENT_LENGTH (trim '' hi '')) = ''hi''" by code_simp
  show ?thesis
    using saveComment_visible [of "Some sample_store" 9 "\<lambda>m. 64" "Some ''DT''" 64 12 "'' hi ''"]
      sample_store_ok t by (auto simp: mods_of_def)
qed

lemma unknown_mods_garbled_witness:
  "getComment (snd (putBeatMapComment 1700 12 (-1) ''hi'' (Some []))) 12 (-1) =
     Inr (Some \<lparr>comment_text = ''1700-hi'', comment_date = 1\<rparr>)"
proof -
  have "show_nat 1700 = ''1700''" by code_simp
  then show ?thesis using unknown_mods_garbled [of "''hi''" 1700 12 0] by simp
qed

end
