(* ===== verification/Java_Double.thy ===== *)
theory Java_Double
  imports Complex_Main
begin

text \<open>
  Java's \<open>double\<close>: a rational number, and \<open>dbl\<close>, the rounding that follows every arithmetic
  operation: to 53 binary digits, ties to the even digit (IEEE 754 binary64, away from overflow and
  underflow). An operation \<open>x * y\<close> of the program is \<open>dbl (x * y)\<close> here.
\<close>

section \<open>Rounding\<close>

fun bits :: "nat \<Rightarrow> nat" where
  "bits n = (if n = 0 then 0 else Suc (bits (n div 2)))"

declare bits.simps [simp del]

definition pow2 :: "int \<Rightarrow> rat" where
  "pow2 i = (if 0 \<le> i then 2 ^ nat i else 1 / 2 ^ nat (- i))"

text \<open>The binary exponent of a positive number.\<close>

definition exponent :: "rat \<Rightarrow> int" where
  "exponent q =
     (let (n, d) = quotient_of q;
          k = int (bits (nat n)) - int (bits (nat d))
      in if pow2 k \<le> q then k else k - 1)"

definition round_half_even :: "rat \<Rightarrow> int" where
  "round_half_even y =
     (let f = \<lfloor>y\<rfloor>; r = y - of_int f
      in if r < 1 / 2 then f else if 1 / 2 < r then f + 1 else if even f then f else f + 1)"

definition dbl :: "rat \<Rightarrow> rat" where
  "dbl x =
     (if x = 0 then 0
      else
        let q = \<bar>x\<bar>;
            s = pow2 (52 - exponent q);
            m = of_int (round_half_even (q * s)) / s
        in if x < 0 then - m else m)"

section \<open>The exponent\<close>

lemma bits_bounds: "0 < n \<Longrightarrow> 2 ^ (bits n - 1) \<le> n \<and> n < 2 ^ bits n \<and> 0 < bits n"
proof (induction n rule: bits.induct)
  case (1 n)
  show ?case
  proof (cases "n div 2 = 0")
    case True
    then have "n = 1" using 1(2) by simp
    then show ?thesis by (simp add: bits.simps)
  next
    case False
    then have IH: "2 ^ (bits (n div 2) - 1) \<le> n div 2" "n div 2 < 2 ^ bits (n div 2)" "0 < bits (n div 2)"
      using 1 by auto
    have b: "bits n = Suc (bits (n div 2))" using 1(2) by (subst bits.simps) simp
    define p :: nat where "p = 2 ^ (bits (n div 2) - 1)"
    have p: "(2::nat) ^ bits (n div 2) = 2 * p"
      using IH(3) unfolding p_def by (cases "bits (n div 2)") auto
    have "p \<le> n div 2" "n div 2 < 2 * p" using IH(1,2) p by (simp_all add: p_def)
    then have "2 * p \<le> n" "n < 4 * p" by linarith+
    then show ?thesis using b p by simp
  qed
qed

lemma pow2_pos [simp]: "0 < pow2 i"
  by (simp add: pow2_def)

lemma pow2_powr: "of_rat (pow2 i) = 2 powr (of_int i :: real)"
  by (auto simp: pow2_def of_rat_power of_rat_divide powr_realpow [symmetric] powr_minus field_simps)

lemma pow2_less: "pow2 i < pow2 j \<longleftrightarrow> i < j"
proof -
  have "pow2 i < pow2 j \<longleftrightarrow> (of_rat (pow2 i) :: real) < of_rat (pow2 j)" by (simp add: of_rat_less)
  then show ?thesis by (simp add: pow2_powr)
qed

lemma pow2_diff: "pow2 (int a - int b) = 2 ^ a / 2 ^ b"
proof -
  have "(of_rat (pow2 (int a - int b)) :: real) = of_rat (2 ^ a / 2 ^ b)"
    by (simp add: pow2_powr of_rat_divide of_rat_power powr_diff powr_realpow)
  then show ?thesis by simp
qed

lemma exponent_bounds:
  assumes "0 < q"
  shows "pow2 (exponent q) \<le> q" "q < pow2 (exponent q + 1)"
proof -
  obtain n d where nd: "quotient_of q = (n, d)" by (cases "quotient_of q")
  have d: "0 < d" using quotient_of_denom_pos nd by blast
  have q: "q = of_int n / of_int d" using quotient_of_div [OF nd] .
  have n: "0 < n" using assms d by (simp add: q zero_less_divide_iff)
  let ?a = "bits (nat n)" and ?b = "bits (nat d)"
  have "2 ^ (?a - 1) \<le> nat n \<and> nat n < 2 ^ ?a" "2 ^ (?b - 1) \<le> nat d \<and> nat d < 2 ^ ?b"
    and ab: "0 < ?a" "0 < ?b"
    using bits_bounds [of "nat n"] bits_bounds [of "nat d"] n d by auto
  then have "(of_nat (2 ^ (?a - 1)) :: rat) \<le> of_nat (nat n)" "(of_nat (nat n) :: rat) < of_nat (2 ^ ?a)"
      "(of_nat (2 ^ (?b - 1)) :: rat) \<le> of_nat (nat d)" "(of_nat (nat d) :: rat) < of_nat (2 ^ ?b)"
    by (simp_all only: of_nat_le_iff of_nat_less_iff)
  then have N: "(2 :: rat) ^ (?a - 1) \<le> of_int n" "of_int n < (2 :: rat) ^ ?a"
    and D: "(2 :: rat) ^ (?b - 1) \<le> of_int d" "of_int d < (2 :: rat) ^ ?b"
    using n d by (simp_all add: of_nat_nat)
  have up: "q < pow2 (int ?a - int (?b - 1))"
    unfolding q pow2_diff by (rule frac_less) (use N D n in simp_all)
  have lo: "pow2 (int (?a - 1) - int ?b) \<le> q"
    unfolding q pow2_diff by (rule frac_le) (use N D d n in simp_all)
  show "pow2 (exponent q) \<le> q" "q < pow2 (exponent q + 1)"
    using up lo ab by (auto simp: exponent_def nd Let_def of_nat_diff algebra_simps)
qed

lemma exponent_eq:
  assumes "pow2 k \<le> q" and "q < pow2 (k + 1)"
  shows "exponent q = k"
proof -
  have "0 < q" using assms(1) pow2_pos by (rule less_le_trans [rotated])
  note b = exponent_bounds [OF this]
  have "pow2 k < pow2 (exponent q + 1)" "pow2 (exponent q) < pow2 (k + 1)"
    using assms b by linarith+
  then show ?thesis by (simp add: pow2_less)
qed

text \<open>Rounding, when the number is already scaled: \<open>m + r\<close> with an integer \<open>m\<close> and \<open>r\<close> below one.\<close>

lemma dbl_round:
  assumes "pow2 k \<le> x" and "x < pow2 (k + 1)" and "x * pow2 (52 - k) = of_int m + r"
    and "0 \<le> r" and "r < 1"
  shows "dbl x = of_int (if r < 1 / 2 then m else if 1 / 2 < r then m + 1
      else if even m then m else m + 1) / pow2 (52 - k)"
proof -
  have x: "0 < x" using assms(1) pow2_pos [of k] by linarith
  have "\<lfloor>of_int m + r\<rfloor> = m" using assms(4,5) by (simp add: floor_unique)
  then have "round_half_even (x * pow2 (52 - k)) =
      (if r < 1 / 2 then m else if 1 / 2 < r then m + 1 else if even m then m else m + 1)"
    by (simp add: round_half_even_def Let_def assms(3))
  then show ?thesis
    using x exponent_eq [OF assms(1,2)] by (simp add: dbl_def Let_def)
qed

section \<open>Exact results and order\<close>

lemma pow2_add: "pow2 (i + j) = pow2 i * pow2 j"
proof -
  have "(of_rat (pow2 (i + j)) :: real) = of_rat (pow2 i * pow2 j)"
    by (simp add: of_rat_mult pow2_powr powr_add)
  then show ?thesis by simp
qed

lemma pow2_int: "0 \<le> i \<Longrightarrow> pow2 i = of_int (2 ^ nat i)"
  by (simp add: pow2_def)

lemma round_half_even_int [simp]: "round_half_even (of_int z) = z"
  by (simp add: round_half_even_def Let_def)

lemma round_half_even_le:
  assumes "y \<le> of_int z"
  shows "round_half_even y \<le> z"
proof (cases "\<lfloor>y\<rfloor> = z")
  case True
  then have "y = of_int z" using assms by linarith
  then show ?thesis by simp
next
  case False
  then have "\<lfloor>y\<rfloor> + 1 \<le> z" using assms by linarith
  then show ?thesis by (simp add: round_half_even_def Let_def)
qed

lemma round_half_even_nonneg: "0 \<le> y \<Longrightarrow> 0 \<le> round_half_even y"
  by (auto simp: round_half_even_def Let_def)

lemma dbl_nonneg: "0 \<le> x \<Longrightarrow> 0 \<le> dbl x"
  by (auto simp: dbl_def Let_def less_imp_le round_half_even_nonneg)

text \<open>A number is exact when rounding leaves it alone, that is when its scaling is an integer.\<close>

lemma exact_scaled:
  assumes "0 < x" and "dbl x = x"
  shows "x * pow2 (52 - exponent x) = of_int (round_half_even (x * pow2 (52 - exponent x)))"
proof -
  have "of_int (round_half_even (x * pow2 (52 - exponent x))) / pow2 (52 - exponent x) = x"
    using assms by (simp add: dbl_def Let_def)
  then show ?thesis using pow2_pos [of "52 - exponent x"] by (simp add: field_simps)
qed

lemma scaled_exact:
  assumes "0 < x" and "x * pow2 (52 - exponent x) = of_int z"
  shows "dbl x = x"
proof -
  have "pow2 (52 - exponent x) \<noteq> 0" using pow2_pos [of "52 - exponent x"] by linarith
  then have "of_int z / pow2 (52 - exponent x) = x" by (simp flip: assms(2))
  then show ?thesis using assms by (simp add: dbl_def Let_def)
qed

lemma dbl_int:
  assumes "0 \<le> n" and "n < 2 ^ 53"
  shows "dbl (of_int n) = of_int n"
proof (cases "n = 0")
  case False
  let ?x = "of_int n :: rat"
  have x: "0 < ?x" using False assms(1) by simp
  have "?x < of_int (2 ^ 53)" using assms(2) by (simp only: of_int_less_iff)
  then have "pow2 (exponent ?x) < pow2 53"
    using exponent_bounds(1) [OF x] by (simp add: pow2_def)
  then have "0 \<le> 52 - exponent ?x" by (simp add: pow2_less)
  then have "?x * pow2 (52 - exponent ?x) = of_int (n * 2 ^ nat (52 - exponent ?x))"
    by (simp add: pow2_int)
  then show ?thesis using scaled_exact [OF x] by blast
qed (simp add: dbl_def)

lemma dbl_le:
  assumes "0 \<le> x" and "x \<le> y" and "dbl y = y"
  shows "dbl x \<le> y"
proof (cases "x = 0")
  case False
  then have x: "0 < x" and y: "0 < y" using assms by auto
  let ?e = "exponent x" and ?e' = "exponent y"
  have "pow2 ?e < pow2 (?e' + 1)"
    using exponent_bounds(1) [OF x] exponent_bounds(2) [OF y] assms(2) by linarith
  then have le: "0 \<le> ?e' - ?e" by (simp add: pow2_less)
  obtain z where z: "y * pow2 (52 - ?e') = of_int z" using exact_scaled [OF y assms(3)] by blast
  have "y * pow2 (52 - ?e) = y * pow2 (52 - ?e') * pow2 (?e' - ?e)"
    by (simp add: pow2_add [symmetric] mult.assoc)
  also have "\<dots> = of_int (z * 2 ^ nat (?e' - ?e))" using z le by (simp add: pow2_int)
  finally have Z: "y * pow2 (52 - ?e) = of_int (z * 2 ^ nat (?e' - ?e))" .
  have "x * pow2 (52 - ?e) \<le> y * pow2 (52 - ?e)"
    using assms(2) by (simp add: less_imp_le mult_right_mono)
  then have "round_half_even (x * pow2 (52 - ?e)) \<le> z * 2 ^ nat (?e' - ?e)"
    unfolding Z by (rule round_half_even_le)
  then have "(of_int (round_half_even (x * pow2 (52 - ?e))) :: rat) \<le> of_int (z * 2 ^ nat (?e' - ?e))"
    by (simp only: of_int_le_iff)
  then have "of_int (round_half_even (x * pow2 (52 - ?e))) \<le> y * pow2 (52 - ?e)"
    unfolding Z .
  then show ?thesis
    using x pow2_pos [of "52 - ?e"] by (simp add: dbl_def Let_def pos_divide_le_eq)
qed (use assms in \<open>simp add: dbl_def\<close>)

section \<open>Error and order of rounding\<close>

lemma round_half_even_error: "\<bar>of_int (round_half_even y) - y\<bar> \<le> 1 / 2"
proof -
  have "of_int \<lfloor>y\<rfloor> \<le> y" "y < of_int \<lfloor>y\<rfloor> + 1" by linarith+
  then show ?thesis by (simp add: round_half_even_def Let_def abs_le_iff)
qed

lemma round_half_even_mono: "x \<le> y \<Longrightarrow> round_half_even x \<le> round_half_even y"
proof -
  assume xy: "x \<le> y"
  show ?thesis
  proof (cases "\<lfloor>x\<rfloor> = \<lfloor>y\<rfloor>")
    case True
    then show ?thesis using xy by (auto simp: round_half_even_def Let_def)
  next
    case False
    then have "\<lfloor>x\<rfloor> + 1 \<le> \<lfloor>y\<rfloor>" using floor_mono [OF xy] by linarith
    then show ?thesis by (auto simp: round_half_even_def Let_def)
  qed
qed

lemma dbl_minus: "dbl (- x) = - dbl x"
  by (simp add: dbl_def Let_def)

lemma dbl_pos: "0 < x \<Longrightarrow> dbl x = of_int (round_half_even (x * pow2 (52 - exponent x))) / pow2 (52 - exponent x)"
  by (simp add: dbl_def Let_def)

lemma pow2_52: "pow2 (52 - k) * pow2 k = 2 ^ 52"
  using pow2_add [of "52 - k" k] by (simp add: pow2_def)

lemma dbl_error_pos:
  assumes "0 < x"
  shows "\<bar>dbl x - x\<bar> \<le> x / 2 ^ 53"
proof -
  let ?s = "pow2 (52 - exponent x)"
  have s: "0 < ?s" by simp
  have "\<bar>of_int (round_half_even (x * ?s)) - x * ?s\<bar> \<le> 1 / 2"
    by (rule round_half_even_error)
  moreover have "dbl x - x = (of_int (round_half_even (x * ?s)) - x * ?s) / ?s"
    using less_imp_neq [OF s] by (simp add: dbl_pos [OF assms] diff_divide_distrib)
  ultimately have "\<bar>dbl x - x\<bar> \<le> 1 / 2 / ?s"
    using s by (simp only: abs_divide abs_of_pos) (rule divide_right_mono, simp_all add: less_imp_le)
  moreover have "2 ^ 52 \<le> x * ?s"
    using pow2_52 [of "exponent x"] exponent_bounds(1) [OF assms] s
    by (metis mult.commute mult_left_mono less_imp_le)
  then have "1 / 2 / ?s \<le> x / 2 ^ 53"
    using s by (simp add: field_simps)
  ultimately show ?thesis by linarith
qed

lemma dbl_error: "\<bar>dbl x - x\<bar> \<le> \<bar>x\<bar> / 2 ^ 53"
proof (cases "x = 0")
  case False
  then consider "0 < x" | "0 < - x" by linarith
  then show ?thesis
    using dbl_error_pos [of x] dbl_error_pos [of "- x"] by cases (simp_all add: dbl_minus)
qed (simp add: dbl_def)

text \<open>What is between powers of two is rounded to what is between them.\<close>

lemma dbl_pow2: "dbl (pow2 k) = pow2 k"
proof -
  have k: "exponent (pow2 k) = k" by (rule exponent_eq) (simp_all add: pow2_less)
  have "pow2 k * pow2 (52 - exponent (pow2 k)) = of_int (2 ^ 52)"
    using pow2_52 [of k] by (simp add: k mult.commute)
  then show ?thesis by (intro scaled_exact) simp_all
qed

lemma dbl_mono:
  assumes "0 \<le> x" and "x \<le> y"
  shows "dbl x \<le> dbl y"
proof (cases "x = 0")
  case False
  then have x: "0 < x" and y: "0 < y" using assms by auto
  have e: "exponent x \<le> exponent y"
  proof -
    have "pow2 (exponent x) < pow2 (exponent y + 1)"
      using exponent_bounds(1) [OF x] exponent_bounds(2) [OF y] assms(2) by linarith
    then show ?thesis by (simp add: pow2_less)
  qed
  show ?thesis
  proof (cases "exponent x = exponent y")
    case True
    then show ?thesis
      using assms(2) by (simp add: dbl_pos x y divide_right_mono round_half_even_mono mult_right_mono less_imp_le)
  next
    case False
    have "x \<le> pow2 (exponent y)"
    proof -
      have "exponent x + 1 \<le> exponent y" using False e by linarith
      then have "pow2 (exponent x + 1) \<le> pow2 (exponent y)"
        by (cases "exponent x + 1 = exponent y") (simp_all add: pow2_less less_imp_le)
      then show ?thesis using exponent_bounds(2) [OF x] by linarith
    qed
    then have "dbl x \<le> pow2 (exponent y)" by (rule dbl_le [OF assms(1) _ dbl_pow2])
    also have "\<dots> \<le> dbl y"
    proof -
      let ?s = "pow2 (52 - exponent y)"
      have "0 \<le> ?s" by (simp add: less_imp_le)
      then have "pow2 (exponent y) * ?s \<le> y * ?s"
        by (rule mult_right_mono [OF exponent_bounds(1) [OF y]])
      then have "of_int (2 ^ 52) \<le> y * ?s"
        using pow2_52 [of "exponent y"] by (simp only: mult.commute of_int_power of_int_numeral)
      then have "round_half_even (of_int (2 ^ 52)) \<le> round_half_even (y * ?s)"
        by (rule round_half_even_mono)
      then have "(of_int (2 ^ 52) :: rat) \<le> of_int (round_half_even (y * ?s))"
        by (simp only: round_half_even_int of_int_le_iff)
      then have "pow2 (exponent y) * ?s \<le> of_int (round_half_even (y * ?s))"
        using pow2_52 [of "exponent y"] by (simp add: mult.commute)
      then show ?thesis by (simp add: dbl_pos [OF y] pos_le_divide_eq)
    qed
    finally show ?thesis .
  qed
qed (use assms dbl_nonneg [of y] in \<open>simp add: dbl_def [of 0]\<close>)

end
