(* ===== verification/Beatmap_Table.thy ===== *)
theory Beatmap_Table
  imports Comments Java_Double
begin

text \<open>
  The table of beatmaps on the server: the request (\<open>shared/BeatmapRangeRequest\<close> and the classes it is
  made of), and \<open>server/BeatmapTableServiceImpl\<close>, which filters all beatmaps, sorts what is left, cuts
  out a page and caches the selections; with the paging of \<open>rest/BeatmapTableResource\<close>.

  Everything that can be \<open>null\<close> in the program and matters is an option. The formulas of the osu! API
  library (circle size, speed and length under mods, the codes of ranked and approved) and the pp
  calculator are parameters. Texts are compared in ASCII lower case.
\<close>

section \<open>The request\<close>

record min_max =
  mm_min :: "int option"
  mm_max :: "int option"

datatype sort_column = EXPECTED | PERFECT | BPM | LENGTH | STAR_DIFF

record searches =
  searchText :: "string option"
  searchComment :: "string option"
  beatmapId :: "int option"
  setId :: "int option"

text \<open>\<open>BeatmapFilter\<close>; in a request any of its objects can be missing.\<close>

record ('m, 's) beatmap_filter =
  sortBy :: "sort_column option"
  direction :: int
  filter_searches :: 's
  expectedPP :: 'm
  perfectPP :: 'm
  aR :: 'm
  cS :: 'm
  oD :: 'm
  bpm :: 'm
  mapLength :: 'm
  starDiff :: 'm
  rankedOnly :: bool

type_synonym full_filter = "(min_max, searches) beatmap_filter"

record range_request = "(min_max option, searches option) beatmap_filter" +
  request_start :: int
  request_length :: int
  loadedUserRequest :: bool

record filter_settings =
  applyOtherFiltersWithTextFilter :: bool
  lowAccuracy :: rat
  highAccuracy :: rat

definition new_min_max :: "min_max option \<Rightarrow> min_max" where
  "new_min_max m = (case m of None \<Rightarrow> \<lparr>mm_min = None, mm_max = None\<rparr>
     | Some m \<Rightarrow> \<lparr>mm_min = mm_min m, mm_max = mm_max m\<rparr>)"

definition new_searches :: "searches option \<Rightarrow> searches" where
  "new_searches s = (case s of
       None \<Rightarrow> \<lparr>searchText = Some [], searchComment = Some [], beatmapId = None, setId = None\<rparr>
     | Some s \<Rightarrow> \<lparr>searchText = searchText s, searchComment = searchComment s,
         beatmapId = beatmapId s, setId = setId s\<rparr>)"

definition new_filter :: "(min_max option, searches option, 'z) beatmap_filter_scheme \<Rightarrow> full_filter" where
  "new_filter r =
     \<lparr>sortBy = sortBy r, direction = direction r, filter_searches = new_searches (filter_searches r),
      expectedPP = new_min_max (expectedPP r), perfectPP = new_min_max (perfectPP r),
      aR = new_min_max (aR r), cS = new_min_max (cS r), oD = new_min_max (oD r),
      bpm = new_min_max (bpm r), mapLength = new_min_max (mapLength r),
      starDiff = new_min_max (starDiff r), rankedOnly = rankedOnly r\<rparr>"

definition nonNullTrimmed :: "string option \<Rightarrow> string" where
  "nonNullTrimmed s = (case s of None \<Rightarrow> [] | Some t \<Rightarrow> trim t)"

text \<open>\<open>Settings.setLowAccuracy\<close> and \<open>setHighAccuracy\<close> check their bounds.\<close>

definition checkBounds :: "rat \<Rightarrow> rat \<Rightarrow> rat \<Rightarrow> rat option" where
  "checkBounds v lower upper = (if v < lower \<or> v > upper then None else Some v)"

definition setLowAccuracy :: "rat \<Rightarrow> filter_settings \<Rightarrow> filter_settings option" where
  "setLowAccuracy v s = map_option (\<lambda>x. s\<lparr>lowAccuracy := x\<rparr>) (checkBounds v 17 (highAccuracy s))"

definition setHighAccuracy :: "rat \<Rightarrow> filter_settings \<Rightarrow> filter_settings option" where
  "setHighAccuracy v s = map_option (\<lambda>x. s\<lparr>highAccuracy := x\<rparr>) (checkBounds v (lowAccuracy s) 100)"

section \<open>Beatmaps\<close>

record api_beatmap =
  b_id :: int
  b_set :: int
  b_length :: int
  b_artist :: string
  b_title :: string
  b_version :: string
  b_bpm :: rat
  b_circleSize :: rat
  b_approved :: int

record estimates =
  e_mods :: int
  e_pp :: "rat \<Rightarrow> rat"
  e_star :: rat
  e_ar :: rat
  e_od :: rat

type_synonym beatmap_data = "estimates \<times> api_beatmap"

text \<open>The osu! API library.\<close>

record osu_lib =
  calcCircleSize :: "rat \<Rightarrow> int \<Rightarrow> rat"
  calcBpm :: "rat \<Rightarrow> int \<Rightarrow> rat"
  calcTotalLength :: "int \<Rightarrow> int \<Rightarrow> int"
  RANKED :: int
  APPROVED :: int

section \<open>The search\<close>

text \<open>\<open>s.contains(t)\<close>\<close>

fun contains :: "string \<Rightarrow> string \<Rightarrow> bool" where
  "contains [] t \<longleftrightarrow> t = []"
| "contains (c # s) t \<longleftrightarrow> startsWith (c # s) t \<or> contains s t"

definition below :: "rat \<Rightarrow> int option \<Rightarrow> bool" where
  "below v m \<longleftrightarrow> (case m of None \<Rightarrow> False | Some x \<Rightarrow> v < of_int x)"

definition above :: "rat \<Rightarrow> int option \<Rightarrow> bool" where
  "above v m \<longleftrightarrow> (case m of None \<Rightarrow> False | Some x \<Rightarrow> v > of_int x)"

definition text_needle :: "full_filter \<Rightarrow> string option" where
  "text_needle f =
     (let t = nonNullTrimmed (searchText (filter_searches f))
      in if t \<noteq> [] then Some (to_lower (trim t)) else None)"

definition comment_needle :: "full_filter \<Rightarrow> string list option option \<Rightarrow> string option" where
  "comment_needle f comments =
     (let t = nonNullTrimmed (searchComment (filter_searches f))
      in if comments \<noteq> None \<and> t \<noteq> [] then Some (to_lower t) else None)"

text \<open>The range filters, in the order of the code; true when the beatmap is skipped.\<close>

definition skip_by_ranges :: "osu_lib \<Rightarrow> full_filter \<Rightarrow> filter_settings \<Rightarrow> beatmap_data \<Rightarrow> bool" where
  "skip_by_ranges lib f s d =
     (let (e, b) = d;
          ar = dbl (e_ar e * 100);
          od = dbl (e_od e * 100);
          cs = dbl (calcCircleSize lib (b_circleSize b) (e_mods e) * 100);
          high = e_pp e (dbl (highAccuracy s / 100));
          low = e_pp e (dbl (lowAccuracy s / 100));
          speed = calcBpm lib (b_bpm b) (e_mods e);
          len = of_int (calcTotalLength lib (b_length b) (e_mods e));
          star = dbl (e_star e * 100)
      in below ar (mm_min (aR f)) \<or> above ar (mm_max (aR f))
       \<or> below od (mm_min (oD f)) \<or> above od (mm_max (oD f))
       \<or> below cs (mm_min (cS f)) \<or> above cs (mm_max (cS f))
       \<or> below high (mm_min (perfectPP f)) \<or> above high (mm_max (perfectPP f))
       \<or> below low (mm_min (expectedPP f)) \<or> above low (mm_max (expectedPP f))
       \<or> below speed (mm_min (bpm f)) \<or> above speed (mm_max (bpm f))
       \<or> below len (mm_min (mapLength f)) \<or> above len (mm_max (mapLength f))
       \<or> below star (mm_min (starDiff f)) \<or> above star (mm_max (starDiff f))
       \<or> (rankedOnly f \<and> b_approved b \<noteq> RANKED lib \<and> b_approved b \<noteq> APPROVED lib))"

definition long_title :: "api_beatmap \<Rightarrow> string" where
  "long_title b = b_artist b @ '' - '' @ b_title b @ '' ['' @ b_version b @ '']''"

definition comment_matches :: "string \<Rightarrow> comment option \<Rightarrow> bool" where
  "comment_matches needle c =
     (case c of
        None \<Rightarrow> False
      | Some c \<Rightarrow> needle = ''*'' \<or> contains (to_lower (comment_text c)) needle)"

text \<open>The body of the loop: whether a beatmap is added to the selection.\<close>

definition selects ::
  "osu_lib \<Rightarrow> full_filter \<Rightarrow> filter_settings \<Rightarrow> string list option option \<Rightarrow> beatmap_data \<Rightarrow> bool result" where
  "selects lib f s comments d =
     (let (e, b) = d;
          tn = text_needle f;
          cn = comment_needle f comments;
          use_ranges = (tn = None \<and> cn = None) \<or> applyOtherFiltersWithTextFilter s
      in if (case beatmapId (filter_searches f) of None \<Rightarrow> False | Some i \<Rightarrow> b_id b \<noteq> i) then Inr False
         else if (case setId (filter_searches f) of None \<Rightarrow> False | Some i \<Rightarrow> b_set b \<noteq> i) then Inr False
         else if (case tn of None \<Rightarrow> False | Some t \<Rightarrow> \<not> contains (to_lower (long_title b)) t) then Inr False
         else
           bind_result
             (case cn of
                None \<Rightarrow> Inr True
              | Some t \<Rightarrow> bind_result (getComment (the comments) (b_id b) (e_mods e))
                            (\<lambda>c. Inr (comment_matches t c)))
             (\<lambda>ok. Inr (ok \<and> \<not> (use_ranges \<and> skip_by_ranges lib f s d))))"

fun search_loop :: "('d \<Rightarrow> bool result) \<Rightarrow> 'd list \<Rightarrow> 'd list result" where
  "search_loop keep [] = Inr []"
| "search_loop keep (d # ds) =
     bind_result (keep d) (\<lambda>k.
     bind_result (search_loop keep ds) (\<lambda>r. Inr (if k then d # r else r)))"

section \<open>Sorting\<close>

definition sort_property :: "osu_lib \<Rightarrow> sort_column \<Rightarrow> filter_settings \<Rightarrow> beatmap_data \<Rightarrow> rat" where
  "sort_property lib c s d =
     (let (e, b) = d
      in case c of
           EXPECTED \<Rightarrow> e_pp e (dbl (lowAccuracy s / 100))
         | PERFECT \<Rightarrow> e_pp e (dbl (highAccuracy s / 100))
         | BPM \<Rightarrow> calcBpm lib (b_bpm b) (e_mods e)
         | LENGTH \<Rightarrow> of_int (calcTotalLength lib (b_length b) (e_mods e))
         | STAR_DIFF \<Rightarrow> e_star e)"

text \<open>\<open>sortedView\<close> sorts the positions by the values of the property, with the stable sort of
  \<open>Arrays.sort\<close>, and looks the elements up by position.\<close>

definition sortedView :: "'d list \<Rightarrow> ('d \<Rightarrow> rat) \<Rightarrow> 'd list" where
  "sortedView selection property =
     (let values = map property selection;
          positions = sort_key (\<lambda>i. values ! i) [0..<length selection]
      in map (\<lambda>i. selection ! i) positions)"

definition sort_selection ::
  "osu_lib \<Rightarrow> full_filter \<Rightarrow> filter_settings \<Rightarrow> beatmap_data list \<Rightarrow> beatmap_data list" where
  "sort_selection lib f s selection =
     (case sortBy f of
        None \<Rightarrow> selection
      | Some c \<Rightarrow>
          sortedView selection (\<lambda>d. dbl (of_int (direction f) * sort_property lib c s d)))"

definition executeBeatmapSearch ::
  "osu_lib \<Rightarrow> full_filter \<Rightarrow> filter_settings \<Rightarrow> string list option option \<Rightarrow> beatmap_data list option
     \<Rightarrow> beatmap_data list result" where
  "executeBeatmapSearch lib f s comments beatmaps =
     (case beatmaps of
        None \<Rightarrow> Inl (PpaddictError ''The server is restarting or something.'')
      | Some ds \<Rightarrow>
          bind_result (search_loop (selects lib f s comments) ds)
            (\<lambda>selection. Inr (sort_selection lib f s selection)))"

end
