(* ===== verification/Beatmap_Paging.thy ===== *)
theory Beatmap_Paging
  imports Beatmap_Table
begin

text \<open>
  What \<open>BeatmapTableServiceImpl\<close> sends to the page: \<open>makeBundle\<close> cuts a page out of a selection,
  \<open>makeBeatmap\<close> fills a row, \<open>ago\<close> words the age of a comment; and how \<open>BeatmapTableResource.execute\<close>
  asks for the next page. An \<open>int\<close> sum wraps around at 32 bits.
\<close>

section \<open>Pages\<close>

text \<open>The loop of \<open>makeBundle\<close>: \<open>x\<close> counts the elements, the loop ends when the page is full.\<close>

fun bundle_loop :: "int \<Rightarrow> int \<Rightarrow> int \<Rightarrow> 'd list \<Rightarrow> int \<Rightarrow> 'd list \<Rightarrow> 'd list" where
  "bundle_loop avail start len acc x [] = acc"
| "bundle_loop avail start len acc x (d # ds) =
     (let acc' = (if x \<ge> min avail start then acc @ [d] else acc)
      in if int (length acc') \<ge> len then acc' else bundle_loop avail start len acc' (x + 1) ds)"

definition page_items :: "int \<Rightarrow> int \<Rightarrow> 'd list \<Rightarrow> 'd list" where
  "page_items start len selection = bundle_loop (int (length selection)) start len [] 0 selection"

text \<open>The page that \<open>execute\<close> renders, and where its last row loads the next one from.\<close>

definition next_start :: "int \<Rightarrow> int \<Rightarrow> 'd list \<Rightarrow> int option" where
  "next_start start len selection =
     (let nextStart = int32 (start + len)
      in if nextStart < int (length selection) then Some nextStart else None)"

text \<open>The buttons of the pager: a page start, when the button is enabled.\<close>

definition pageButton :: "int \<Rightarrow> int \<Rightarrow> int \<Rightarrow> int option" where
  "pageButton pageStart start available =
     (if pageStart \<ge> 0 \<and> pageStart < available \<and> pageStart \<noteq> start then Some pageStart else None)"

definition pager :: "int \<Rightarrow> int \<Rightarrow> int \<Rightarrow> int option list" where
  "pager start len available =
     [pageButton 0 start available,
      pageButton (max 0 (int32 (start - len))) start available,
      pageButton (int32 (start + len)) start available,
      pageButton (int32 (start + int32 (10 * len))) start available,
      pageButton (int32 (available - len)) start available]"

text \<open>The headers of the columns: clicking one sorts downwards, then upwards, then not at all.\<close>

definition next_sort :: "sort_column \<Rightarrow> sort_column option \<Rightarrow> int \<Rightarrow> sort_column option \<times> int option" where
  "next_sort col currentSort ss =
     (let isActive = (currentSort = Some col);
          nextDirection = (if isActive then (if ss = 1 then Some (-1) else None) else Some 1)
      in (if nextDirection \<noteq> None then Some col else None, nextDirection))"

section \<open>\<open>ago\<close>\<close>

text \<open>The units, longest first, in milliseconds.\<close>

definition ago_units :: "(int \<times> string) list" where
  "ago_units =
     [(365 * 24 * 60 * 60 * 1000, ''year''), (30 * 24 * 60 * 60 * 1000, ''month''),
      (7 * 24 * 60 * 60 * 1000, ''week''), (24 * 60 * 60 * 1000, ''day''),
      (60 * 60 * 1000, ''hour''), (60 * 1000, ''minute''), (1000, ''second'')]"

definition ago_text :: "int \<Rightarrow> string \<Rightarrow> string" where
  "ago_text v u =
     (if v = 1 then (if u = ''hour'' then ''an'' else ''a'') else show_int v)
     @ '' '' @ u @ (if v > 1 then ''s'' else []) @ '' ago''"

fun ago_loop :: "int \<Rightarrow> (int \<times> string) list \<Rightarrow> string" where
  "ago_loop diff [] = ''a moment ago''"
| "ago_loop diff ((k, u) # us) = (if diff > k then ago_text (diff div k) u else ago_loop diff us)"

definition ago :: "int \<Rightarrow> int \<Rightarrow> string" where
  "ago now time = ago_loop (now - time) ago_units"

section \<open>Rows\<close>

record beatmap_row =
  title :: string
  artist :: string
  version :: string
  beatmapid :: int
  setid :: int
  approachRate :: rat
  circleSize :: rat
  overallDiff :: rat
  row_bpm :: rat
  row_length :: int
  lowPP :: rat
  highPP :: rat
  starDifficulty :: rat
  row_mods :: "string option"
  personalization :: "(string \<times> string) option"

text \<open>\<open>comments\<close> is \<open>None\<close> without login; the library names the mods.\<close>

definition makeBeatmap ::
  "osu_lib \<Rightarrow> (int \<Rightarrow> string) \<Rightarrow> int \<Rightarrow> filter_settings \<Rightarrow> string list option option \<Rightarrow> beatmap_data
     \<Rightarrow> beatmap_row result" where
  "makeBeatmap lib toShortNames now s comments d =
     (let (e, b) = d; mods = e_mods e
      in bind_result
           (case comments of None \<Rightarrow> Inr None | Some cs \<Rightarrow> getComment cs (b_id b) mods)
           (\<lambda>c. Inr
             \<lparr>title = b_title b, artist = b_artist b, version = b_version b,
              beatmapid = b_id b, setid = b_set b, approachRate = e_ar e,
              circleSize = calcCircleSize lib (b_circleSize b) mods, overallDiff = e_od e,
              row_bpm = calcBpm lib (b_bpm b) mods,
              row_length = calcTotalLength lib (b_length b) mods,
              lowPP = e_pp e (dbl (lowAccuracy s / 100)),
              highPP = e_pp e (dbl (highAccuracy s / 100)),
              starDifficulty = e_star e,
              row_mods = (if mods \<noteq> 0 then (if mods = -1 then Some ''?'' else Some (toShortNames mods))
                          else None),
              personalization = map_option (\<lambda>c. (comment_text c, ago now (comment_date c))) c\<rparr>))"

fun traverse :: "('a \<Rightarrow> 'b result) \<Rightarrow> 'a list \<Rightarrow> 'b list result" where
  "traverse f [] = Inr []"
| "traverse f (x # xs) = bind_result (f x) (\<lambda>y. bind_result (traverse f xs) (\<lambda>ys. Inr (y # ys)))"

text \<open>\<open>makeBundle\<close>: the number of available beatmaps and the rows of the page, in order.\<close>

definition makeBundle ::
  "osu_lib \<Rightarrow> (int \<Rightarrow> string) \<Rightarrow> int \<Rightarrow> filter_settings \<Rightarrow> string list option option \<Rightarrow> range_request
     \<Rightarrow> beatmap_data list \<Rightarrow> (nat \<times> beatmap_row list) result" where
  "makeBundle lib toShortNames now s comments r selection =
     bind_result
       (traverse (makeBeatmap lib toShortNames now s comments)
          (page_items (request_start r) (request_length r) selection))
       (\<lambda>rows. Inr (length selection, rows))"

section \<open>Which part of the selection a page is\<close>

lemma bundle_loop_take:
  assumes "int (length acc) < len" and "0 \<le> x" "0 \<le> start"
    and "int (length ds) + x = avail" and "acc = [] \<or> min avail start \<le> x"
  shows "bundle_loop avail start len acc x ds =
    acc @ take (nat len - length acc) (drop (nat (min avail start - x)) ds)"
  using assms
proof (induction ds arbitrary: acc x)
  case (Cons d ds)
  show ?case
  proof (cases "min avail start \<le> x")
    case True
    define acc' where "acc' = acc @ [d]"
    have d: "drop (nat (min avail start - x)) (d # ds) = d # ds" using True by simp
    have t: "take (nat len - length acc) (d # ds) = d # take (nat len - length acc') ds"
    proof -
      have "nat len - length acc = Suc (nat len - length acc')" using Cons.prems(1) by (simp add: acc'_def)
      then show ?thesis by simp
    qed
    show ?thesis
    proof (cases "int (length acc') \<ge> len")
      case full: True
      then have "nat len - length acc' = 0" by simp
      then show ?thesis using True full t d by (simp add: Let_def acc'_def)
    next
      case False
      have "bundle_loop avail start len acc' (x + 1) ds =
          acc' @ take (nat len - length acc') (drop (nat (min avail start - (x + 1))) ds)"
        by (rule Cons.IH) (use Cons.prems False True in \<open>auto simp: acc'_def\<close>)
      then show ?thesis using True False t d by (simp add: Let_def acc'_def)
    qed
  next
    case False
    then have acc: "acc = []" using Cons.prems(5) by auto
    have "bundle_loop avail start len [] (x + 1) ds =
        [] @ take (nat len - length ([] :: 'a list)) (drop (nat (min avail start - (x + 1))) ds)"
      by (rule Cons.IH) (use Cons.prems False acc in auto)
    moreover have "nat (min avail start - x) = Suc (nat (min avail start - (x + 1)))"
      using False by linarith
    ultimately show ?thesis using False Cons.prems(1) acc by (simp add: Let_def)
  qed
qed simp

lemma bundle_take:
  assumes "0 \<le> start" and "1 \<le> len"
  shows "page_items start len sel = take (nat len) (drop (nat start) sel)"
proof -
  have "page_items start len sel = take (nat len) (drop (nat (min (int (length sel)) start)) sel)"
    unfolding page_items_def using bundle_loop_take [of "[]" len 0 start sel "int (length sel)"] assms by simp
  then show ?thesis by (cases "int (length sel) \<le> start") (simp_all add: min_def)
qed

text \<open>Loading page after page, as the page does while it is scrolled to its last row.\<close>

function scroll :: "int \<Rightarrow> int \<Rightarrow> 'd list \<Rightarrow> 'd list" where
  "scroll start len selection =
     page_items start len selection @
     (case next_start start len selection of
        None \<Rightarrow> []
      | Some s \<Rightarrow> if s \<le> start then [] else scroll s len selection)"
  by pat_completeness auto

termination
  by (relation "measure (\<lambda>(start, len, sel). nat (int (length sel) - start))")
    (auto simp: next_start_def Let_def split: if_splits)

declare scroll.simps [simp del]

lemma scroll_drop:
  assumes "0 \<le> start" and "1 \<le> len" and "int (length sel) + len < 2 ^ 31" and "start \<le> int (length sel)"
  shows "scroll start len sel = drop (nat start) sel"
  using assms
proof (induction start len sel rule: scroll.induct)
  case (1 start len sel)
  have i: "int32 (start + len) = start + len" by (rule int32_id) (use 1(2-5) in auto)
  show ?case
  proof (cases "start + len < int (length sel)")
    case True
    have "scroll (start + len) len sel = drop (nat (start + len)) sel"
      by (rule 1(1)) (use 1(2-5) True i in \<open>auto simp: next_start_def Let_def\<close>)
    moreover have "drop (nat (start + len)) sel = drop (nat len) (drop (nat start) sel)"
      using 1(2,3) by (simp add: nat_add_distrib add.commute)
    ultimately show ?thesis
      using 1(2,3) True i
      by (subst scroll.simps) (simp add: next_start_def Let_def bundle_take del: drop_drop)
  next
    case False
    then have "length (drop (nat start) sel) \<le> nat len" by auto
    then show ?thesis
      using 1(2,3) False i by (subst scroll.simps) (simp add: next_start_def Let_def bundle_take)
  qed
qed

text \<open>C24. Scrolling through the table shows every selected beatmap exactly once and in order: the pages
  loaded one after the other from the first, each where the one before says, make up the whole
  selection; and a page asked for beyond the end of the selection is empty.\<close>

theorem scroll_shows_all:
  assumes "1 \<le> len" and "int (length sel) + len < 2 ^ 31"
  shows "scroll 0 len sel = sel \<and>
    (\<forall>start \<ge> int (length sel). page_items start len sel = [])"
  using assms scroll_drop [of 0 len sel] by (auto simp: bundle_take)

section \<open>\<open>ago\<close> and the sort buttons\<close>

text \<open>The age of a comment is worded in the longest unit that fits: more than the unit has passed,
  the count is right, at least one, in the singular exactly when it is one; up to a second it is
  just now.\<close>

lemma ago_longest_unit:
  "(now - time \<le> 1000 \<longrightarrow> ago now time = ''a moment ago'') \<and>
   (1000 < now - time \<longrightarrow>
      (\<exists>k u. (k, u) \<in> set ago_units \<and> ago now time = ago_text ((now - time) div k) u
         \<and> k < now - time \<and> 1 \<le> (now - time) div k
         \<and> (\<forall>(k', u') \<in> set ago_units. k' < now - time \<longrightarrow> k' \<le> k)))"
proof -
  have loop: "\<exists>k u. (k, u) \<in> set us \<and> ago_loop d us = ago_text (d div k) u \<and> k < d
      \<and> (\<forall>(k', u') \<in> set us. k' < d \<longrightarrow> k' \<le> k)"
    if "sorted_wrt (\<lambda>x y. fst y \<le> fst x) us" "\<exists>(k, u) \<in> set us. k < d" for d us
    using that
  proof (induction us)
    case (Cons x us)
    obtain k u where x: "x = (k, u)" by (cases x)
    show ?case
    proof (cases "k < d")
      case True
      then show ?thesis using Cons.prems(1) x by (intro exI [of _ k] exI [of _ u]) auto
    next
      case False
      then have "\<exists>(k, u) \<in> set us. k < d" using Cons.prems(2) x by auto
      with Cons obtain k' u' where "(k', u') \<in> set us" "ago_loop d us = ago_text (d div k') u'" "k' < d"
        "\<forall>(k'', u'') \<in> set us. k'' < d \<longrightarrow> k'' \<le> k'" by auto
      then show ?thesis using False x by (intro exI [of _ k'] exI [of _ u']) auto
    qed
  qed simp
  have units: "sorted_wrt (\<lambda>x y. fst y \<le> fst x) ago_units" "\<forall>(k, u) \<in> set ago_units. 1000 \<le> k"
    "(1000, ''second'') \<in> set ago_units"
    by (simp_all add: ago_units_def)
  have "ago now time = ''a moment ago''" if "now - time \<le> 1000"
    using that by (simp add: ago_def ago_units_def)
  moreover have "\<exists>k u. (k, u) \<in> set ago_units \<and> ago now time = ago_text ((now - time) div k) u
         \<and> k < now - time \<and> 1 \<le> (now - time) div k
         \<and> (\<forall>(k', u') \<in> set ago_units. k' < now - time \<longrightarrow> k' \<le> k)" if "1000 < now - time"
  proof -
    have "\<exists>(k, u) \<in> set ago_units. k < now - time"
      by (rule bexI [OF _ units(3)]) (use that in simp)
    note l = loop [OF units(1) this]
    obtain k u where k: "(k, u) \<in> set ago_units" "ago now time = ago_text ((now - time) div k) u"
      "k < now - time" "\<forall>(k', u') \<in> set ago_units. k' < now - time \<longrightarrow> k' \<le> k"
      using l unfolding ago_def by blast
    have "0 < k" using units(2) k(1) by fastforce
    then have "1 \<le> (now - time) div k" using k(3) by (simp add: pos_imp_zdiv_pos_iff int_one_le_iff_zero_less)
    then show ?thesis using k by blast
  qed
  ultimately show ?thesis by blast
qed

lemma scroll_shows_all_witness: "scroll 0 2 [7, 8, 9 :: nat] = [7, 8, 9]"
  using scroll_shows_all [of 2 "[7, 8, 9 :: nat]"] by simp

lemma ago_longest_unit_witness:
  "(\<exists>k u. (k, u) \<in> set ago_units \<and> ago 5000 0 = ago_text (5000 div k) u \<and> k < 5000) \<and>
   ago 5000 0 = ''5 seconds ago'' \<and> ago 4000000 0 = ''an hour ago''"
proof -
  have "ago 5000 0 = ''5 seconds ago''" "ago 4000000 0 = ''an hour ago''" by code_simp+
  then show ?thesis using ago_longest_unit [of 5000 0] by auto
qed

end
