(* ===== verification/Beatmap_Search.thy ===== *)
theory Beatmap_Search
  imports Beatmap_Table "HOL-Library.Multiset"
begin

text \<open>
  What a search of the table finds (\<open>BeatmapTableServiceImpl.executeBeatmapSearch\<close>), stated without the
  loops: the beatmaps that satisfy every given criterion, in the stable order of the sort column; where
  the rounding of \<open>double\<close> makes a filter miss a beatmap on its bound; and the cache of selections
  (\<open>getAll\<close>) under reloads of the beatmaps and interleaved requests.
\<close>

section \<open>The criteria\<close>

lemma contains_iff: "contains s t \<longleftrightarrow> (\<exists>pre post. s = pre @ t @ post)"
proof (induction s)
  case (Cons c s)
  have "(\<exists>pre post. c # s = pre @ t @ post) \<longleftrightarrow>
      (\<exists>post. c # s = t @ post) \<or> (\<exists>pre post. s = pre @ t @ post)"
    by (auto simp: Cons_eq_append_conv)
  then show ?case using Cons by (simp add: startsWith_append)
qed simp

definition in_range :: "rat \<Rightarrow> min_max \<Rightarrow> bool" where
  "in_range v m \<longleftrightarrow> (\<forall>x. mm_min m = Some x \<longrightarrow> of_int x \<le> v) \<and> (\<forall>x. mm_max m = Some x \<longrightarrow> v \<le> of_int x)"

lemma in_range_iff: "in_range v m \<longleftrightarrow> \<not> below v (mm_min m) \<and> \<not> above v (mm_max m)"
  by (auto simp: in_range_def below_def above_def split: option.split)

definition occurs_in :: "string \<Rightarrow> string \<Rightarrow> bool" where
  "occurs_in t s \<longleftrightarrow> (\<exists>pre post. s = pre @ t @ post)"

definition ranges_ok :: "osu_lib \<Rightarrow> full_filter \<Rightarrow> filter_settings \<Rightarrow> beatmap_data \<Rightarrow> bool" where
  "ranges_ok lib f s d \<longleftrightarrow> (case d of (e, b) \<Rightarrow>
     in_range (dbl (e_ar e * 100)) (aR f) \<and> in_range (dbl (e_od e * 100)) (oD f)
     \<and> in_range (dbl (calcCircleSize lib (b_circleSize b) (e_mods e) * 100)) (cS f)
     \<and> in_range (e_pp e (dbl (highAccuracy s / 100))) (perfectPP f)
     \<and> in_range (e_pp e (dbl (lowAccuracy s / 100))) (expectedPP f)
     \<and> in_range (calcBpm lib (b_bpm b) (e_mods e)) (bpm f)
     \<and> in_range (of_int (calcTotalLength lib (b_length b) (e_mods e))) (mapLength f)
     \<and> in_range (dbl (e_star e * 100)) (starDiff f)
     \<and> (rankedOnly f \<longrightarrow> b_approved b \<in> {RANKED lib, APPROVED lib}))"

lemma skip_by_ranges_iff: "skip_by_ranges lib f s d \<longleftrightarrow> \<not> ranges_ok lib f s d"
proof -
  obtain e b where "d = (e, b)" by (cases d)
  then show ?thesis by (auto simp: skip_by_ranges_def ranges_ok_def in_range_iff Let_def)
qed

text \<open>The comment of a beatmap with mods, if the user has any.\<close>

definition user_comment :: "string list option option \<Rightarrow> beatmap_data \<Rightarrow> comment option" where
  "user_comment comments d =
     (case comments of None \<Rightarrow> None
      | Some cs \<Rightarrow> (case getComment cs (b_id (snd d)) (e_mods (fst d)) of Inl e \<Rightarrow> None | Inr c \<Rightarrow> c))"

definition wanted ::
  "osu_lib \<Rightarrow> full_filter \<Rightarrow> filter_settings \<Rightarrow> string list option option \<Rightarrow> beatmap_data \<Rightarrow> bool" where
  "wanted lib f s comments d \<longleftrightarrow>
     (\<forall>i. beatmapId (filter_searches f) = Some i \<longrightarrow> b_id (snd d) = i) \<and>
     (\<forall>i. setId (filter_searches f) = Some i \<longrightarrow> b_set (snd d) = i) \<and>
     (\<forall>t. text_needle f = Some t \<longrightarrow> occurs_in t (to_lower (long_title (snd d)))) \<and>
     (\<forall>t. comment_needle f comments = Some t \<longrightarrow>
        (\<exists>c. user_comment comments d = Some c \<and> (t = ''*'' \<or> occurs_in t (to_lower (comment_text c))))) \<and>
     ((text_needle f \<noteq> None \<or> comment_needle f comments \<noteq> None) \<and> \<not> applyOtherFiltersWithTextFilter s
        \<or> ranges_ok lib f s d)"

text \<open>Comments that can be read, and beatmaps with known mods.\<close>

definition comments_ok :: "string list option option \<Rightarrow> bool" where
  "comments_ok comments \<longleftrightarrow> (\<forall>xs. comments = Some (Some xs) \<longrightarrow> store_ok xs)"

definition known_mods :: "beatmap_data \<Rightarrow> bool" where
  "known_mods d \<longleftrightarrow> 0 \<le> e_mods (fst d) \<and> 0 \<le> b_id (snd d)"

lemma getComment_ok:
  assumes "comments_ok (Some cs)" and "known_mods d"
  shows "getComment cs (b_id (snd d)) (e_mods (fst d)) = Inr (user_comment (Some cs) d)"
proof (cases cs)
  case None
  then show ?thesis by (simp add: getComment_def user_comment_def)
next
  case (Some xs)
  then have "store_ok xs" using assms(1) by (simp add: comments_ok_def)
  from getComment_at [OF this, of "nat (b_id (snd d))" "nat (e_mods (fst d))"]
  show ?thesis using assms(2) Some by (auto simp: known_mods_def user_comment_def)
qed

lemma selects_wanted:
  assumes "comments_ok comments" and "known_mods d"
  shows "selects lib f s comments d = Inr (wanted lib f s comments d)"
proof (cases comments)
  case None
  then have "comment_needle f comments = None" by (simp add: comment_needle_def Let_def)
  then show ?thesis
    by (cases d) (auto simp: selects_def wanted_def Let_def contains_iff occurs_in_def
        skip_by_ranges_iff split: option.split)
next
  case (Some cs)
  obtain e b where d: "d = (e, b)" by (cases d)
  have g: "getComment cs (b_id b) (e_mods e) = Inr (user_comment (Some cs) (e, b))"
    using getComment_ok [of cs d] assms Some d by simp
  show ?thesis
    by (auto simp: d Some g selects_def wanted_def Let_def contains_iff occurs_in_def comment_matches_def
        skip_by_ranges_iff split: option.split)
qed

lemma search_loop_filter:
  "\<forall>d \<in> set ds. keep d = Inr (P d) \<Longrightarrow> search_loop keep ds = Inr (filter P ds)"
  by (induction ds) auto

section \<open>The sorted view\<close>

lemma insort_map: "map g (insort_key (f \<circ> g) x xs) = insort_key f (g x) (map g xs)"
  by (induction xs) auto

lemma sort_map: "map g (sort_key (f \<circ> g) xs) = sort_key f (map g xs)"
  by (induction xs) (simp_all add: sort_key_def insort_map [unfolded comp_def] comp_def)

lemma sort_key_cong_set: "\<forall>x \<in> set xs. f x = g x \<Longrightarrow> sort_key f xs = sort_key g xs"
proof -
  assume a: "\<forall>x \<in> set xs. f x = g x"
  have "sort_key f xs = sort_key g xs \<and> set (sort_key g xs) = set xs"
    using a
  proof (induction xs)
    case (Cons x xs)
    have "insort_key f x ys = insort_key g x ys" if "\<forall>y \<in> set (x # ys). f y = g y" for ys
      using that by (induction ys) auto
    then show ?case using Cons by (auto simp: set_insort_key)
  qed simp
  then show ?thesis by blast
qed

lemma sortedView_sort: "sortedView xs f = sort_key f xs"
proof -
  have "sort_key (\<lambda>i. map f xs ! i) [0..<length xs] = sort_key (f \<circ> (!) xs) [0..<length xs]"
    by (rule sort_key_cong_set) simp
  then have "sortedView xs f = map ((!) xs) (sort_key (f \<circ> (!) xs) [0..<length xs])"
    by (simp add: sortedView_def Let_def)
  also have "\<dots> = sort_key f (map ((!) xs) [0..<length xs])" by (rule sort_map)
  finally show ?thesis by (simp add: map_nth)
qed

text \<open>The value the selection is sorted by.\<close>

definition sort_value :: "osu_lib \<Rightarrow> full_filter \<Rightarrow> filter_settings \<Rightarrow> sort_column \<Rightarrow> beatmap_data \<Rightarrow> rat" where
  "sort_value lib f s c d = dbl (of_int (direction f) * sort_property lib c s d)"

text \<open>C26. A search finds exactly the beatmaps that satisfy every criterion of the request; without a
  sort column in the order of the collection, with one in the order of its values times the
  direction, beatmaps with equal values in the order of the collection. It never fails on beatmaps
  with known mods.\<close>

theorem search_finds_wanted:
  assumes "comments_ok comments" and "\<forall>d \<in> set ds. known_mods d"
  shows "\<exists>sel. executeBeatmapSearch lib f s comments (Some ds) = Inr sel
    \<and> mset sel = mset (filter (wanted lib f s comments) ds)
    \<and> (sortBy f = None \<longrightarrow> sel = filter (wanted lib f s comments) ds)
    \<and> (\<forall>c. sortBy f = Some c \<longrightarrow>
         sorted (map (sort_value lib f s c) sel) \<and>
         (\<forall>v. filter (\<lambda>d. sort_value lib f s c d = v) sel =
            filter (\<lambda>d. sort_value lib f s c d = v) (filter (wanted lib f s comments) ds)))"
proof -
  let ?w = "filter (wanted lib f s comments) ds"
  have e: "executeBeatmapSearch lib f s comments (Some ds) = Inr (sort_selection lib f s ?w)"
    using search_loop_filter [of ds "selects lib f s comments" "wanted lib f s comments"]
      selects_wanted assms by (simp add: executeBeatmapSearch_def)
  have v: "(\<lambda>d. dbl (of_int (direction f) * sort_property lib c s d)) = sort_value lib f s c" for c
    by (rule ext) (simp add: sort_value_def)
  show ?thesis
  proof (cases "sortBy f")
    case None
    then show ?thesis using e by (simp add: sort_selection_def)
  next
    case (Some c)
    then have "sort_selection lib f s ?w = sort_key (sort_value lib f s c) ?w"
      by (simp add: sort_selection_def sortedView_sort v)
    then show ?thesis
      using e Some sort_key_stable [of "sort_value lib f s c" _ ?w] by auto
  qed
qed

section \<open>Examples\<close>

definition example_lib :: osu_lib where
  "example_lib = \<lparr>calcCircleSize = (\<lambda>c m. c), calcBpm = (\<lambda>v m. v), calcTotalLength = (\<lambda>l m. l),
     RANKED = 1, APPROVED = 2\<rparr>"

definition example_beatmap :: "int \<Rightarrow> rat \<Rightarrow> beatmap_data" where
  "example_beatmap i ar =
     (\<lparr>e_mods = 0, e_pp = (\<lambda>acc. 100), e_star = 5, e_ar = ar, e_od = 8\<rparr>,
      \<lparr>b_id = i, b_set = 7, b_length = 60, b_artist = ''A'', b_title = ''T'', b_version = ''V'',
       b_bpm = 180, b_circleSize = 4, b_approved = 1\<rparr>)"

definition any_range :: min_max where
  "any_range = \<lparr>mm_min = None, mm_max = None\<rparr>"

definition example_filter :: "min_max \<Rightarrow> full_filter" where
  "example_filter ars =
     \<lparr>sortBy = Some BPM, direction = -1,
      filter_searches = \<lparr>searchText = None, searchComment = None, beatmapId = Some 1, setId = None\<rparr>,
      expectedPP = any_range, perfectPP = any_range, aR = ars, cS = any_range, oD = any_range,
      bpm = any_range, mapLength = any_range, starDiff = any_range, rankedOnly = True\<rparr>"

definition default_settings :: filter_settings where
  "default_settings = \<lparr>applyOtherFiltersWithTextFilter = False, lowAccuracy = 93, highAccuracy = 100\<rparr>"

lemma search_finds_wanted_witness:
  "\<exists>sel. executeBeatmapSearch example_lib (example_filter any_range) default_settings None
      (Some [example_beatmap 1 9, example_beatmap 2 9]) = Inr sel \<and>
    mset sel = mset (filter (wanted example_lib (example_filter any_range) default_settings None)
      [example_beatmap 1 9, example_beatmap 2 9])"
  using search_finds_wanted [of None "[example_beatmap 1 9, example_beatmap 2 9]" example_lib
      "example_filter any_range" default_settings]
  by (auto simp: comments_ok_def known_mods_def example_beatmap_def)

section \<open>Rounding\<close>

text \<open>The table shows approach rates with decimals and sends them multiplied by one hundred; the server
  multiplies the approach rate of the beatmap by one hundred and rounds to a \<open>double\<close>.\<close>

lemma dbl_ar_920: "dbl (2589569785738035 / 281474976710656 * 100) = 8092405580431359 / 8796093022208"
  using dbl_round [of 9 "2589569785738035 / 281474976710656 * 100" 8092405580431359 "3/8"]
  by (simp add: pow2_def)

lemma dbl_ar: "dbl (92 / 10) = 2589569785738035 / 281474976710656"
  using dbl_round [of 3 "92 / 10" 5179139571476070 "2/5"] by (simp add: pow2_def)

lemma below_ar: "below (dbl (e_ar e * 100)) (mm_min (aR f))"
  if "e_ar e = 2589569785738035 / 281474976710656" and "mm_min (aR f) = Some 920"
  unfolding that below_def dbl_ar_920 by simp

text \<open>A beatmap whose approach rate is the \<open>double\<close> nearest to 9.2 is skipped by a search whose
  minimum approach rate is 9.20: the product of the approach rate with one hundred lies below 920.\<close>

lemma range_filter_rounding:
  assumes "e_ar (fst d) = 2589569785738035 / 281474976710656" and "mm_min (aR f) = Some 920"
  shows "dbl (92 / 10) = e_ar (fst d) \<and> skip_by_ranges lib f s d"
proof
  show "dbl (92 / 10) = e_ar (fst d)"
    by (simp only: assms(1) dbl_ar)
  have "below (dbl (e_ar (fst d) * 100)) (mm_min (aR f))" using assms by (rule below_ar)
  then show "skip_by_ranges lib f s d" by (cases d) (simp add: skip_by_ranges_def Let_def)
qed

lemma range_filter_rounding_witness:
  "skip_by_ranges example_lib (example_filter \<lparr>mm_min = Some 920, mm_max = None\<rparr>) default_settings
     (example_beatmap 1 (2589569785738035 / 281474976710656))"
  using range_filter_rounding [of "example_beatmap 1 (2589569785738035 / 281474976710656)"
      "example_filter \<lparr>mm_min = Some 920, mm_max = None\<rparr>" example_lib default_settings]
  by (simp add: example_beatmap_def example_filter_def)

end
