(* ===== verification/Beatmap_Cache.thy ===== *)
theory Beatmap_Cache
  imports Beatmap_Search "HOL-Library.AList"
begin

text \<open>
  The beatmaps of the server (\<open>server/PpaddictBackendImpl\<close>) and the cache of selections
  (\<open>BeatmapTableServiceImpl.getAll\<close>) as one machine. The reload of the beatmaps runs beside the requests:
  it edits the current map while it fills its replacement, swaps the maps and then counts the
  generation up. A request reads the generation, looks its key up, searches and stores the selection
  in separate steps, so that anything can happen between them; the cache may drop any entry.

  One search sees the beatmaps of one moment (the iteration of the \<open>ConcurrentHashMap\<close> is weakly
  consistent), and the order of the list stands for the order of the iteration.
\<close>

section \<open>State\<close>

type_synonym beatmap_key = "int \<times> int"

text \<open>Where \<open>reloadBeatmaps\<close> is: not running, filling the first map, filling the replacement, or between
  \<open>obtrudeValue\<close> and \<open>incrementAndGet\<close>.\<close>

datatype loading = Idle | First | Replacing "(beatmap_key \<times> beatmap_data) list" | Swapped

text \<open>\<open>BeatmapsCacheKey\<close>\<close>

record cache_key =
  key_generation :: int
  key_filter :: full_filter
  key_settings :: filter_settings
  key_comments :: "string list option option"

type_synonym selection = "beatmap_data list"

text \<open>Requests that missed the cache are in \<open>searching\<close>, then with their selection in \<open>storing\<close>.\<close>

record table_server =
  beatmaps :: "(beatmap_key \<times> beatmap_data) list option"
  generation :: int
  load_state :: loading
  request_cache :: "(cache_key \<times> selection) list"
  searching :: "cache_key list"
  storing :: "(cache_key \<times> selection) list"

definition new_server :: table_server where
  "new_server = \<lparr>beatmaps = None, generation = -1, load_state = Idle, request_cache = [],
     searching = [], storing = []\<rparr>"

section \<open>Reloading\<close>

definition start_reload :: "table_server \<Rightarrow> table_server" where
  "start_reload s =
     (case beatmaps s of
        None \<Rightarrow> s\<lparr>beatmaps := Some [], load_state := First\<rparr>
      | Some _ \<Rightarrow> s\<lparr>load_state := Replacing []\<rparr>)"

text \<open>The consumer that \<open>loadAllBeatmaps\<close> calls for each beatmap.\<close>

definition load_beatmap :: "beatmap_key \<Rightarrow> beatmap_data \<Rightarrow> table_server \<Rightarrow> table_server" where
  "load_beatmap k v s =
     (case load_state s of
        First \<Rightarrow> s\<lparr>beatmaps := map_option (AList.update k v) (beatmaps s)\<rparr>
      | Replacing r \<Rightarrow> s\<lparr>beatmaps := map_option (AList.update k v) (beatmaps s),
            load_state := Replacing (AList.update k v r)\<rparr>
      | _ \<Rightarrow> s)"

text \<open>What follows \<open>loadAllBeatmaps\<close>: the first load sets the generation, a later one swaps the maps and
  then counts up. An exception ends the reload where it is.\<close>

definition finish_load :: "table_server \<Rightarrow> table_server" where
  "finish_load s =
     (case load_state s of
        First \<Rightarrow> s\<lparr>generation := 0, load_state := Idle\<rparr>
      | Replacing r \<Rightarrow> s\<lparr>beatmaps := Some r, load_state := Swapped\<rparr>
      | Swapped \<Rightarrow> s\<lparr>generation := generation s + 1, load_state := Idle\<rparr>
      | Idle \<Rightarrow> s)"

fun is_loading :: "loading \<Rightarrow> bool" where
  "is_loading First \<longleftrightarrow> True"
| "is_loading (Replacing r) \<longleftrightarrow> True"
| "is_loading l \<longleftrightarrow> False"

definition fail_load :: "table_server \<Rightarrow> table_server" where
  "fail_load s = (if is_loading (load_state s) then s\<lparr>load_state := Idle\<rparr> else s)"

section \<open>Requests\<close>

datatype answer = Uncached | Hit selection | Miss cache_key

definition search_now :: "osu_lib \<Rightarrow> cache_key \<Rightarrow> table_server \<Rightarrow> selection result" where
  "search_now lib k s = executeBeatmapSearch lib (key_filter k) (key_settings k) (key_comments k)
     (map_option (map snd) (beatmaps s))"

text \<open>The first half of \<open>getAll\<close>.\<close>

definition getAll ::
  "full_filter \<Rightarrow> filter_settings \<Rightarrow> string list option option \<Rightarrow> table_server \<Rightarrow> answer" where
  "getAll f st cs s =
     (if generation s < 0 then Uncached
      else
        let k = \<lparr>key_generation = generation s, key_filter = f, key_settings = st, key_comments = cs\<rparr>
        in case map_of (request_cache s) k of
             Some sel \<Rightarrow> Hit sel
           | None \<Rightarrow> Miss k)"

text \<open>The second half: the search, and \<open>requestCache.put\<close>.\<close>

definition run_search :: "osu_lib \<Rightarrow> cache_key \<Rightarrow> table_server \<Rightarrow> table_server" where
  "run_search lib k s =
     (let s = s\<lparr>searching := remove1 k (searching s)\<rparr>
      in case search_now lib k s of
           Inl e \<Rightarrow> s
         | Inr sel \<Rightarrow> s\<lparr>storing := (k, sel) # storing s\<rparr>)"

definition cache_put :: "cache_key \<Rightarrow> selection \<Rightarrow> table_server \<Rightarrow> table_server" where
  "cache_put k sel s =
     s\<lparr>storing := remove1 (k, sel) (storing s), request_cache := AList.update k sel (request_cache s)\<rparr>"

definition cache_drop :: "cache_key \<Rightarrow> table_server \<Rightarrow> table_server" where
  "cache_drop k s = s\<lparr>request_cache := AList.delete k (request_cache s)\<rparr>"

inductive server_step :: "osu_lib \<Rightarrow> table_server \<Rightarrow> table_server \<Rightarrow> bool" for lib where
  begin_reload: "load_state s = Idle \<Longrightarrow> server_step lib s (start_reload s)"
| put_beatmap: "server_step lib s (load_beatmap k v s)"
| end_load: "server_step lib s (finish_load s)"
| abort_load: "server_step lib s (fail_load s)"
| miss: "getAll f st cs s = Miss k \<Longrightarrow> server_step lib s (s\<lparr>searching := k # searching s\<rparr>)"
| search: "k \<in> set (searching s) \<Longrightarrow> server_step lib s (run_search lib k s)"
| interrupted: "server_step lib s (s\<lparr>searching := remove1 k (searching s)\<rparr>)"
| store: "(k, sel) \<in> set (storing s) \<Longrightarrow> server_step lib s (cache_put k sel s)"
| evict: "server_step lib s (cache_drop k s)"

inductive_cases server_stepE: "server_step lib s t"

text \<open>A run as the list of its states, the last one first.\<close>

inductive history_step :: "osu_lib \<Rightarrow> table_server list \<Rightarrow> table_server list \<Rightarrow> bool" for lib where
  "server_step lib s t \<Longrightarrow> history_step lib (s # h) (t # s # h)"

inductive_cases history_stepE: "history_step lib h h'"

section \<open>Correctness of the cache\<close>

text \<open>A selection is justified by a state of the run that is not older than the generation of its key.\<close>

definition justified :: "osu_lib \<Rightarrow> table_server list \<Rightarrow> cache_key \<times> selection \<Rightarrow> bool" where
  "justified lib h = (\<lambda>(k, sel). key_generation k \<le> generation (hd h) \<and>
     (\<exists>u \<in> set h. key_generation k \<le> generation u \<and> search_now lib k u = Inr sel))"

text \<open>No reload has filled a map during the current generation.\<close>

definition settled :: "table_server list \<Rightarrow> bool" where
  "settled h \<longleftrightarrow> (\<forall>v \<in> set h. generation v = generation (hd h) \<longrightarrow> \<not> is_loading (load_state v))"

definition load_ok :: "table_server list \<Rightarrow> bool" where
  "load_ok h \<longleftrightarrow>
     (load_state (hd h) = First \<longrightarrow> generation (hd h) = -1) \<and>
     (beatmaps (hd h) = None \<longrightarrow> generation (hd h) = -1 \<and> load_state (hd h) = Idle) \<and>
     (load_state (hd h) = Swapped \<longrightarrow> \<not> settled h)"

definition history_ok :: "osu_lib \<Rightarrow> table_server list \<Rightarrow> bool" where
  "history_ok lib h \<longleftrightarrow> h \<noteq> [] \<and> load_ok h \<and>
     (\<forall>u \<in> set h. -1 \<le> generation u \<and> generation u \<le> generation (hd h)) \<and>
     (settled h \<longrightarrow> (\<forall>v \<in> set h. generation v = generation (hd h) \<longrightarrow> beatmaps v = beatmaps (hd h))) \<and>
     (\<forall>k \<in> set (searching (hd h)). key_generation k \<le> generation (hd h)) \<and>
     (\<forall>e \<in> set (storing (hd h)) \<union> set (request_cache (hd h)). justified lib h e)"

lemma set_AList_update: "set (AList.update k v xs) \<subseteq> insert (k, v) (set xs)"
  by (induction xs) auto

lemma set_AList_delete: "set (AList.delete k xs) \<subseteq> set xs"
  by (auto simp: AList.delete_eq)

text \<open>How a step changes the loading side.\<close>

definition load_change :: "table_server \<Rightarrow> table_server \<Rightarrow> bool" where
  "load_change s t \<longleftrightarrow>
     (generation t = generation s \<and> beatmaps t = beatmaps s \<and> (load_state t = load_state s \<or> load_state t = Idle)) \<or>
     (generation t = generation s \<and> is_loading (load_state t) \<and> beatmaps t \<noteq> None \<and>
        (load_state t = First \<longrightarrow> load_state s = First \<or> beatmaps s = None)) \<or>
     (generation t = generation s \<and> load_state t = Swapped \<and> is_loading (load_state s) \<and> beatmaps t \<noteq> None) \<or>
     (load_state s = Swapped \<and> generation t = generation s + 1 \<and> load_state t = Idle \<and> beatmaps t = beatmaps s) \<or>
     (load_state s = First \<and> generation t = 0 \<and> load_state t = Idle \<and> beatmaps t = beatmaps s)"

lemma step_load_change:
  assumes "server_step lib s t" and "beatmaps s = None \<longrightarrow> load_state s = Idle"
  shows "load_change s t"
  using assms(1)
proof cases
  case begin_reload
  then show ?thesis by (auto simp: load_change_def start_reload_def split: option.split)
next
  case (put_beatmap k v)
  then show ?thesis using assms(2)
    by (cases "beatmaps s"; cases "load_state s") (auto simp: load_change_def load_beatmap_def)
next
  case end_load
  then show ?thesis by (auto simp: load_change_def finish_load_def split: loading.split)
qed (auto simp: load_change_def fail_load_def run_search_def cache_put_def cache_drop_def Let_def
    split: sum.split)

lemma step_generation:
  assumes "load_change s t" and "load_ok (s # h)"
  shows "generation s \<le> generation t"
  using assms by (auto simp: load_change_def load_ok_def)

lemma settled_Cons:
  "generation t = generation s \<Longrightarrow> settled (t # s # h) \<longleftrightarrow> \<not> is_loading (load_state t) \<and> settled (s # h)"
  by (auto simp: settled_def)

lemma load_ok_step:
  assumes "load_change s t" and "load_ok (s # h)"
  shows "load_ok (t # s # h)"
proof (cases "generation t = generation s")
  case True
  have "load_state t = Swapped \<Longrightarrow> \<not> settled (s # h)"
    using assms True by (auto simp: load_change_def load_ok_def settled_def)
  then show ?thesis
    using assms settled_Cons [OF True, of h] True by (auto simp: load_change_def load_ok_def)
next
  case False
  then show ?thesis using assms by (auto simp: load_change_def load_ok_def)
qed

lemma same_beatmaps_step:
  assumes c: "load_change s t" and ok: "load_ok (s # h)"
    and le: "\<forall>u \<in> set (s # h). generation u \<le> generation s"
    and same: "settled (s # h) \<longrightarrow> (\<forall>v \<in> set (s # h). generation v = generation s \<longrightarrow> beatmaps v = beatmaps s)"
    and st: "settled (t # s # h)" and v: "v \<in> set (t # s # h)" "generation v = generation t"
  shows "beatmaps v = beatmaps t"
proof (cases "generation t = generation s")
  case True
  have sh: "settled (s # h)" and nt: "\<not> is_loading (load_state t)"
    using st settled_Cons [OF True, of h] by simp_all
  from sh have "\<not> is_loading (load_state s)" by (simp only: settled_def list.sel list.set) blast
  then have t: "beatmaps t = beatmaps s" using c True nt by (simp add: load_change_def) auto
  show ?thesis
  proof (cases "v = t")
    case False
    then have "v \<in> set (s # h)" using v by simp
    then show ?thesis using same sh v(2) True t by metis
  qed simp
next
  case False
  then have "generation s < generation t" using step_generation [OF c ok] by simp
  then have "v \<notin> set (s # h)" using le v(2) by (metis linorder_not_less)
  then show ?thesis using v(1) by simp
qed

text \<open>How a step changes the side of the requests.\<close>

lemma getAll_Miss: "getAll f st cs s = Miss k \<Longrightarrow> key_generation k = generation s"
  by (auto simp: getAll_def Let_def split: if_splits option.splits)

lemma loading_requests [simp]:
  "searching (start_reload s) = searching s" "searching (load_beatmap k v s) = searching s"
  "searching (finish_load s) = searching s" "searching (fail_load s) = searching s"
  "storing (start_reload s) = storing s" "storing (load_beatmap k v s) = storing s"
  "storing (finish_load s) = storing s" "storing (fail_load s) = storing s"
  "request_cache (start_reload s) = request_cache s" "request_cache (load_beatmap k v s) = request_cache s"
  "request_cache (finish_load s) = request_cache s" "request_cache (fail_load s) = request_cache s"
  by (simp_all add: start_reload_def load_beatmap_def finish_load_def fail_load_def
      split: option.split loading.split)

lemma searching_step:
  assumes "server_step lib s t"
  shows "set (searching t) \<subseteq> {k. key_generation k = generation s} \<union> set (searching s)"
  using assms
proof cases
  case (miss f st cs k)
  then show ?thesis by (auto dest: getAll_Miss)
next
  case (search k)
  then show ?thesis by (auto simp: run_search_def Let_def split: sum.split dest: notin_set_remove1)
qed (auto simp: cache_put_def cache_drop_def dest: notin_set_remove1)

lemma cached_step:
  assumes "server_step lib s t"
  shows "set (storing t) \<union> set (request_cache t) \<subseteq> set (storing s) \<union> set (request_cache s)
    \<union> {(k, sel). k \<in> set (searching s) \<and> search_now lib k s = Inr sel}"
  using assms
proof cases
  case (search k)
  moreover have "search_now lib k (s\<lparr>searching := x\<rparr>) = search_now lib k s" for x
    by (simp add: search_now_def)
  ultimately show ?thesis by (auto simp: run_search_def Let_def split: sum.split)
next
  case (store k sel)
  then show ?thesis using set_AList_update [of k sel "request_cache s"]
    by (auto simp: cache_put_def dest: notin_set_remove1)
next
  case (evict k)
  then show ?thesis using set_AList_delete [of k "request_cache s"] by (auto simp: cache_drop_def)
qed auto

lemma justified_mono:
  assumes "justified lib (s # h) e" and "generation s \<le> generation t"
  shows "justified lib (t # s # h) e"
  using assms by (auto simp: justified_def)

lemma history_step_ok:
  assumes ok: "history_ok lib h" and step: "history_step lib h h'"
  shows "history_ok lib h'"
  using step
proof cases
  case (1 s t r)
  note h = 1
  have lo: "load_ok (s # r)" and le: "\<forall>u \<in> set (s # r). -1 \<le> generation u \<and> generation u \<le> generation s"
    and same: "settled (s # r) \<longrightarrow> (\<forall>v \<in> set (s # r). generation v = generation s \<longrightarrow> beatmaps v = beatmaps s)"
    and se: "\<forall>k \<in> set (searching s). key_generation k \<le> generation s"
    and ca: "\<forall>e \<in> set (storing s) \<union> set (request_cache s). justified lib (s # r) e"
    using ok by (simp_all add: history_ok_def h(1))
  have c: "load_change s t" using step_load_change [OF h(3)] lo by (auto simp: load_ok_def)
  note g = step_generation [OF c lo]
  have le': "\<forall>u \<in> set (t # s # r). -1 \<le> generation u \<and> generation u \<le> generation t"
    using le g by force
  have se': "\<forall>k \<in> set (searching t). key_generation k \<le> generation t"
    using se searching_step [OF h(3)] g by fastforce
  have ca': "\<forall>e \<in> set (storing t) \<union> set (request_cache t). justified lib (t # s # r) e"
  proof
    fix e assume "e \<in> set (storing t) \<union> set (request_cache t)"
    then consider "e \<in> set (storing s) \<union> set (request_cache s)"
      | k sel where "e = (k, sel)" "k \<in> set (searching s)" "search_now lib k s = Inr sel"
      using cached_step [OF h(3)] by blast
    then show "justified lib (t # s # r) e"
    proof cases
      case 1
      then show ?thesis using ca justified_mono g by blast
    next
      case (2 k sel)
      then have "justified lib (s # r) e" using se by (simp add: justified_def)
      then show ?thesis using justified_mono g by blast
    qed
  qed
  have same': "settled (t # s # r) \<longrightarrow> (\<forall>v \<in> set (t # s # r). generation v = generation t \<longrightarrow> beatmaps v = beatmaps t)"
    using same_beatmaps_step [OF c lo _ same] le by blast
  show ?thesis
    unfolding history_ok_def h(2) using load_ok_step [OF c lo] le' se' ca' same' by simp
qed

lemma new_history_ok: "history_ok lib [new_server]"
  by (simp add: history_ok_def load_ok_def new_server_def)

interpretation table: invariant_machine "\<lambda>h. h = [new_server]" "history_step lib" "history_ok lib" for lib
  by unfold_locales (auto simp: new_history_ok history_step_ok)

text \<open>C28. Whatever requests and reloads run beside each other, the selection that the cache answers
  with is the result of the search over the beatmaps as they were at some moment of the current
  generation; and as long as no reload has begun in this generation, it is what a search now would
  find.\<close>

theorem cache_hit_current:
  assumes "(history_step lib)\<^sup>*\<^sup>* [new_server] (s # h)" and "getAll f st cs s = Hit sel"
  shows "(\<exists>u \<in> set (s # h). generation u = generation s
      \<and> executeBeatmapSearch lib f st cs (map_option (map snd) (beatmaps u)) = Inr sel)
    \<and> ((\<forall>u \<in> set (s # h). generation u = generation s \<longrightarrow> \<not> is_loading (load_state u)) \<longrightarrow>
      executeBeatmapSearch lib f st cs (map_option (map snd) (beatmaps s)) = Inr sel)"
proof -
  have ok: "history_ok lib (s # h)" using table.reachable_good [OF refl assms(1)] .
  let ?k = "\<lparr>key_generation = generation s, key_filter = f, key_settings = st, key_comments = cs\<rparr>"
  have "(?k, sel) \<in> set (request_cache s)"
    using assms(2) by (auto simp: getAll_def Let_def split: if_splits option.splits dest: map_of_SomeD)
  then have "justified lib (s # h) (?k, sel)" using ok by (simp add: history_ok_def)
  then obtain u where u: "u \<in> set (s # h)" "generation s \<le> generation u" "search_now lib ?k u = Inr sel"
    by (auto simp: justified_def)
  moreover have g: "generation u = generation s"
    using ok u(1,2) by (auto simp: history_ok_def)
  moreover have "settled (s # h) \<Longrightarrow> beatmaps u = beatmaps s"
    using ok u(1) g by (simp only: history_ok_def list.sel)
  ultimately show ?thesis
    by (auto simp: search_now_def settled_def)
qed

text \<open>A run that loads one beatmap, misses, searches, stores and hits.\<close>

definition unsorted_filter :: full_filter where
  "unsorted_filter = (example_filter any_range)\<lparr>sortBy := None\<rparr>"

definition loaded :: table_server where
  "loaded = finish_load (load_beatmap (1, 0) (example_beatmap 1 9) (start_reload new_server))"

definition example_key :: cache_key where
  "example_key = \<lparr>key_generation = 0, key_filter = unsorted_filter, key_settings = default_settings,
     key_comments = None\<rparr>"

definition missed :: table_server where
  "missed = loaded\<lparr>searching := [example_key]\<rparr>"

lemma loaded_eq: "loaded = \<lparr>beatmaps = Some [((1, 0), example_beatmap 1 9)], generation = 0,
    load_state = Idle, request_cache = [], searching = [], storing = []\<rparr>"
  by (simp add: loaded_def finish_load_def load_beatmap_def start_reload_def new_server_def)

lemma example_search:
  "executeBeatmapSearch example_lib unsorted_filter default_settings None (Some [example_beatmap 1 9]) =
     Inr [example_beatmap 1 9]"
  by (simp add: executeBeatmapSearch_def selects_def skip_by_ranges_def text_needle_def comment_needle_def
      unsorted_filter_def example_filter_def example_beatmap_def any_range_def below_def above_def
      nonNullTrimmed_def example_lib_def sort_selection_def default_settings_def)

lemma history_extend:
  "(history_step lib)\<^sup>*\<^sup>* h0 (s # h) \<Longrightarrow> server_step lib s t \<Longrightarrow> (history_step lib)\<^sup>*\<^sup>* h0 (t # s # h)"
  by (meson history_step.intros rtranclp.rtrancl_into_rtrancl)

lemma example_run:
  "(history_step example_lib)\<^sup>*\<^sup>* [new_server]
     [cache_put example_key [example_beatmap 1 9] (run_search example_lib example_key missed),
      run_search example_lib example_key missed, missed, loaded,
      load_beatmap (1, 0) (example_beatmap 1 9) (start_reload new_server), start_reload new_server,
      new_server]"
proof -
  have miss: "getAll unsorted_filter default_settings None loaded = Miss example_key"
    by (simp add: getAll_def loaded_eq example_key_def)
  have e: "search_now example_lib example_key (missed\<lparr>searching := []\<rparr>) = Inr [example_beatmap 1 9]"
    using example_search by (simp add: search_now_def missed_def loaded_eq example_key_def)
  have s1: "server_step example_lib new_server (start_reload new_server)"
    by (rule server_step.begin_reload) (simp add: new_server_def)
  have s2: "server_step example_lib loaded missed"
    using server_step.miss [OF miss, of example_lib] by (simp add: missed_def loaded_eq)
  have s3: "server_step example_lib missed (run_search example_lib example_key missed)"
    by (rule server_step.search) (simp add: missed_def)
  have s4: "server_step example_lib (run_search example_lib example_key missed)
      (cache_put example_key [example_beatmap 1 9] (run_search example_lib example_key missed))"
    by (rule server_step.store) (use e in \<open>simp add: run_search_def Let_def missed_def\<close>)
  have s5: "server_step example_lib (load_beatmap (1, 0) (example_beatmap 1 9) (start_reload new_server)) loaded"
    unfolding loaded_def by (rule server_step.end_load)
  have "(history_step example_lib)\<^sup>*\<^sup>* [new_server] [start_reload new_server, new_server]"
    by (rule history_extend [OF _ s1]) simp
  from history_extend [OF history_extend [OF history_extend [OF history_extend [OF history_extend [OF this server_step.put_beatmap] s5] s2] s3] s4]
  show ?thesis .
qed

lemma cache_hit_current_witness:
  "executeBeatmapSearch example_lib unsorted_filter default_settings None
     (Some [example_beatmap 1 9]) = Inr [example_beatmap 1 9]"
proof -
  have e: "search_now example_lib example_key (missed\<lparr>searching := []\<rparr>) = Inr [example_beatmap 1 9]"
    using example_search by (simp add: search_now_def missed_def loaded_eq example_key_def)
  have "getAll unsorted_filter default_settings None
      (cache_put example_key [example_beatmap 1 9] (run_search example_lib example_key missed)) =
      Hit [example_beatmap 1 9]"
    using e by (simp add: getAll_def cache_put_def run_search_def Let_def missed_def loaded_eq example_key_def)
  from cache_hit_current [OF example_run this] show ?thesis
    using e by (simp add: cache_put_def run_search_def Let_def missed_def loaded_eq new_server_def
        start_reload_def load_beatmap_def)
qed

end
