(* ===== verification/Rate_Limiter.thy ===== *)
theory Rate_Limiter
  imports Prelude "HOL-Library.Multiset"
begin

text \<open>
  The limiter of requests to the osu! API (\<open>tillerinobot/RateLimiter\<close>): one bounded queue of permits per
  priority, a timer that adds permits, and threads that take them. Permits are indistinguishable, so
  a queue is its number of permits. Every access to a queue is a step of its own: the loops of
  \<open>addPermit\<close> and \<open>limitRate\<close> are interleaved with each other. A step is labelled with what it does, and
  a run has the list of its labels.
\<close>

section \<open>State\<close>

definition REQUEST :: nat where "REQUEST = 0"
definition EVENT :: nat where "EVENT = 1"
definition MAINTENANCE :: nat where "MAINTENANCE = 2"

definition capacities :: "nat list" where
  "capacities = [50, 50, 100]"

text \<open>A thread inside \<open>limitRate\<close>: about to poll a queue, or waiting at the queue of its priority.\<close>

datatype phase = Polling nat | Waiting

record limiter =
  permits :: "nat list"
  adding :: "nat option"
  callers :: "nat \<rightharpoonup> nat \<times> phase"

definition new_limiter :: limiter where
  "new_limiter = \<lparr>permits = [0, 0, 0], adding = None, callers = Map.empty\<rparr>"

datatype label = Tick | Added nat | Granted nat nat | Silent

section \<open>\<open>addPermit\<close>\<close>

text \<open>\<open>adding\<close> is the queue that the timer offers its permit next; it has to end before the timer fires
  again.\<close>

definition tick :: "limiter \<Rightarrow> limiter" where
  "tick s = s\<lparr>adding := Some REQUEST\<rparr>"

definition offer :: "nat \<Rightarrow> limiter \<Rightarrow> label \<times> limiter" where
  "offer i s =
     (if i < length capacities
      then if permits s ! i < capacities ! i
           then (Added i, s\<lparr>permits := (permits s)[i := permits s ! i + 1], adding := None\<rparr>)
           else (Silent, s\<lparr>adding := Some (i + 1)\<rparr>)
      else (Silent, s\<lparr>adding := None\<rparr>))"

section \<open>\<open>limitRate\<close>\<close>

definition enter :: "nat \<Rightarrow> nat \<Rightarrow> limiter \<Rightarrow> limiter" where
  "enter t priority s = s\<lparr>callers := (callers s)(t \<mapsto> (priority, Polling MAINTENANCE))\<rparr>"

definition grant :: "nat \<Rightarrow> nat \<Rightarrow> nat \<Rightarrow> limiter \<Rightarrow> label \<times> limiter" where
  "grant t priority i s =
     (Granted priority i,
      s\<lparr>permits := (permits s)[i := permits s ! i - 1], callers := (callers s)(t := None)\<rparr>)"

definition poll :: "nat \<Rightarrow> nat \<Rightarrow> nat \<Rightarrow> limiter \<Rightarrow> label \<times> limiter" where
  "poll t priority i s =
     (if i \<ge> priority \<and> permits s ! i > 0 then grant t priority i s
      else if i > priority then (Silent, s\<lparr>callers := (callers s)(t \<mapsto> (priority, Polling (i - 1)))\<rparr>)
      else (Silent, s\<lparr>callers := (callers s)(t \<mapsto> (priority, Waiting))\<rparr>))"

definition interrupted :: "nat \<Rightarrow> limiter \<Rightarrow> limiter" where
  "interrupted t s = s\<lparr>callers := (callers s)(t := None)\<rparr>"

inductive limiter_step :: "limiter \<Rightarrow> label \<Rightarrow> limiter \<Rightarrow> bool" where
  timer: "adding s = None \<Longrightarrow> limiter_step s Tick (tick s)"
| offer: "adding s = Some i \<Longrightarrow> offer i s = (l, t) \<Longrightarrow> limiter_step s l t"
| call: "callers s c = None \<Longrightarrow> p \<le> MAINTENANCE \<Longrightarrow> limiter_step s Silent (enter c p s)"
| poll: "callers s c = Some (p, Polling i) \<Longrightarrow> poll c p i s = (l, t) \<Longrightarrow> limiter_step s l t"
| take: "callers s c = Some (p, Waiting) \<Longrightarrow> permits s ! p > 0 \<Longrightarrow> grant c p p s = (l, t) \<Longrightarrow> limiter_step s l t"
| interrupt: "callers s c = Some (p, Waiting) \<Longrightarrow> limiter_step s Silent (interrupted c s)"

inductive limiter_run :: "limiter \<Rightarrow> label list \<Rightarrow> limiter \<Rightarrow> bool" where
  empty: "limiter_run s [] s"
| step: "limiter_run s ls t \<Longrightarrow> limiter_step t l u \<Longrightarrow> limiter_run s (ls @ [l]) u"

inductive_cases limiter_run_snocE: "limiter_run s (ls @ [l]) u"

section \<open>Invariant\<close>

text \<open>Every queue is within its capacity, and no thread polls below its priority.\<close>

definition limiter_ok :: "limiter \<Rightarrow> bool" where
  "limiter_ok s \<longleftrightarrow> length (permits s) = 3 \<and> (\<forall>i < 3. permits s ! i \<le> capacities ! i)
     \<and> (\<forall>c p i. callers s c = Some (p, Polling i) \<longrightarrow> p \<le> i \<and> i < 3)
     \<and> (\<forall>c p. callers s c = Some (p, Waiting) \<longrightarrow> p < 3)"

lemmas limiter_defs = tick_def offer_def enter_def grant_def poll_def interrupted_def
  REQUEST_def EVENT_def MAINTENANCE_def

lemma capacities_simps [simp]: "length capacities = 3" "capacities ! 0 = 50" "capacities ! 1 = 50"
  "capacities ! 2 = 100" "capacities ! Suc 0 = 50"
  by (simp_all add: capacities_def)

lemma new_limiter_ok: "limiter_ok new_limiter"
  by (auto simp: limiter_ok_def new_limiter_def less_Suc_eq numeral_3_eq_3)

lemma limiter_step_ok: "limiter_step s l t \<Longrightarrow> limiter_ok s \<Longrightarrow> limiter_ok t"
proof (induction rule: limiter_step.induct)
  case (offer s i l t)
  then show ?case
    by (auto simp: limiter_ok_def offer_def nth_list_update split: if_splits)
next
  case (poll s c p i l t)
  then have "p \<le> i" "i < 3" by (auto simp: limiter_ok_def)
  then have "p < 3" "i - Suc 0 < 3" by simp_all
  with poll \<open>p \<le> i\<close> \<open>i < 3\<close> show ?case
    by (auto simp: limiter_ok_def poll_def grant_def nth_list_update le_diff_conv split: if_splits)
next
  case (take s c p l t)
  then show ?case
    by (auto simp: limiter_ok_def grant_def nth_list_update le_diff_conv split: if_splits)
qed (auto simp: limiter_ok_def limiter_defs split: if_splits)

interpretation rate_limiter: invariant_machine "\<lambda>s. s = new_limiter" "\<lambda>s t. \<exists>l. limiter_step s l t" limiter_ok
  by unfold_locales (auto simp: new_limiter_ok limiter_step_ok)

lemma limiter_run_steps: "limiter_run s ls t \<Longrightarrow> (\<lambda>s t. \<exists>l. limiter_step s l t)\<^sup>*\<^sup>* s t"
  by (induction rule: limiter_run.induct) (auto intro: rtranclp.rtrancl_into_rtrancl)

lemma limiter_run_ok: "limiter_run s ls t \<Longrightarrow> limiter_ok s \<Longrightarrow> limiter_ok t"
  using rate_limiter.steps_good limiter_run_steps by blast

lemma reachable_limiter_ok: "limiter_run new_limiter ls s \<Longrightarrow> limiter_ok s"
  using limiter_run_ok new_limiter_ok by blast

section \<open>Conservation of permits\<close>

fun granted_at :: "nat \<Rightarrow> label \<Rightarrow> nat" where
  "granted_at i (Granted p j) = (if i = j then 1 else 0)"
| "granted_at i l = 0"

fun added_at :: "nat \<Rightarrow> label \<Rightarrow> nat" where
  "added_at i (Added j) = (if i = j then 1 else 0)"
| "added_at i l = 0"

definition total :: "(label \<Rightarrow> nat) \<Rightarrow> label list \<Rightarrow> nat" where
  "total f ls = sum_list (map f ls)"

lemma total_simps [simp]: "total f [] = 0" "total f (ls @ [l]) = total f ls + f l"
  by (simp_all add: total_def)

definition is_tick :: "label \<Rightarrow> nat" where
  "is_tick l = (if l = Tick then 1 else 0)"

definition is_grant :: "label \<Rightarrow> nat" where
  "is_grant l = (case l of Granted p i \<Rightarrow> 1 | _ \<Rightarrow> 0)"

definition in_flight :: "limiter \<Rightarrow> nat" where
  "in_flight s = (if adding s = None then 0 else 1)"

lemma step_conserves:
  "limiter_step s l t \<Longrightarrow> limiter_ok s \<Longrightarrow> i < 3 \<Longrightarrow>
     permits t ! i + granted_at i l = permits s ! i + added_at i l"
proof (induction rule: limiter_step.induct)
  case (poll s c p j l t)
  then have "j < 3" by (auto simp: limiter_ok_def)
  with poll show ?case
    by (auto simp: limiter_ok_def poll_def grant_def nth_list_update split: if_splits)
qed (auto simp: limiter_ok_def offer_def grant_def tick_def enter_def interrupted_def nth_list_update split: if_splits)

lemma run_conserves:
  "limiter_run s ls t \<Longrightarrow> limiter_ok s \<Longrightarrow> i < 3 \<Longrightarrow>
     permits t ! i + total (granted_at i) ls = permits s ! i + total (added_at i) ls"
proof (induction rule: limiter_run.induct)
  case (step s ls t l u)
  then show ?case using step_conserves [OF step(2) limiter_run_ok [OF step(1)]] by force
qed simp

lemma step_ticks:
  "limiter_step s l t \<Longrightarrow> limiter_ok s \<Longrightarrow>
     is_grant l + sum_list (permits t) + in_flight t \<le> sum_list (permits s) + in_flight s + is_tick l"
proof (induction rule: limiter_step.induct)
  case (poll s c p j l t)
  then have "j < 3" "permits s ! j \<le> sum_list (permits s)"
    by (auto simp: limiter_ok_def intro: elem_le_sum_list)
  with poll show ?case
    by (auto simp: limiter_ok_def poll_def grant_def sum_list_update is_grant_def is_tick_def in_flight_def
        split: if_splits)
next
  case (take s c p l t)
  then have "p < 3" "permits s ! p \<le> sum_list (permits s)"
    by (auto simp: limiter_ok_def intro: elem_le_sum_list)
  with take show ?case
    by (auto simp: limiter_ok_def grant_def sum_list_update is_grant_def is_tick_def in_flight_def)
qed (auto simp: limiter_ok_def offer_def tick_def enter_def interrupted_def sum_list_update
    is_grant_def is_tick_def in_flight_def split: if_splits)

lemma run_ticks:
  "limiter_run s ls t \<Longrightarrow> limiter_ok s \<Longrightarrow>
     total is_grant ls + sum_list (permits t) + in_flight t \<le> sum_list (permits s) + in_flight s + total is_tick ls"
proof (induction rule: limiter_run.induct)
  case (step s ls t l u)
  then show ?case using step_ticks [OF step(2) limiter_run_ok [OF step(1)]] by force
qed simp

lemma permits_bound: "limiter_ok s \<Longrightarrow> sum_list (permits s) \<le> 200"
proof -
  assume ok: "limiter_ok s"
  then obtain a b c where "permits s = [a, b, c]"
    by (auto simp: limiter_ok_def numeral_3_eq_3 length_Suc_conv)
  moreover have "permits s ! 0 \<le> 50" "permits s ! 1 \<le> 50" "permits s ! 2 \<le> 100"
    using ok unfolding limiter_ok_def by (force dest: spec [of _ 0] spec [of _ 1] spec [of _ 2])+
  ultimately show ?thesis by simp
qed

text \<open>C29. In any window of any run, however the threads are scheduled, the requests let through are at most
  the ticks of the timer in that window plus two hundred (one more if the window begins while the timer
  is adding a permit); every queue keeps within its capacity, and its permits are exactly those it had
  plus those added minus those granted.\<close>

theorem rate_is_limited:
  assumes "limiter_run new_limiter ls\<^sub>0 s" and "limiter_run s ls t"
  shows "total is_grant ls \<le> total is_tick ls + 200 + in_flight s
    \<and> total is_grant (ls\<^sub>0) \<le> total is_tick ls\<^sub>0
    \<and> (\<forall>i < 3. permits t ! i \<le> capacities ! i
        \<and> permits t ! i + total (granted_at i) ls = permits s ! i + total (added_at i) ls)"
proof -
  have s: "limiter_ok s" using assms(1) by (rule reachable_limiter_ok)
  have t: "limiter_ok t" using limiter_run_ok [OF assms(2) s] .
  have "total is_grant ls \<le> total is_tick ls + 200 + in_flight s"
    using run_ticks [OF assms(2) s] permits_bound [OF s] by simp
  moreover have "total is_grant ls\<^sub>0 \<le> total is_tick ls\<^sub>0"
    using run_ticks [OF assms(1) new_limiter_ok] by (simp add: new_limiter_def in_flight_def)
  ultimately show ?thesis
    using t run_conserves [OF assms(2) s] by (simp add: limiter_ok_def)
qed

section \<open>The buffer of the urgent threads\<close>

fun grant_ok :: "label \<Rightarrow> bool" where
  "grant_ok (Granted p i) \<longleftrightarrow> p \<le> i"
| "grant_ok l \<longleftrightarrow> True"

lemma step_grant_ok: "limiter_step s l t \<Longrightarrow> limiter_ok s \<Longrightarrow> grant_ok l"
proof (induction rule: limiter_step.induct)
  case (poll s c p i l t)
  then show ?case by (auto simp: poll_def grant_def split: if_splits)
qed (auto simp: offer_def grant_def split: if_splits)

lemma run_grants_ok: "limiter_run s ls t \<Longrightarrow> limiter_ok s \<Longrightarrow> \<forall>l \<in> set ls. grant_ok l"
proof (induction rule: limiter_run.induct)
  case (step s ls t l u)
  then show ?case using step_grant_ok [OF step(2) limiter_run_ok [OF step(1)]] by auto
qed simp

text \<open>The permits of the first queue and the ticks, while no urgent thread takes one.\<close>

definition filling :: "nat \<Rightarrow> nat \<Rightarrow> limiter \<Rightarrow> bool" where
  "filling before ticks t \<longleftrightarrow> before \<le> permits t ! 0 \<and>
     (permits t ! 0 = 50 \<or> before + ticks \<le> permits t ! 0 + (if adding t = Some REQUEST then 1 else 0))"

lemma step_fills:
  assumes "limiter_step s l t" and "limiter_ok s" and "\<forall>i. l \<noteq> Granted REQUEST i"
    and "filling before ticks s"
  shows "filling before (ticks + is_tick l) t"
proof -
  have le: "permits s ! 0 \<le> 50" using assms(2) by (auto simp: limiter_ok_def dest: spec [of _ 0])
  have g: "granted_at 0 l = 0"
    using assms(3) step_grant_ok [OF assms(1,2)] by (cases l) (auto simp: REQUEST_def)
  have c: "permits t ! 0 = permits s ! 0 + added_at 0 l"
    using step_conserves [OF assms(1,2), of 0] g by simp
  show ?thesis
    using assms(1)
  proof cases
    case timer
    then show ?thesis using assms(4) c by (auto simp: filling_def tick_def is_tick_def)
  next
    case (offer i)
    then show ?thesis
      using assms(2,4) le c
      by (auto simp: filling_def offer_def is_tick_def REQUEST_def limiter_ok_def split: if_splits)
  next
    case (poll cc p i)
    then show ?thesis using assms(4) c
      by (auto simp: filling_def poll_def grant_def is_tick_def split: if_splits)
  qed (use assms(4) c in \<open>auto simp: filling_def enter_def grant_def interrupted_def is_tick_def\<close>)
qed

lemma run_fills:
  "limiter_run s ls t \<Longrightarrow> limiter_ok s \<Longrightarrow> \<forall>i. Granted REQUEST i \<notin> set ls \<Longrightarrow>
     filling (permits s ! 0) (total is_tick ls) t"
proof (induction rule: limiter_run.induct)
  case (step s ls t l u)
  then have "filling (permits s ! 0) (total is_tick ls) t" "\<forall>i. l \<noteq> Granted REQUEST i" by auto
  with step_fills [OF step(2) limiter_run_ok [OF step(1,4)]] show ?case by simp
qed (simp add: filling_def)

text \<open>C30. There is always a buffer for the urgent threads: a permit of a queue goes only to a thread of that
  priority or a more urgent one; so whatever the less urgent threads do, the permits of the first queue
  never decrease while no \<open>REQUEST\<close> thread takes one, and grow with every tick up to the capacity.\<close>

theorem urgent_buffer:
  assumes "limiter_run new_limiter ls\<^sub>0 s" and "limiter_run s ls t"
  shows "(\<forall>p i. Granted p i \<in> set ls \<longrightarrow> p \<le> i)
    \<and> ((\<forall>i. Granted REQUEST i \<notin> set ls) \<longrightarrow>
         permits s ! REQUEST \<le> permits t ! REQUEST
         \<and> min 50 (permits s ! REQUEST + total is_tick ls - 1) \<le> permits t ! REQUEST)"
proof -
  have s: "limiter_ok s" using assms(1) by (rule reachable_limiter_ok)
  have "\<forall>p i. Granted p i \<in> set ls \<longrightarrow> p \<le> i" using run_grants_ok [OF assms(2) s] by fastforce
  moreover have "permits s ! REQUEST \<le> permits t ! REQUEST
         \<and> min 50 (permits s ! REQUEST + total is_tick ls - 1) \<le> permits t ! REQUEST"
    if "\<forall>i. Granted REQUEST i \<notin> set ls"
    using run_fills [OF assms(2) s that] by (auto simp: filling_def REQUEST_def split: if_splits)
  ultimately show ?thesis by blast
qed

section \<open>Examples\<close>

definition one_permit :: limiter where
  "one_permit = \<lparr>permits = [1, 0, 0], adding = None, callers = Map.empty\<rparr>"

lemma one_permit_run: "limiter_run new_limiter [Tick, Added 0] one_permit"
proof -
  have "limiter_run new_limiter ([] @ [Tick]) (tick new_limiter)"
    by (rule limiter_run.step [OF limiter_run.empty limiter_step.timer]) (simp add: new_limiter_def)
  from limiter_run.step [OF this limiter_step.offer [of _ 0]] show ?thesis
    by (simp add: tick_def new_limiter_def offer_def REQUEST_def one_permit_def)
qed

lemma maintenance_run:
  "limiter_run one_permit [Silent, Silent, Tick] ((tick one_permit)\<lparr>callers := [7 \<mapsto> (2, Waiting)]\<rparr>)"
proof -
  have "limiter_run one_permit ([] @ [Silent]) (enter 7 2 one_permit)"
    by (rule limiter_run.step [OF limiter_run.empty limiter_step.call])
      (simp_all add: one_permit_def MAINTENANCE_def)
  from limiter_run.step [OF this limiter_step.poll [of _ 7 2 2]]
  have "limiter_run one_permit [Silent, Silent] (one_permit\<lparr>callers := [7 \<mapsto> (2, Waiting)]\<rparr>)"
    by (simp add: enter_def poll_def one_permit_def MAINTENANCE_def)
  from limiter_run.step [OF this limiter_step.timer] show ?thesis
    by (simp add: tick_def one_permit_def)
qed

lemma rate_is_limited_witness:
  "total is_grant [Silent, Silent, Tick] \<le> total is_tick [Silent, Silent, Tick] + 200
   \<and> total is_grant [Tick, Added 0] \<le> total is_tick [Tick, Added 0]"
  using rate_is_limited [OF one_permit_run maintenance_run] by (simp add: one_permit_def in_flight_def)

lemma urgent_buffer_witness: "min 50 (permits one_permit ! REQUEST + 1 - 1) \<le> permits (tick one_permit) ! REQUEST"
  using urgent_buffer [OF one_permit_run maintenance_run]
  by (simp add: total_def is_tick_def one_permit_def tick_def REQUEST_def)

end
