(* ===== verification/Sampler.thy ===== *)
theory Sampler
  imports Java_Double "HOL-Library.Multiset"
begin

text \<open>
  Sampling of recommendations (\<open>tillerinobot/recommendations/Sampler\<close>): a sorted map from the running
  sums of the weights to the elements; a uniform draw times the sum selects the first element whose
  running sum is not below it, which is removed, and the sums behind it are built anew. The sums are
  \<open>double\<close>s. The draws of \<open>nextDouble\<close> are an argument: numbers from zero up to but without one.
\<close>

section \<open>The sampler\<close>

text \<open>\<open>TreeMap.put\<close>: the value of a key that is present is replaced.\<close>

fun tree_put :: "rat \<Rightarrow> 'a \<Rightarrow> (rat \<times> 'a) list \<Rightarrow> (rat \<times> 'a) list" where
  "tree_put k v [] = [(k, v)]"
| "tree_put k v ((k', v') # m) =
     (if k < k' then (k, v) # (k', v') # m
      else if k = k' then (k, v) # m
      else (k', v') # tree_put k v m)"

record ('a, 's) sampler =
  distribution :: "(rat \<times> 'a) list"
  weight_sum :: rat
  settings :: 's

text \<open>One turn of the loops that fill the map.\<close>

definition put_element :: "('a \<Rightarrow> rat) \<Rightarrow> 'a \<Rightarrow> ('a, 's) sampler \<Rightarrow> ('a, 's) sampler" where
  "put_element w e s =
     (let total = dbl (weight_sum s + w e)
      in s\<lparr>weight_sum := total, distribution := tree_put total e (distribution s)\<rparr>)"

definition new_sampler :: "('a \<Rightarrow> rat) \<Rightarrow> 's \<Rightarrow> 'a list \<Rightarrow> ('a, 's) sampler" where
  "new_sampler w st population =
     fold (put_element w) population \<lparr>distribution = [], weight_sum = 0, settings = st\<rparr>"

definition isEmpty :: "('a, 's) sampler \<Rightarrow> bool" where
  "isEmpty s \<longleftrightarrow> distribution s = []"

text \<open>One draw: none when the tail is empty and the method calls itself again.\<close>

definition try_sample :: "('a \<Rightarrow> rat) \<Rightarrow> rat \<Rightarrow> ('a, 's) sampler \<Rightarrow> ('a \<times> ('a, 's) sampler) option" where
  "try_sample w draw s =
     (let x = dbl (draw * weight_sum s)
      in case filter (\<lambda>(k, _). x \<le> k) (distribution s) of
           [] \<Rightarrow> None
         | (k, e) # rest \<Rightarrow>
             let s' = s\<lparr>weight_sum := dbl (k - w e),
                        distribution := filter (\<lambda>(k, _). k < x) (distribution s)\<rparr>
             in Some (e, fold (put_element w) (map snd rest) s'))"

fun sample :: "('a \<Rightarrow> rat) \<Rightarrow> rat list \<Rightarrow> ('a, 's) sampler \<Rightarrow> ('a \<times> ('a, 's) sampler) option" where
  "sample w [] s = None"
| "sample w (r # rs) s =
     (case try_sample w r s of None \<Rightarrow> sample w rs s | Some y \<Rightarrow> Some y)"

section \<open>What a sampler represents\<close>

fun running :: "('a \<Rightarrow> rat) \<Rightarrow> rat \<Rightarrow> 'a list \<Rightarrow> (rat \<times> 'a) list" where
  "running w a [] = []"
| "running w a (e # es) = (a + w e, e) # running w (a + w e) es"

definition sum_weights :: "('a \<Rightarrow> rat) \<Rightarrow> 'a list \<Rightarrow> rat" where
  "sum_weights w es = sum_list (map w es)"

definition represents :: "('a \<Rightarrow> rat) \<Rightarrow> 'a list \<Rightarrow> ('a, 's) sampler \<Rightarrow> bool" where
  "represents w es s \<longleftrightarrow> distribution s = running w 0 es \<and> weight_sum s = sum_weights w es"

text \<open>Weights for which no sum is rounded: the weights are positive, and the sum of any of them is a
  \<open>double\<close>.\<close>

definition exact :: "('a \<Rightarrow> rat) \<Rightarrow> 'a list \<Rightarrow> bool" where
  "exact w es \<longleftrightarrow> (\<forall>e \<in> set es. 0 < w e) \<and>
     (\<forall>M. M \<subseteq># mset es \<longrightarrow> dbl (sum_mset (image_mset w M)) = sum_mset (image_mset w M))"

lemma sum_weights_mset: "sum_weights w es = sum_mset (image_mset w (mset es))"
  by (induction es) (simp_all add: sum_weights_def)

lemma sum_weights_simps [simp]: "sum_weights w [] = 0" "sum_weights w (e # es) = w e + sum_weights w es"
  "sum_weights w (es @ fs) = sum_weights w es + sum_weights w fs"
  by (simp_all add: sum_weights_def)

lemma sum_weights_nonneg: "\<forall>e \<in> set es. 0 < w e \<Longrightarrow> 0 \<le> sum_weights w es"
  by (induction es) (auto simp: less_imp_le)

lemma exact_sub:
  assumes "exact w es" and "mset fs \<subseteq># mset es"
  shows "exact w fs" "dbl (sum_weights w fs) = sum_weights w fs"
  using assms by (auto simp: exact_def sum_weights_mset dest: mset_subset_eqD intro: subset_mset.order_trans
      set_mset_mono [THEN subsetD])

lemma running_append: "running w a (es @ fs) = running w a es @ running w (a + sum_weights w es) fs"
  by (induction es arbitrary: a) (simp_all add: add.assoc)

lemma running_snd [simp]: "map snd (running w a es) = es"
  by (induction es arbitrary: a) simp_all

lemma running_keys:
  "\<forall>e \<in> set es. 0 < w e \<Longrightarrow> (k, e) \<in> set (running w a es) \<Longrightarrow> a < k \<and> k \<le> a + sum_weights w es"
proof (induction es arbitrary: a)
  case (Cons x es)
  have n: "0 \<le> sum_weights w es" using Cons.prems(1) sum_weights_nonneg by auto
  have p: "0 < w x" using Cons.prems(1) by simp
  from Cons.prems(2) consider "k = a + w x" | "(k, e) \<in> set (running w (a + w x) es)" by auto
  then show ?case
  proof cases
    case 2
    then have "a + w x < k \<and> k \<le> a + w x + sum_weights w es" using Cons by simp
    then show ?thesis using p by (simp add: algebra_simps)
  qed (use n p in simp)
qed simp

lemma tree_put_last: "\<forall>(k', v') \<in> set m. k' < k \<Longrightarrow> tree_put k v m = m @ [(k, v)]"
  by (induction m) auto

lemma fill_running:
  assumes "exact w (pre @ es)" and "represents w pre s"
  shows "represents w (pre @ es) (fold (put_element w) es s)
    \<and> settings (fold (put_element w) es s) = settings s"
  using assms
proof (induction es arbitrary: pre s)
  case (Cons e es)
  have ex: "exact w (pre @ [e])" using exact_sub(1) [OF Cons.prems(1)] by simp
  have d: "dbl (weight_sum s + w e) = sum_weights w (pre @ [e])"
    using exact_sub(2) [OF Cons.prems(1), of "pre @ [e]"] Cons.prems(2) by (simp add: represents_def)
  have "\<forall>(k', v') \<in> set (distribution s). k' < sum_weights w pre + w e"
    using Cons.prems(2) ex running_keys [of pre w _ _ 0] by (fastforce simp: represents_def exact_def)
  then have "represents w (pre @ [e]) (put_element w e s)"
    using d Cons.prems(2) by (simp add: represents_def put_element_def Let_def tree_put_last running_append)
  from Cons.IH [OF _ this] Cons.prems(1) show ?case by (simp add: put_element_def Let_def)
qed simp

lemma new_sampler_represents: "exact w es \<Longrightarrow> represents w es (new_sampler w st es)"
  using fill_running [of w "[]" es "\<lparr>distribution = [], weight_sum = 0, settings = st\<rparr>"]
  by (simp add: new_sampler_def represents_def)

section \<open>One sample\<close>

lemma split_running:
  "es \<noteq> [] \<Longrightarrow> x \<le> a + sum_weights w es \<Longrightarrow> \<exists>pre e post. es = pre @ e # post
     \<and> (\<forall>(k, v) \<in> set (running w a pre). k < x) \<and> (pre \<noteq> [] \<longrightarrow> a + sum_weights w pre < x)
     \<and> x \<le> a + sum_weights w pre + w e"
proof (induction es arbitrary: a)
  case (Cons d es)
  show ?case
  proof (cases "x \<le> a + w d")
    case True
    then show ?thesis by (intro exI [of _ "[]"] exI [of _ d] exI [of _ es]) simp
  next
    case False
    then have "es \<noteq> []" using Cons.prems(2) by auto
    then obtain pre e post where p: "es = pre @ e # post"
      "\<forall>(k, v) \<in> set (running w (a + w d) pre). k < x" "pre \<noteq> [] \<longrightarrow> a + w d + sum_weights w pre < x"
      "x \<le> a + w d + sum_weights w pre + w e"
      using Cons.IH [of "a + w d"] Cons.prems(2) by (auto simp: algebra_simps)
    then show ?thesis using False
      by (intro exI [of _ "d # pre"] exI [of _ e] exI [of _ post]) (auto simp: algebra_simps)
  qed
qed simp

lemma filter_all: "\<forall>x \<in> set xs. P x \<Longrightarrow> filter P xs = xs"
  by (induction xs) auto

lemma filter_none: "\<forall>x \<in> set xs. \<not> P x \<Longrightarrow> filter P xs = []"
  by (induction xs) auto

lemma filter_running:
  assumes pos: "\<forall>e \<in> set (pre @ e # post). 0 < w e" and lt: "\<forall>(k, v) \<in> set (running w 0 pre). k < x"
    and le: "x \<le> sum_weights w pre + w e"
  shows "filter (\<lambda>(k, _). x \<le> k) (running w 0 (pre @ e # post)) =
      (sum_weights w pre + w e, e) # running w (sum_weights w pre + w e) post"
    and "filter (\<lambda>(k, _). k < x) (running w 0 (pre @ e # post)) = running w 0 pre"
proof -
  have post: "\<forall>(k, v) \<in> set (running w (sum_weights w pre + w e) post). x \<le> k"
    using running_keys [of post w _ _ "sum_weights w pre + w e"] pos le by fastforce
  have "filter (\<lambda>(k, _). x \<le> k) (running w 0 pre) = []" "filter (\<lambda>(k, _). k < x) (running w 0 pre) = running w 0 pre"
    "filter (\<lambda>(k, _). x \<le> k) (running w (sum_weights w pre + w e) post) = running w (sum_weights w pre + w e) post"
    "filter (\<lambda>(k, _). k < x) (running w (sum_weights w pre + w e) post) = []"
    by (intro filter_all filter_none; use lt post in fastforce)+
  then show "filter (\<lambda>(k, _). x \<le> k) (running w 0 (pre @ e # post)) =
      (sum_weights w pre + w e, e) # running w (sum_weights w pre + w e) post"
    and "filter (\<lambda>(k, _). k < x) (running w 0 (pre @ e # post)) = running w 0 pre"
    using le by (simp_all add: running_append)
qed

lemma try_sample_represents:
  assumes "represents w es s" and ex: "exact w es" and "es \<noteq> []" and "0 \<le> r" "r < 1"
  shows "\<exists>pre e post s'. es = pre @ e # post \<and> try_sample w r s = Some (e, s')
    \<and> represents w (pre @ post) s' \<and> settings s' = settings s
    \<and> (pre \<noteq> [] \<longrightarrow> sum_weights w pre < dbl (r * sum_weights w es))
    \<and> dbl (r * sum_weights w es) \<le> sum_weights w pre + w e"
proof -
  let ?x = "dbl (r * sum_weights w es)"
  have pos: "\<forall>e \<in> set es. 0 < w e" using ex by (simp add: exact_def)
  have "0 \<le> r * sum_weights w es" "r * sum_weights w es \<le> sum_weights w es"
    using sum_weights_nonneg [OF pos] assms(4,5) by (auto simp: mult_left_le_one_le)
  then have "?x \<le> 0 + sum_weights w es"
    using dbl_le exact_sub(2) [OF ex] by simp
  from split_running [OF assms(3) this] obtain pre e post where p: "es = pre @ e # post"
    "\<forall>(k, v) \<in> set (running w 0 pre). k < ?x" "pre \<noteq> [] \<longrightarrow> sum_weights w pre < ?x"
    "?x \<le> sum_weights w pre + w e" by (simp only: add_0_left) blast
  define s0 where "s0 = s\<lparr>weight_sum := sum_weights w pre, distribution := running w 0 pre\<rparr>"
  have "dbl (sum_weights w pre) = sum_weights w pre" using exact_sub(2) [OF ex, of pre] p(1) by simp
  then have t: "try_sample w r s = Some (e, fold (put_element w) post s0)"
    using filter_running [of pre e post w ?x] pos p assms(1)
    by (simp add: try_sample_def represents_def Let_def s0_def)
  have "exact w (pre @ post)" using exact_sub(1) [OF ex, of "pre @ post"] p(1) by simp
  from fill_running [OF this, of s0]
  have "represents w (pre @ post) (fold (put_element w) post s0)"
    "settings (fold (put_element w) post s0) = settings s"
    by (simp_all add: represents_def s0_def)
  then show ?thesis using t p by blast
qed

text \<open>A sample of a sampler that holds some elements returns the element in whose stretch of the running
  sums the draw falls, so that each is drawn in proportion to its weight; the sampler then holds the
  others, in the same order; it never has to draw again.\<close>

lemma sample_proportional:
  assumes "represents w es s" and "exact w es" and "es \<noteq> []" and "0 \<le> r" and "r < 1"
  shows "\<exists>pre e post s'. es = pre @ e # post \<and> sample w (r # rs) s = Some (e, s')
    \<and> represents w (pre @ post) s' \<and> settings s' = settings s
    \<and> (pre \<noteq> [] \<longrightarrow> sum_weights w pre < dbl (r * sum_weights w es))
    \<and> dbl (r * sum_weights w es) \<le> sum_weights w pre + w e"
proof -
  obtain pre e post s' where p: "es = pre @ e # post" "try_sample w r s = Some (e, s')"
    "represents w (pre @ post) s'" "settings s' = settings s"
    "pre \<noteq> [] \<longrightarrow> sum_weights w pre < dbl (r * sum_weights w es)"
    "dbl (r * sum_weights w es) \<le> sum_weights w pre + w e"
    using try_sample_represents [OF assms] by blast
  have "sample w (r # rs) s = Some (e, s')" using p(2) by simp
  then show ?thesis using p by blast
qed

section \<open>Many samples\<close>

fun sample_all :: "('a \<Rightarrow> rat) \<Rightarrow> rat list \<Rightarrow> ('a, 's) sampler \<Rightarrow> 'a list \<times> ('a, 's) sampler" where
  "sample_all w [] s = ([], s)"
| "sample_all w (r # rs) s =
     (case sample w [r] s of
        None \<Rightarrow> ([], s)
      | Some (e, s') \<Rightarrow> (let (es, s'') = sample_all w rs s' in (e # es, s'')))"

lemma sample_all_represents:
  assumes "represents w es s" and "exact w es" and "length rs \<le> length es" and "\<forall>r \<in> set rs. 0 \<le> r \<and> r < 1"
  shows "\<exists>rest. represents w rest (snd (sample_all w rs s))
    \<and> mset (fst (sample_all w rs s)) + mset rest = mset es \<and> length (fst (sample_all w rs s)) = length rs"
  using assms
proof (induction rs arbitrary: es s)
  case (Cons r rs)
  then have "es \<noteq> []" by auto
  from try_sample_represents [OF Cons.prems(1,2) this, of r] Cons.prems(4)
  obtain pre e post s' where p: "es = pre @ e # post" "try_sample w r s = Some (e, s')"
    "represents w (pre @ post) s'" by auto
  have "exact w (pre @ post)" using exact_sub(1) [OF Cons.prems(2), of "pre @ post"] p(1) by simp
  from Cons.IH [OF p(3) this] Cons.prems(3,4) p(1)
  obtain rest where "represents w rest (snd (sample_all w rs s'))"
    "mset (fst (sample_all w rs s')) + mset rest = mset (pre @ post)"
    "length (fst (sample_all w rs s')) = length rs" by auto
  moreover have "sample_all w (r # rs) s = (e # fst (sample_all w rs s'), snd (sample_all w rs s'))"
    using p(2) by (simp add: Let_def split_def)
  ultimately show ?case using p(1) by (intro exI [of _ rest]) simp
qed auto

section \<open>What is in stock\<close>

text \<open>Without any assumption on the weights, drawing takes an element out, and nothing is added.\<close>

definition stock :: "('a, 's) sampler \<Rightarrow> 'a multiset" where
  "stock s = mset (map snd (distribution s))"

lemma tree_put_mset: "mset (map snd (tree_put k v m)) \<subseteq># add_mset v (mset (map snd m))"
proof (induction m)
  case (Cons x m)
  obtain k' v' where x: "x = (k', v')" by (cases x)
  show ?case
    using Cons x by (auto simp: add_mset_commute [of v' v] intro: subset_mset.order_trans)
qed simp

lemma stock_put: "stock (put_element w e s) \<subseteq># add_mset e (stock s)"
  using tree_put_mset [of "dbl (weight_sum s + w e)" e "distribution s"]
  by (simp add: stock_def put_element_def Let_def)

lemma stock_fill: "stock (fold (put_element w) es s) \<subseteq># stock s + mset es"
proof (induction es arbitrary: s)
  case (Cons e es)
  have "stock (fold (put_element w) es (put_element w e s)) \<subseteq># stock (put_element w e s) + mset es"
    by (rule Cons.IH)
  also have "\<dots> \<subseteq># add_mset e (stock s) + mset es"
    by (rule subset_mset.add_right_mono) (rule stock_put)
  finally show ?case by simp
qed simp

lemma stock_new: "stock (new_sampler w st es) \<subseteq># mset es"
  using stock_fill [of w es "\<lparr>distribution = [], weight_sum = 0, settings = st\<rparr>"]
  by (simp add: new_sampler_def stock_def)

lemma settings_fill [simp]: "settings (fold (put_element w) es s) = settings s"
  by (induction es arbitrary: s) (simp_all add: put_element_def Let_def)

lemma settings_new [simp]: "settings (new_sampler w st es) = st"
  by (simp add: new_sampler_def)

lemma try_sample_stock:
  assumes "try_sample w r s = Some (e, s')"
  shows "add_mset e (stock s') \<subseteq># stock s \<and> settings s' = settings s"
proof -
  define x where "x = dbl (r * weight_sum s)"
  obtain k rest where f: "filter (\<lambda>(k, _). x \<le> k) (distribution s) = (k, e) # rest"
    and s': "s' = fold (put_element w) (map snd rest) (s\<lparr>weight_sum := dbl (k - w e),
        distribution := filter (\<lambda>(k, _). k < x) (distribution s)\<rparr>)"
    using assms by (auto simp: try_sample_def Let_def x_def split: list.splits)
  have "mset xs = mset (filter (\<lambda>(k, _). x \<le> k) xs) + mset (filter (\<lambda>(k, _). k < x) xs)" for xs :: "(rat \<times> 'a) list"
    by (induction xs) auto
  then have d: "mset (distribution s) = mset ((k, e) # rest) + mset (filter (\<lambda>(k, _). k < x) (distribution s))"
    using f by metis
  have "stock s = add_mset e (mset (map snd (filter (\<lambda>(k, _). k < x) (distribution s))) + mset (map snd rest))"
    unfolding stock_def mset_map d by simp
  moreover have "stock s' \<subseteq># mset (map snd (filter (\<lambda>(k, _). k < x) (distribution s))) + mset (map snd rest)"
    using stock_fill [of w "map snd rest" "s\<lparr>weight_sum := dbl (k - w e),
      distribution := filter (\<lambda>(k, _). k < x) (distribution s)\<rparr>"] unfolding s' by (simp add: stock_def)
  ultimately show ?thesis unfolding s' by simp
qed

lemma sample_stock:
  "sample w rs s = Some (e, s') \<Longrightarrow> add_mset e (stock s') \<subseteq># stock s \<and> settings s' = settings s"
  by (induction w rs s rule: sample.induct) (auto dest: try_sample_stock split: option.splits)

lemma sample_all_stock:
  "mset (fst (sample_all w rs s)) + stock (snd (sample_all w rs s)) \<subseteq># stock s"
proof (induction rs arbitrary: s)
  case (Cons r rs)
  show ?case
  proof (cases "sample w [r] s")
    case (Some y)
    obtain e s' where y: "y = (e, s')" by (cases y)
    have "add_mset e (mset (fst (sample_all w rs s')) + stock (snd (sample_all w rs s'))) \<subseteq># add_mset e (stock s')"
      using Cons.IH [of s'] by simp
    also have "\<dots> \<subseteq># stock s" using sample_stock [OF Some [unfolded y]] by blast
    finally show ?thesis unfolding sample_all.simps Some y by (simp add: Let_def split_def)
  qed (simp del: sample.simps)
qed simp

text \<open>C36. Sampling is without replacement. Whatever the weights are, what was drawn from a fresh sampler and
  what it still holds are together not more than the population, so that nothing is drawn more often than it
  occurs there. If the weights are positive and every sum of some of them is a \<open>double\<close>, as for integers
  whose sum is below \<open>2 ^ 53\<close> (\<open>exact\<close>), then every draw returns an element, and as many draws as there are
  elements return each exactly once and leave the sampler empty. For other weights the sums are rounded, and an
  element can be lost (\<open>weightless_replaces\<close>).\<close>

theorem sample_without_replacement:
  "mset (fst (sample_all w rs (new_sampler w st population)))
      + stock (snd (sample_all w rs (new_sampler w st population))) \<subseteq># mset population
    \<and> (exact w population \<and> length rs \<le> length population \<and> (\<forall>r \<in> set rs. 0 \<le> r \<and> r < 1) \<longrightarrow>
        length (fst (sample_all w rs (new_sampler w st population))) = length rs
        \<and> (length rs = length population \<longrightarrow>
             mset (fst (sample_all w rs (new_sampler w st population))) = mset population
             \<and> isEmpty (snd (sample_all w rs (new_sampler w st population)))))"
proof (intro conjI impI)
  let ?r = "sample_all w rs (new_sampler w st population)"
  show "mset (fst ?r) + stock (snd ?r) \<subseteq># mset population"
    using sample_all_stock stock_new by (rule subset_mset.order_trans)
  assume a: "exact w population \<and> length rs \<le> length population \<and> (\<forall>r \<in> set rs. 0 \<le> r \<and> r < 1)"
  then obtain rest where r: "represents w rest (snd ?r)" "mset (fst ?r) + mset rest = mset population"
    "length (fst ?r) = length rs"
    using sample_all_represents [OF new_sampler_represents, of w population rs st] by blast
  show "length (fst ?r) = length rs" by (rule r(3))
  assume all: "length rs = length population"
  have "size (mset (fst ?r)) + size (mset rest) = size (mset population)"
    by (simp only: r(2) [symmetric] size_union)
  then have "rest = []" using r(3) all by simp
  then show "mset (fst ?r) = mset population" "isEmpty (snd ?r)"
    using r(1,2) by (simp_all add: isEmpty_def represents_def)
qed

section \<open>Elements without weight\<close>

definition sorted_keys :: "(rat \<times> 'a) list \<Rightarrow> bool" where
  "sorted_keys m \<longleftrightarrow> sorted_wrt (<) (map fst m)"

lemma set_tree_put: "sorted_keys m \<Longrightarrow> set (tree_put k v m) = insert (k, v) {x \<in> set m. fst x \<noteq> k}"
proof (induction m)
  case (Cons x m)
  obtain k' v' where x: "x = (k', v')" by (cases x)
  have m: "sorted_keys m" and gt: "\<forall>y \<in> set m. k' < fst y"
    using Cons.prems x by (auto simp: sorted_keys_def)
  consider "k < k'" | "k = k'" | "k' < k" by linarith
  then show ?case
  proof cases
    case 1
    then have "\<forall>y \<in> set m. fst y \<noteq> k" using gt by fastforce
    then show ?thesis using 1 x by auto
  next
    case 2
    then have "\<forall>y \<in> set m. fst y \<noteq> k" using gt by fastforce
    then show ?thesis using 2 x by auto
  next
    case 3
    then show ?thesis using Cons.IH [OF m] x by auto
  qed
qed simp

lemma sorted_tree_put: "sorted_keys m \<Longrightarrow> sorted_keys (tree_put k v m)"
proof (induction m)
  case (Cons x m)
  have "fst ` set (tree_put k v m) \<subseteq> insert k (fst ` set m)"
    using set_tree_put [of m k v] Cons.prems by (auto simp: sorted_keys_def)
  then show ?case using Cons by (cases x) (fastforce simp: sorted_keys_def)
qed (simp add: sorted_keys_def)

lemma sorted_fill: "sorted_keys (distribution s) \<Longrightarrow> sorted_keys (distribution (fold (put_element w) es s))"
  by (induction es arbitrary: s) (simp_all add: put_element_def Let_def sorted_tree_put)

lemma fill_values:
  "sorted_keys (distribution s) \<Longrightarrow>
     snd ` set (distribution (fold (put_element w) es s)) \<subseteq> snd ` set (distribution s) \<union> set es"
proof (induction es arbitrary: s)
  case (Cons e es)
  have so: "sorted_keys (distribution (put_element w e s))"
    using sorted_fill [OF Cons.prems, of w "[e]"] by simp
  have "snd ` set (distribution (put_element w e s)) \<subseteq> insert e (snd ` set (distribution s))"
    using Cons.prems by (auto simp: put_element_def Let_def set_tree_put)
  with Cons.IH [OF so] show ?case by (simp only: fold.simps comp_def list.set) blast
qed simp

lemma sample_value: "sample w rs s = Some (e, s') \<Longrightarrow> e \<in> snd ` set (distribution s)"
proof (induction w rs s rule: sample.induct)
  case (2 w r rs s)
  show ?case
  proof (cases "try_sample w r s")
    case None
    then show ?thesis using 2 by simp
  next
    case (Some y)
    then show ?thesis using 2(2)
      by (auto simp: try_sample_def Let_def split: list.splits dest!: filter_eq_ConsD intro!: rev_image_eqI)
  qed
qed simp

lemma only_others: "A \<subseteq> insert (k, a) B \<Longrightarrow> {x \<in> A. fst x \<noteq> k} \<subseteq> B"
  by auto

text \<open>When adding the weight of an element leaves the rounded sum as it was, because the weight is zero or
  too small, the element takes the place of the one before it: that one, whatever its weight, can never
  be sampled.\<close>

lemma weightless_replaces:
  assumes "dbl (weight_sum (new_sampler w st (pre @ [a])) + w b) = weight_sum (new_sampler w st (pre @ [a]))"
    and "a \<notin> set (pre @ b # post)"
  shows "\<forall>rs e s'. sample w rs (new_sampler w st (pre @ a # b # post)) = Some (e, s') \<longrightarrow> e \<noteq> a"
proof -
  let ?s0 = "\<lparr>distribution = [], weight_sum = 0, settings = st\<rparr>"
  let ?p = "fold (put_element w) pre ?s0" and ?a = "fold (put_element w) (pre @ [a]) ?s0"
  let ?b = "put_element w b ?a"
  have e: "sorted_keys (distribution ?s0)" by (simp add: sorted_keys_def)
  have p: "snd ` set (distribution ?p) \<subseteq> set pre" using fill_values [OF e, of w pre] by simp
  have sa: "sorted_keys (distribution ?a)" by (rule sorted_fill [OF e])
  have a: "set (distribution ?a) \<subseteq> insert (weight_sum ?a, a) (set (distribution ?p))"
    using sorted_fill [OF e, of w pre] by (auto simp: put_element_def Let_def set_tree_put)
  have "distribution ?b = tree_put (weight_sum ?a) b (distribution ?a)"
    using assms(1) by (simp add: new_sampler_def put_element_def Let_def)
  then have "set (distribution ?b) = insert (weight_sum ?a, b) {x \<in> set (distribution ?a). fst x \<noteq> weight_sum ?a}"
    by (simp only: set_tree_put [OF sa])
  moreover have "{x \<in> set (distribution ?a). fst x \<noteq> weight_sum ?a} \<subseteq> set (distribution ?p)"
    using a by (rule only_others)
  ultimately have "set (distribution ?b) \<subseteq> insert (weight_sum ?a, b) (set (distribution ?p))" by blast
  then have "snd ` set (distribution ?b) \<subseteq> snd ` insert (weight_sum ?a, b) (set (distribution ?p))"
    by (rule image_mono)
  then have b: "snd ` set (distribution ?b) \<subseteq> set (pre @ [b])" using p by auto
  have "sorted_keys (distribution ?b)" using sorted_fill [OF e, of w "pre @ [a, b]"] by simp
  from fill_values [OF this, of w post] b
  have "a \<notin> snd ` set (distribution (new_sampler w st (pre @ a # b # post)))"
    using assms(2) by (auto simp: new_sampler_def)
  then show ?thesis using sample_value by metis
qed

section \<open>Examples\<close>

lemma exact_ints:
  assumes "\<forall>e \<in> set es. 0 < v e" and "sum_list (map v es) < 2 ^ 53"
  shows "exact (\<lambda>e. of_int (v e)) es"
  unfolding exact_def
proof (intro conjI ballI allI impI)
  fix M assume M: "M \<subseteq># mset es"
  have s: "sum_mset (image_mset (\<lambda>e. of_int (v e)) M) = (of_int (sum_mset (image_mset v M)) :: rat)"
    by (induction M) simp_all
  obtain N where N: "mset es = M + N" using M by (auto simp: subset_mset.le_iff_add)
  have "0 \<le> sum_mset (image_mset v K)" if "set_mset K \<subseteq> set es" for K
    using that assms(1) by (induction K) (auto simp: less_imp_le)
  moreover have "set_mset M \<subseteq> set es" "set_mset N \<subseteq> set es"
    using N by (metis set_mset_mset set_mset_union Un_upper1 Un_upper2)+
  moreover have "sum_list (map v es) = sum_mset (image_mset v M) + sum_mset (image_mset v N)"
    by (metis N image_mset_union mset_map sum_mset.union sum_mset_sum_list)
  ultimately have "0 \<le> sum_mset (image_mset v M)" "0 \<le> sum_mset (image_mset v N)"
    "sum_list (map v es) = sum_mset (image_mset v M) + sum_mset (image_mset v N)" by blast+
  then have "0 \<le> sum_mset (image_mset v M)" "sum_mset (image_mset v M) < 2 ^ 53"
    using assms(2) by linarith+
  then show "dbl (sum_mset (image_mset (\<lambda>e. of_int (v e)) M)) = sum_mset (image_mset (\<lambda>e. of_int (v e)) M)"
    unfolding s by (rule dbl_int)
qed (use assms in auto)

definition example_weights :: "int \<Rightarrow> rat" where
  "example_weights = (\<lambda>e. of_int e)"

lemma example_exact: "exact example_weights [1, 2, 3]"
  unfolding example_weights_def by (rule exact_ints) simp_all

lemma sample_proportional_witness:
  "\<exists>e s'. sample example_weights [1 / 2] (new_sampler example_weights () [1, 2, 3]) = Some (e, s')"
  using sample_proportional [OF new_sampler_represents [OF example_exact] example_exact, of "1 / 2" "[]" "()"]
  by auto

lemma sample_without_replacement_witness:
  "mset (fst (sample_all example_weights [0, 1 / 2, 0] (new_sampler example_weights () [1, 2, 3]))) = {#1, 2, 3#}"
  using sample_without_replacement [of example_weights "[0, 1 / 2, 0]" "()" "[1, 2, 3]"] example_exact by simp

lemma weightless_replaces_witness:
  "\<exists>e s'. sample of_int [0] (new_sampler of_int () [1, 0 :: int]) = Some (e, s') \<and> e \<noteq> 1"
proof -
  have "dbl (weight_sum (new_sampler of_int () ([] @ [1 :: int])) + of_int 0) =
      weight_sum (new_sampler of_int () ([] @ [1 :: int]))"
    using dbl_int [of 1] by (simp add: new_sampler_def put_element_def Let_def)
  from weightless_replaces [OF this, of "[]"]
  have n: "\<forall>rs e s'. sample of_int rs (new_sampler of_int () [1, 0 :: int]) = Some (e, s') \<longrightarrow> e \<noteq> 1"
    by simp
  have "new_sampler of_int () [1, 0 :: int] = \<lparr>distribution = [(1, 0)], weight_sum = 1, settings = ()\<rparr>"
    using dbl_int [of 1] by (simp add: new_sampler_def put_element_def Let_def)
  then have "sample of_int [0] (new_sampler of_int () [1, 0 :: int]) \<noteq> None"
    using dbl_int [of 0] by (simp add: try_sample_def)
  then show ?thesis using n by (metis not_None_eq surj_pair)
qed

end
