(* ===== verification/Predicates.thy ===== *)
theory Predicates
  imports Java_Base
begin

text \<open>
  Predicates on beatmaps in a request for recommendations (\<open>tillerinobot/predicates\<close>): a bound on a
  numeric property such as \<open>AR>=9\<close>, or an excluded mod such as \<open>-HD\<close>; how they are parsed, tested, and
  found to contradict each other.

  \<open>Double.parseDouble\<close> and the enumeration of mods are parameters.
\<close>

section \<open>Numbers\<close>

text \<open>The \<open>double\<close>s that can be typed, with their comparisons: \<open>NaN\<close> compares with nothing.\<close>

datatype number = NaN | NegInfinity | Finite rat | PosInfinity

instantiation number :: ord
begin

fun less_number :: "number \<Rightarrow> number \<Rightarrow> bool" where
  "less_number NaN y \<longleftrightarrow> False"
| "less_number x NaN \<longleftrightarrow> False"
| "less_number x NegInfinity \<longleftrightarrow> False"
| "less_number NegInfinity y \<longleftrightarrow> True"
| "less_number PosInfinity y \<longleftrightarrow> False"
| "less_number x PosInfinity \<longleftrightarrow> True"
| "less_number (Finite a) (Finite b) \<longleftrightarrow> a < b"

definition less_eq_number :: "number \<Rightarrow> number \<Rightarrow> bool" where
  "less_eq_number x y \<longleftrightarrow> x < y \<or> (x = y \<and> x \<noteq> NaN)"

instance ..

end

section \<open>Predicates\<close>

datatype property =
    ApproachRate | BeatsPerMinute | OverallDifficulty | MapLength | CircleSize | StarDiff

fun getName :: "property \<Rightarrow> string" where
  "getName ApproachRate = ''AR''"
| "getName BeatsPerMinute = ''BPM''"
| "getName OverallDifficulty = ''OD''"
| "getName MapLength = ''LEN''"
| "getName CircleSize = ''CS''"
| "getName StarDiff = ''STAR''"

record numeric_predicate =
  originalArgument :: string
  property :: property
  pmin :: number
  includeMin :: bool
  pmax :: number
  includeMax :: bool

datatype 'm predicate = Numeric numeric_predicate | ExcludeMod 'm

text \<open>The enumeration of mods: whether a mod is among given ones, its short name, and finding it by its
  name.\<close>

record 'm mods_lib =
  mod_is :: "'m \<Rightarrow> int \<Rightarrow> bool"
  getShortName :: "'m \<Rightarrow> string"
  fromShortName :: "string \<Rightarrow> 'm option"

text \<open>\<open>NumericPropertyPredicate.test\<close> on the value of the property, and \<open>ExcludeMod.test\<close>.\<close>

definition test_numeric :: "numeric_predicate \<Rightarrow> number \<Rightarrow> bool" where
  "test_numeric p v =
     (if v < pmin p then False
      else if v \<le> pmin p \<and> \<not> includeMin p then False
      else if pmax p < v then False
      else v < pmax p \<or> includeMax p)"

fun test_predicate :: "'m mods_lib \<Rightarrow> 'm predicate \<Rightarrow> int \<Rightarrow> (property \<Rightarrow> number) \<Rightarrow> bool" where
  "test_predicate lib (Numeric p) mods getValue = test_numeric p (getValue (property p))"
| "test_predicate lib (ExcludeMod m) mods getValue = (\<not> mod_is lib m mods)"

text \<open>\<open>p.contradicts(q)\<close>\<close>

definition contradicts_numeric :: "numeric_predicate \<Rightarrow> numeric_predicate \<Rightarrow> bool" where
  "contradicts_numeric p q =
     (if property q \<noteq> property p then False
      else if pmax p < pmin q \<or> pmax q < pmin p then True
      else if pmax p \<le> pmin q \<and> includeMin q \<noteq> includeMax p then True
      else pmax q \<le> pmin p \<and> includeMin p \<noteq> includeMax q)"

fun contradicts :: "'m predicate \<Rightarrow> 'm predicate \<Rightarrow> bool" where
  "contradicts (Numeric p) (Numeric q) = contradicts_numeric p q"
| "contradicts p q = False"

section \<open>Parsing\<close>

text \<open>The answers to the user: an invalid choice with the expected format, or mods mixed with nomod.\<close>

datatype user_exn = InvalidChoice string string | MixedNomodAndMods

datatype relation = EQ | GEQ | LEQ | G | L

text \<open>The relation and what follows it; each prefix is tried once, one after the other.\<close>

definition strip_relation :: "string \<times> relation \<Rightarrow> relation option \<times> string \<Rightarrow> relation option \<times> string" where
  "strip_relation pr state = (case pr of (p, r) \<Rightarrow> case state of (relation, rest) \<Rightarrow>
     if startsWith rest p then (Some r, drop (length p) rest) else (relation, rest))"

definition parse_relation :: "string \<Rightarrow> relation option \<times> string" where
  "parse_relation rest =
     fold strip_relation [(''<='', LEQ), (''<'', L), (''>='', GEQ), (''>'', G), (''='', EQ)] (None, rest)"

definition correctFormat :: "property \<Rightarrow> string" where
  "correctFormat p =
     (let n = getName p
      in n @ ''<X | '' @ n @ ''<=X | '' @ n @ ''=X | '' @ n @ ''>=X | '' @ n @ ''>X where X is a number'')"

definition with_relation :: "string \<Rightarrow> property \<Rightarrow> relation \<Rightarrow> number \<Rightarrow> numeric_predicate" where
  "with_relation arg p r d =
     \<lparr>originalArgument = arg, property = p,
      pmin = (if r = EQ \<or> r = GEQ \<or> r = G then d else NegInfinity), includeMin = (r \<noteq> G),
      pmax = (if r = EQ \<or> r = LEQ \<or> r = L then d else PosInfinity), includeMax = (r \<noteq> L)\<rparr>"

text \<open>\<open>NumericPredicateBuilder.build\<close>: \<open>None\<close> for an argument that is not about the property.\<close>

definition build_numeric ::
  "(string \<Rightarrow> number option) \<Rightarrow> property \<Rightarrow> string \<Rightarrow> user_exn + numeric_predicate option" where
  "build_numeric parseDouble p arg =
     (if \<not> startsWith (to_lower arg) (to_lower (getName p)) then Inr None
      else
        let (relation, rest) = parse_relation (drop (length (getName p)) arg)
        in case relation of
             None \<Rightarrow> Inl (InvalidChoice arg (correctFormat p))
           | Some r \<Rightarrow>
               (case parseDouble rest of
                  None \<Rightarrow> Inl (InvalidChoice arg (correctFormat p))
                | Some d \<Rightarrow> Inr (Some (with_relation arg p r d))))"

text \<open>\<open>s.toUpperCase()\<close>, for ASCII letters.\<close>

definition to_upper :: "string \<Rightarrow> string" where
  "to_upper s = map (\<lambda>c. let n = (of_char c :: nat)
     in if 97 \<le> n \<and> n \<le> 122 then char_of (n - 32) else c) s"

definition build_exclude :: "'m mods_lib \<Rightarrow> string \<Rightarrow> 'm option" where
  "build_exclude lib arg =
     (if \<not> startsWith arg ''-'' then None else fromShortName lib (to_upper (drop 1 arg)))"

text \<open>\<open>PredicateParser.tryParse\<close>: the first builder that knows the argument.\<close>

definition properties :: "property list" where
  "properties = [ApproachRate, BeatsPerMinute, OverallDifficulty, MapLength, CircleSize, StarDiff]"

fun try_numeric ::
  "(string \<Rightarrow> number option) \<Rightarrow> property list \<Rightarrow> string \<Rightarrow> user_exn + numeric_predicate option" where
  "try_numeric parseDouble [] arg = Inr None"
| "try_numeric parseDouble (p # ps) arg =
     (case build_numeric parseDouble p arg of
        Inl e \<Rightarrow> Inl e
      | Inr (Some r) \<Rightarrow> Inr (Some r)
      | Inr None \<Rightarrow> try_numeric parseDouble ps arg)"

definition tryParse ::
  "(string \<Rightarrow> number option) \<Rightarrow> 'm mods_lib \<Rightarrow> string \<Rightarrow> user_exn + 'm predicate option" where
  "tryParse parseDouble lib arg =
     (case try_numeric parseDouble properties arg of
        Inl e \<Rightarrow> Inl e
      | Inr (Some r) \<Rightarrow> Inr (Some (Numeric r))
      | Inr None \<Rightarrow> Inr (map_option ExcludeMod (build_exclude lib arg)))"

section \<open>Contradictions\<close>

text \<open>Two bounds that touch in a number that neither includes.\<close>

definition touching :: "numeric_predicate \<Rightarrow> numeric_predicate \<Rightarrow> bool" where
  "touching p q \<longleftrightarrow> (pmax p = pmin q \<and> \<not> includeMax p \<and> \<not> includeMin q)
     \<or> (pmax q = pmin p \<and> \<not> includeMax q \<and> \<not> includeMin p)"

fun holds_relation :: "relation \<Rightarrow> rat \<Rightarrow> rat \<Rightarrow> bool" where
  "holds_relation EQ v d \<longleftrightarrow> v = d"
| "holds_relation GEQ v d \<longleftrightarrow> v \<ge> d"
| "holds_relation LEQ v d \<longleftrightarrow> v \<le> d"
| "holds_relation G v d \<longleftrightarrow> v > d"
| "holds_relation L v d \<longleftrightarrow> v < d"

lemma test_with_relation: "test_numeric (with_relation arg p r (Finite d)) (Finite v) \<longleftrightarrow> holds_relation r v d"
  by (cases r) (auto simp: test_numeric_def with_relation_def less_eq_number_def)

lemma both_hold: "(\<exists>v. holds_relation r v a \<and> holds_relation s v b) \<longleftrightarrow>
   (case (r, s) of
      (EQ, _) \<Rightarrow> holds_relation s a b
    | (_, EQ) \<Rightarrow> holds_relation r b a
    | (GEQ, LEQ) \<Rightarrow> a \<le> b | (LEQ, GEQ) \<Rightarrow> b \<le> a
    | (GEQ, L) \<Rightarrow> a < b | (L, GEQ) \<Rightarrow> b < a
    | (G, LEQ) \<Rightarrow> a < b | (LEQ, G) \<Rightarrow> b < a
    | (G, L) \<Rightarrow> a < b | (L, G) \<Rightarrow> b < a
    | _ \<Rightarrow> True)"
proof -
  obtain u where u: "a < u" "b < u" using gt_ex [of "max a b"] by auto
  obtain l where l: "l < a" "l < b" using lt_ex [of "min a b"] by auto
  note some = exI [of _ a] exI [of _ b] exI [of _ u] exI [of _ l]
  show ?thesis
    using dense [of a b] dense [of b a] u l
    by (cases r; cases s) (auto intro: order.trans less_le_trans le_less_trans some less_imp_le)
qed

lemma num_less_trans: "(x :: number) < y \<Longrightarrow> y < z \<Longrightarrow> x < z"
  by (cases x; cases y; cases z) auto

lemma num_le_total: "x \<noteq> NaN \<Longrightarrow> y \<noteq> NaN \<Longrightarrow> \<not> x < y \<longleftrightarrow> y \<le> x"
  by (cases x; cases y) (auto simp: less_eq_number_def)

text \<open>What a passed test says, for a value and bounds that are numbers.\<close>

lemma test_bounds:
  assumes "test_numeric p v" and "v \<noteq> NaN"
  shows "pmin p \<noteq> NaN \<Longrightarrow> pmin p < v \<or> (pmin p = v \<and> includeMin p)"
    and "pmax p \<noteq> NaN \<Longrightarrow> v < pmax p \<or> (pmax p = v \<and> includeMax p)"
  using assms num_le_total [of v "pmin p"] num_le_total [of "pmax p" v]
  by (auto simp: test_numeric_def less_eq_number_def split: if_splits)

lemma num_less_not_NaN: "x < y \<Longrightarrow> x \<noteq> NaN \<and> y \<noteq> NaN"
  by (cases x; cases y) auto

lemma num_less_irrefl [simp]: "\<not> x < (x :: number)"
  by (cases x) auto

text \<open>Bounds that lie apart, or meet where only one of them includes the number.\<close>

lemma apart:
  assumes "pmax p < pmin q \<or> (pmax p \<le> pmin q \<and> includeMin q \<noteq> includeMax p)"
    and "v \<noteq> NaN" and "test_numeric p v"
  shows "\<not> test_numeric q v"
proof
  assume q: "test_numeric q v"
  have n: "pmax p \<noteq> NaN" "pmin q \<noteq> NaN"
    using assms(1) num_less_not_NaN by (auto simp: less_eq_number_def)
  note b = test_bounds(2) [OF assms(3,2) n(1)] test_bounds(1) [OF q assms(2) n(2)]
  from assms(1) b show False
    by (auto simp: less_eq_number_def dest: num_less_trans)
qed

lemma contradicts_sound:
  assumes "contradicts_numeric p q" and "v \<noteq> NaN"
  shows "property p = property q \<and> \<not> (test_numeric p v \<and> test_numeric q v)"
  using assms apart [of p q v] apart [of q p v] by (auto simp: contradicts_numeric_def split: if_splits)

lemma contradicts_complete:
  "contradicts_numeric (with_relation arg pr r (Finite a)) (with_relation arg' pr s (Finite b)) \<longleftrightarrow>
     \<not> (\<exists>v. holds_relation r v a \<and> holds_relation s v b)
     \<and> \<not> touching (with_relation arg pr r (Finite a)) (with_relation arg' pr s (Finite b))"
  unfolding both_hold
  by (cases r; cases s) (auto simp: contradicts_numeric_def with_relation_def touching_def less_eq_number_def)

text \<open>C38. Predicates that are found to contradict each other are about the same property, and no value
  satisfies both. For parsed predicates on one property the converse holds but for one case, and the
  answer does not depend on the order: two strict bounds at the same number, such as \<open>AR<9\<close> and
  \<open>AR>9\<close>, contradict each other and are not found.\<close>

theorem contradicts_correct:
  "(\<forall>p q v. contradicts (Numeric p) (Numeric q) \<longrightarrow> v \<noteq> NaN \<longrightarrow>
      property p = property q \<and> \<not> (test_numeric p v \<and> test_numeric q v))
   \<and> (\<forall>arg arg' pr r s a b.
        let p = with_relation arg pr r (Finite a); q = with_relation arg' pr s (Finite b)
        in (contradicts (Numeric p) (Numeric q) \<longleftrightarrow>
              (\<nexists>v. test_numeric p (Finite v) \<and> test_numeric q (Finite v)) \<and> \<not> touching p q)
           \<and> (contradicts (Numeric p) (Numeric q) \<longleftrightarrow> contradicts (Numeric q) (Numeric p))
           \<and> (touching p q \<longrightarrow> a = b \<and> {r, s} = {L, G}))"
proof -
  have t: "touching (with_relation arg pr r (Finite a)) (with_relation arg' pr s (Finite b)) \<longrightarrow>
      a = b \<and> {r, s} = {L, G}" for arg arg' pr r s and a b :: rat
    by (cases r; cases s) (auto simp: touching_def with_relation_def)
  have sym: "contradicts_numeric (with_relation arg pr r (Finite a)) (with_relation arg' pr s (Finite b)) \<longleftrightarrow>
      contradicts_numeric (with_relation arg' pr s (Finite b)) (with_relation arg pr r (Finite a))"
    for arg arg' pr r s and a b :: rat
    unfolding contradicts_complete touching_def by blast
  have f: "\<forall>p q v. contradicts_numeric p q \<longrightarrow> v \<noteq> NaN \<longrightarrow>
      property p = property q \<and> \<not> (test_numeric p v \<and> test_numeric q v)"
    using contradicts_sound by blast
  have c: "contradicts_numeric (with_relation arg pr r (Finite a)) (with_relation arg' pr s (Finite b)) \<longleftrightarrow>
      (\<nexists>v. test_numeric (with_relation arg pr r (Finite a)) (Finite v)
        \<and> test_numeric (with_relation arg' pr s (Finite b)) (Finite v))
      \<and> \<not> touching (with_relation arg pr r (Finite a)) (with_relation arg' pr s (Finite b))"
    for arg arg' pr r s and a b :: rat
    unfolding contradicts_complete test_with_relation ..
  show ?thesis
    unfolding Let_def contradicts.simps(1) by (rule conjI, rule f, intro allI conjI c sym t)
qed

section \<open>What a parsed predicate means\<close>

fun relation_text :: "relation \<Rightarrow> string" where
  "relation_text EQ = ''=''"
| "relation_text GEQ = ''>=''"
| "relation_text LEQ = ''<=''"
| "relation_text G = ''>''"
| "relation_text L = ''<''"

definition no_relation :: "string \<Rightarrow> bool" where
  "no_relation s \<longleftrightarrow> s = [] \<or> hd s \<notin> set ''<>=''"

lemma parse_relation_text: "no_relation s \<Longrightarrow> parse_relation (relation_text r @ s) = (Some r, s)"
  by (cases r; cases s) (auto simp: parse_relation_def strip_relation_def startsWith_def no_relation_def)

lemma parse_no_relation: "no_relation s \<Longrightarrow> parse_relation s = (None, s)"
  by (cases s) (auto simp: parse_relation_def strip_relation_def startsWith_def no_relation_def)

lemma to_lower_same_length: "to_lower s = to_lower t \<Longrightarrow> length s = length t"
  using length_to_lower [of s] length_to_lower [of t] by simp

lemma startsWith_lower:
  "to_lower n = to_lower name \<Longrightarrow> startsWith (to_lower (n @ s)) (to_lower name) \<and> drop (length name) (n @ s) = s"
  using to_lower_same_length [of n name] by (auto simp: startsWith_def to_lower_def)

text \<open>C39. An argument made of the name of a property in any case, a relation and a number is parsed to a
  predicate on that property that passes exactly the values in that relation to the number; without a
  relation, or without a number behind it, the user is told the format. Whatever reads the numbers.\<close>

theorem build_numeric_meaning:
  assumes "to_lower n = to_lower (getName p)" and "no_relation s"
  shows "build_numeric parseDouble p (n @ s) = Inl (InvalidChoice (n @ s) (correctFormat p))
    \<and> (case parseDouble s of
         None \<Rightarrow> build_numeric parseDouble p (n @ relation_text r @ s) =
             Inl (InvalidChoice (n @ relation_text r @ s) (correctFormat p))
       | Some d \<Rightarrow>
           (\<exists>q. build_numeric parseDouble p (n @ relation_text r @ s) = Inr (Some q)
             \<and> originalArgument q = n @ relation_text r @ s \<and> property q = p
             \<and> (\<forall>x v. d = Finite x \<longrightarrow> (test_numeric q (Finite v) \<longleftrightarrow> holds_relation r v x))))"
proof -
  have a: "build_numeric parseDouble p (n @ s) = Inl (InvalidChoice (n @ s) (correctFormat p))"
    using startsWith_lower [OF assms(1), of s] parse_no_relation [OF assms(2)] by (simp add: build_numeric_def)
  have b: "build_numeric parseDouble p (n @ relation_text r @ s) =
      (case parseDouble s of
         None \<Rightarrow> Inl (InvalidChoice (n @ relation_text r @ s) (correctFormat p))
       | Some d \<Rightarrow> Inr (Some (with_relation (n @ relation_text r @ s) p r d)))"
    using startsWith_lower [OF assms(1), of "relation_text r @ s"] parse_relation_text [OF assms(2), of r]
    by (simp add: build_numeric_def)
  have w: "originalArgument (with_relation arg p r d) = arg" "property (with_relation arg p r d) = p" for arg d
    by (simp_all add: with_relation_def)
  show ?thesis
    using a b w test_with_relation by (cases "parseDouble s") auto
qed

section \<open>Examples\<close>

lemma contradicts_correct_witness:
  "contradicts (Numeric (with_relation ''AR<8'' ApproachRate L (Finite 8)))
     (Numeric (with_relation ''AR>9'' ApproachRate G (Finite 9)))
   \<and> \<not> contradicts (Numeric (with_relation ''AR<9'' ApproachRate L (Finite 9)))
     (Numeric (with_relation ''AR>9'' ApproachRate G (Finite 9)))
   \<and> (\<nexists>v. test_numeric (with_relation ''AR<9'' ApproachRate L (Finite 9)) (Finite v)
        \<and> test_numeric (with_relation ''AR>9'' ApproachRate G (Finite 9)) (Finite v))"
proof -
  have c: "contradicts (Numeric (with_relation ''AR<8'' ApproachRate L (Finite 8)))
     (Numeric (with_relation ''AR>9'' ApproachRate G (Finite 9)))"
    by (simp add: contradicts_numeric_def with_relation_def)
  have t: "touching (with_relation ''AR<9'' ApproachRate L (Finite 9)) (with_relation ''AR>9'' ApproachRate G (Finite 9))"
    by (simp add: touching_def with_relation_def)
  have "\<not> contradicts (Numeric (with_relation ''AR<9'' ApproachRate L (Finite 9)))
     (Numeric (with_relation ''AR>9'' ApproachRate G (Finite 9)))"
    using conjunct2 [OF contradicts_correct] t unfolding Let_def by metis
  then show ?thesis using c by (auto simp: test_with_relation)
qed

lemma build_numeric_meaning_witness:
  "\<exists>q. build_numeric (\<lambda>s. if s = ''9'' then Some (Finite 9) else None) ApproachRate ''ar>=9'' = Inr (Some q)
     \<and> test_numeric q (Finite 10) \<and> \<not> test_numeric q (Finite 8)"
proof -
  have "to_lower ''ar'' = to_lower (getName ApproachRate)" "no_relation ''9''"
    by code_simp+
  from build_numeric_meaning [OF this, of "\<lambda>s. if s = ''9'' then Some (Finite 9) else None" GEQ]
  show ?thesis by auto
qed

end
