(* ===== verification/Request_Parser.thy ===== *)
theory Request_Parser
  imports Predicates
begin

unbundle bit_operations_syntax

text \<open>
  The parser of requests for recommendations (\<open>tillerinobot/recommendations/RecommendationRequestParser\<close>
  and \<open>RecommendationRequest\<close>): words that choose a model, mods, predicates and a shift of the
  difficulty, in any order, checked against each other.

  The Levenshtein distance, the library of mods, \<open>Double.parseDouble\<close> and whether the user is a donator
  are parameters.
\<close>

section \<open>Requests\<close>

datatype model = ALPHA | BETA | GAMMA8 | GAMMA9 | GAMMA10 | GAMMA11 | GAMMA12 | NAP

fun isModsCapable :: "model \<Rightarrow> bool" where
  "isModsCapable ALPHA \<longleftrightarrow> False"
| "isModsCapable BETA \<longleftrightarrow> False"
| "isModsCapable m \<longleftrightarrow> True"

datatype shift = NONE | SUCC | SUCCER | SUCCERBERG

record 'm request =
  nomod :: bool
  model :: model
  requestedMods :: int
  predicates :: "'m predicate list"
  difficultyShift :: shift

text \<open>What the parser needs from outside.\<close>

record 'm parser_env = "'m mods_lib" +
  levenshtein :: "string \<Rightarrow> string \<Rightarrow> nat"
  fromShortNamesContinuous :: "string \<Rightarrow> int option"
  fixNC :: "int \<Rightarrow> int"
  allowed_mask :: int
  getMods :: "int \<Rightarrow> 'm list"
  add_mod :: "int \<Rightarrow> 'm \<Rightarrow> int"
  mods_text :: "int \<Rightarrow> string"
  parse_double :: "string \<Rightarrow> number option"
  donator :: bool

definition endsWith :: "string \<Rightarrow> string \<Rightarrow> bool" where
  "endsWith s t \<longleftrightarrow> length t \<le> length s \<and> drop (length s - length t) s = t"

definition empty_request :: "'m request" where
  "empty_request = \<lparr>nomod = False, model = GAMMA12, requestedMods = 0, predicates = [],
     difficultyShift = NONE\<rparr>"

section \<open>Words\<close>

text \<open>Each of the four parsers answers with the changed request when it knows the word.\<close>

definition parseEngine :: "'m parser_env \<Rightarrow> string \<Rightarrow> model option" where
  "parseEngine env param =
     (let s = to_lower param
      in if levenshtein env s ''relax'' \<le> 2 then Some ALPHA
         else if levenshtein env s ''beta'' \<le> 1 then Some BETA
         else if levenshtein env s ''gamma8'' \<le> 2 \<and> endsWith s ''8'' then Some GAMMA8
         else if levenshtein env s ''gamma9'' \<le> 2 \<and> endsWith s ''9'' then Some GAMMA9
         else if levenshtein env s ''gamma10'' \<le> 2 \<and> endsWith s ''10'' then Some GAMMA10
         else if levenshtein env s ''gamma11'' \<le> 2 \<and> endsWith s ''11'' then Some GAMMA11
         else if levenshtein env s ''gamma12'' \<le> 2 \<and> endsWith s ''12'' then Some GAMMA12
         else if levenshtein env s ''gamma'' \<le> 2 then Some GAMMA10
         else if s = ''nap'' then Some NAP
         else None)"

definition parseEngines :: "'m parser_env \<Rightarrow> string \<Rightarrow> 'm request \<Rightarrow> 'm request option" where
  "parseEngines env param b = map_option (\<lambda>m. b\<lparr>model := m\<rparr>) (parseEngine env param)"

definition parseMods :: "'m parser_env \<Rightarrow> string \<Rightarrow> 'm request \<Rightarrow> 'm request option" where
  "parseMods env param b =
     (let s = to_lower param
      in if levenshtein env s ''nomod'' \<le> 2 then Some (b\<lparr>nomod := True\<rparr>)
         else if isModsCapable (model b)
         then
           (case fromShortNamesContinuous env s of
              None \<Rightarrow> None
            | Some m \<Rightarrow>
                let mods = fixNC env m
                in if mods = mods AND allowed_mask env
                   then Some (b\<lparr>requestedMods := foldl (add_mod env) (requestedMods b) (getMods env mods)\<rparr>)
                   else None)
         else None)"

fun predicate_text :: "'m parser_env \<Rightarrow> 'm predicate \<Rightarrow> string" where
  "predicate_text env (Numeric p) = originalArgument p"
| "predicate_text env (ExcludeMod m) = ''-'' @ getShortName env m"

definition mods_of_env :: "'m parser_env \<Rightarrow> 'm mods_lib" where
  "mods_of_env env = mods_lib.truncate env"

definition parsePredicates ::
  "'m parser_env \<Rightarrow> string \<Rightarrow> 'm request \<Rightarrow> user_exn + 'm request option" where
  "parsePredicates env param b =
     (if \<not> donator env then Inr None
      else
        case tryParse (parse_double env) (mods_of_env env) param of
          Inl e \<Rightarrow> Inl e
        | Inr None \<Rightarrow> Inr None
        | Inr (Some p) \<Rightarrow>
            (case find (\<lambda>q. contradicts q p) (predicates b) of
               Some q \<Rightarrow> Inl (InvalidChoice (predicate_text env q @ '' with '' @ predicate_text env p)
                   (''either '' @ predicate_text env q @ '' or '' @ predicate_text env p))
             | None \<Rightarrow> Inr (Some (b\<lparr>predicates := predicates b @ [p]\<rparr>))))"

definition parseOther :: "'m parser_env \<Rightarrow> string \<Rightarrow> 'm request \<Rightarrow> 'm request option" where
  "parseOther env param b =
     (let s = to_lower param
      in if \<not> donator env then None
         else if s = ''succ'' then Some (b\<lparr>difficultyShift := SUCC\<rparr>)
         else if s = ''succer'' then Some (b\<lparr>difficultyShift := SUCCER\<rparr>)
         else if levenshtein env s ''succerberg'' \<le> 2 then Some (b\<lparr>difficultyShift := SUCCERBERG\<rparr>)
         else None)"

section \<open>The request\<close>

definition STANDARD_SYNTAX :: string where
  "STANDARD_SYNTAX = ''[nomod] [relax|beta|gamma] [dt] [hr] [hd]''"

definition parse_setting :: "'m parser_env \<Rightarrow> string \<Rightarrow> 'm request \<Rightarrow> user_exn + 'm request" where
  "parse_setting env setting b =
     (case parseEngines env setting b of
        Some b' \<Rightarrow> Inr b'
      | None \<Rightarrow>
          (case parseMods env setting b of
             Some b' \<Rightarrow> Inr b'
           | None \<Rightarrow>
               (case parsePredicates env setting b of
                  Inl e \<Rightarrow> Inl e
                | Inr (Some b') \<Rightarrow> Inr b'
                | Inr None \<Rightarrow>
                    (case parseOther env setting b of
                       Some b' \<Rightarrow> Inr b'
                     | None \<Rightarrow> Inl (InvalidChoice setting STANDARD_SYNTAX)))))"

fun parse_settings :: "'m parser_env \<Rightarrow> string list \<Rightarrow> 'm request \<Rightarrow> user_exn + 'm request" where
  "parse_settings env [] b = Inr b"
| "parse_settings env (s # ss) b =
     (if s = [] then parse_settings env ss b
      else case parse_setting env s b of Inl e \<Rightarrow> Inl e | Inr b' \<Rightarrow> parse_settings env ss b')"

text \<open>\<open>findNonPredicateContradiction\<close>: stars do not go with mods, and an excluded mod not with itself.\<close>

fun findNonPredicateContradiction :: "'m parser_env \<Rightarrow> 'm request \<Rightarrow> 'm predicate \<Rightarrow> string option" where
  "findNonPredicateContradiction env r (Numeric p) =
     (if property p = StarDiff \<and> requestedMods r \<noteq> 0
      then Some (mods_text env (requestedMods r) @ '' '' @ originalArgument p) else None)"
| "findNonPredicateContradiction env r (ExcludeMod m) =
     (if mod_is env m (requestedMods r) then Some (getShortName env m @ '' -'' @ getShortName env m) else None)"

fun first_contradiction :: "'m parser_env \<Rightarrow> 'm request \<Rightarrow> 'm predicate list \<Rightarrow> string option" where
  "first_contradiction env r [] = None"
| "first_contradiction env r (p # ps) =
     (case findNonPredicateContradiction env r p of Some c \<Rightarrow> Some c | None \<Rightarrow> first_contradiction env r ps)"

definition parseSamplerSettings :: "'m parser_env \<Rightarrow> string \<Rightarrow> user_exn + 'm request" where
  "parseSamplerSettings env message =
     (case parse_settings env (js_split (CHR '' '') message) empty_request of
        Inl e \<Rightarrow> Inl e
      | Inr r \<Rightarrow>
          if nomod r \<and> requestedMods r \<noteq> 0 then Inl MixedNomodAndMods
          else
            (case first_contradiction env r (predicates r) of
               Some c \<Rightarrow> Inl (InvalidChoice c STANDARD_SYNTAX)
             | None \<Rightarrow> Inr r))"

section \<open>What a request promises\<close>

definition consistent :: "'m predicate list \<Rightarrow> bool" where
  "consistent ps \<longleftrightarrow> sorted_wrt (\<lambda>p q. \<not> contradicts p q) ps"

definition well_formed :: "'m parser_env \<Rightarrow> 'm request \<Rightarrow> bool" where
  "well_formed env r \<longleftrightarrow> consistent (predicates r)
     \<and> (\<not> donator env \<longrightarrow> predicates r = [] \<and> difficultyShift r = NONE)"

lemma parse_setting_well_formed:
  assumes "parse_setting env s b = Inr b'" and "well_formed env b"
  shows "well_formed env b'"
  using assms
  by (auto simp: parse_setting_def parseEngines_def parseMods_def parsePredicates_def parseOther_def Let_def
      well_formed_def consistent_def sorted_wrt_append find_None_iff
      split: option.splits if_splits sum.splits)

lemma parse_settings_well_formed:
  "parse_settings env ss b = Inr b' \<Longrightarrow> well_formed env b \<Longrightarrow> well_formed env b'"
proof (induction env ss b rule: parse_settings.induct)
  case (2 env s ss b)
  then show ?case using parse_setting_well_formed by (auto split: if_splits sum.splits)
qed simp

lemma first_contradiction_None:
  "first_contradiction env r ps = None \<longleftrightarrow> (\<forall>p \<in> set ps. findNonPredicateContradiction env r p = None)"
  by (induction ps) (auto split: option.split)

text \<open>C40. A request that is accepted is consistent: it does not ask for mods and for no mods, no predicate
  contradicts one before it or excludes a mod that is asked for, stars are not asked for with mods, and
  only donators get predicates or a shift of the difficulty.\<close>

theorem request_consistent:
  assumes "parseSamplerSettings env message = Inr r"
  shows "\<not> (nomod r \<and> requestedMods r \<noteq> 0)
    \<and> sorted_wrt (\<lambda>p q. \<not> contradicts p q) (predicates r)
    \<and> (\<forall>p. Numeric p \<in> set (predicates r) \<longrightarrow> property p = StarDiff \<longrightarrow> requestedMods r = 0)
    \<and> (\<forall>m. ExcludeMod m \<in> set (predicates r) \<longrightarrow> \<not> mod_is env m (requestedMods r))
    \<and> (\<not> donator env \<longrightarrow> predicates r = [] \<and> difficultyShift r = NONE)"
proof -
  obtain r' where p: "parse_settings env (js_split (CHR '' '') message) empty_request = Inr r'"
    and n: "\<not> (nomod r' \<and> requestedMods r' \<noteq> 0)" and c: "first_contradiction env r' (predicates r') = None"
    and r: "r = r'"
    using assms by (auto simp: parseSamplerSettings_def split: sum.splits if_splits option.splits)
  have "well_formed env r"
    using parse_settings_well_formed [OF p] r by (simp add: well_formed_def consistent_def empty_request_def)
  moreover have "findNonPredicateContradiction env r q = None" if "q \<in> set (predicates r)" for q
    using c r that by (simp add: first_contradiction_None)
  ultimately show ?thesis
    using n r unfolding well_formed_def consistent_def
    by (metis findNonPredicateContradiction.simps(1,2) option.distinct(1))
qed

section \<open>Examples\<close>

text \<open>A distance that knows only equal words, one mod (\<open>DT\<close>, bit 64), and one number.\<close>

definition example_env :: "int parser_env" where
  "example_env =
     \<lparr>mod_is = (\<lambda>m ms. m AND ms \<noteq> 0), getShortName = (\<lambda>m. ''DT''),
      fromShortName = (\<lambda>s. if s = ''DT'' then Some 64 else None),
      levenshtein = (\<lambda>s t. if s = t then 0 else 100),
      fromShortNamesContinuous = (\<lambda>s. if s = ''dt'' then Some 64 else None),
      fixNC = (\<lambda>m. m), allowed_mask = 64, getMods = (\<lambda>m. if m = 64 then [64] else []),
      add_mod = (\<lambda>ms m. ms OR m), mods_text = (\<lambda>m. ''DT''),
      parse_double = (\<lambda>s. if s = ''9'' then Some (Finite 9) else None), donator = True\<rparr>"

lemma example_request:
  "parseSamplerSettings example_env ''dt ar>=9'' = Inr
     \<lparr>nomod = False, model = GAMMA12, requestedMods = 64,
      predicates = [Numeric (with_relation ''ar>=9'' ApproachRate GEQ (Finite 9))], difficultyShift = NONE\<rparr>"
  by code_simp

lemma request_consistent_witness:
  "\<exists>r. parseSamplerSettings example_env ''dt ar>=9'' = Inr r \<and> requestedMods r = 64
     \<and> \<not> (nomod r \<and> requestedMods r \<noteq> 0) \<and> predicates r \<noteq> []"
  using request_consistent [OF example_request] example_request by auto

text \<open>Whether the model takes mods is only looked at when the mods are read: a model that does not take
  them can follow.\<close>

lemma mods_before_model:
  "(\<exists>r. parseSamplerSettings example_env ''dt beta'' = Inr r \<and> requestedMods r = 64 \<and> \<not> isModsCapable (model r))
   \<and> (\<exists>e. parseSamplerSettings example_env ''beta dt'' = Inl e)"
proof -
  have "parseSamplerSettings example_env ''dt beta'' = Inr
      \<lparr>nomod = False, model = BETA, requestedMods = 64, predicates = [], difficultyShift = NONE\<rparr>"
    by code_simp
  moreover have "parseSamplerSettings example_env ''beta dt'' = Inl (InvalidChoice ''dt'' STANDARD_SYNTAX)"
    by code_simp
  ultimately show ?thesis by simp
qed

end
