(* ===== verification/Chat_Response.thy ===== *)
theory Chat_Response
  imports Java_Base
begin

text \<open>
  What the bot answers (\<open>tillerinobot-model/chat/GameChatResponse\<close>): nothing, a message, or a list of
  messages; \<open>then\<close> chains answers, \<open>flatten\<close> lists what is to be sent.
\<close>

datatype response =
    Message string | Success string | Action string | NoResponse | ResponseList "response list"

fun isNone :: "response \<Rightarrow> bool" where
  "isNone NoResponse \<longleftrightarrow> True"
| "isNone r \<longleftrightarrow> False"

fun flatten :: "response \<Rightarrow> response list" where
  "flatten NoResponse = []"
| "flatten (ResponseList rs) = rs"
| "flatten r = [r]"

text \<open>\<open>this.then(that)\<close>, where \<open>that\<close> may be \<open>null\<close>. The elements of a list are taken as they are, other
  responses as one element.\<close>

fun elements :: "response \<Rightarrow> response list" where
  "elements (ResponseList rs) = rs"
| "elements r = [r]"

definition and_then :: "response \<Rightarrow> response option \<Rightarrow> response" where
  "and_then this that =
     (case that of
        None \<Rightarrow> this
      | Some that \<Rightarrow>
          if isNone that then this
          else if isNone this then that
          else ResponseList (elements this @ elements that))"

section \<open>Flat responses\<close>

text \<open>A single response is a message of one of the three kinds; a flat one is nothing, a single one, or a
  list of at least two single ones.\<close>

fun single :: "response \<Rightarrow> bool" where
  "single (Message m) \<longleftrightarrow> True"
| "single (Success m) \<longleftrightarrow> True"
| "single (Action m) \<longleftrightarrow> True"
| "single r \<longleftrightarrow> False"

fun flat :: "response \<Rightarrow> bool" where
  "flat (ResponseList rs) \<longleftrightarrow> list_all single rs \<and> 2 \<le> length rs"
| "flat r \<longleftrightarrow> True"

lemma flat_elements: "flat r \<Longrightarrow> \<not> isNone r \<Longrightarrow> elements r = flatten r \<and> flatten r \<noteq> []"
  by (cases r) auto

lemma flat_flatten: "flat r \<Longrightarrow> list_all single (flatten r)"
  by (cases r) auto

lemma flatten_inject: "flat r \<Longrightarrow> flat s \<Longrightarrow> flatten r = flatten s \<Longrightarrow> r = s"
  by (cases r; cases s) auto

lemma isNone_flatten: "flat r \<Longrightarrow> isNone r \<longleftrightarrow> flatten r = []"
  by (cases r) auto

lemma and_then_cases:
  "flat r \<Longrightarrow> flat s \<Longrightarrow> and_then r (Some s) =
     (if flatten s = [] then r else if flatten r = [] then s else ResponseList (flatten r @ flatten s))"
  using flat_elements [of r] flat_elements [of s] by (simp add: and_then_def isNone_flatten)

lemma flatten_and_then:
  assumes "flat r" and "flat s"
  shows "flatten (and_then r (Some s)) = flatten r @ flatten s"
  using assms by (simp add: and_then_cases)

lemma flat_and_then:
  assumes "flat r" and "flat s"
  shows "flat (and_then r (Some s))"
  using assms flat_flatten [OF assms(1)] flat_flatten [OF assms(2)]
  by (cases "flatten r"; cases "flatten s") (simp_all add: and_then_cases)

text \<open>Chaining flat responses gives a flat response, which sends what the first one sends and then what
  the second one sends; chaining is associative, and nothing (or \<open>null\<close>) is its unit. So whatever the
  handlers chain, only single messages are sent.\<close>

lemma responses_chain:
  assumes "flat r" and "flat s" and "flat t"
  shows "flat (and_then r (Some s)) \<and> flatten (and_then r (Some s)) = flatten r @ flatten s
    \<and> list_all single (flatten (and_then r (Some s)))
    \<and> and_then (and_then r (Some s)) (Some t) = and_then r (Some (and_then s (Some t)))
    \<and> and_then r None = r \<and> and_then r (Some NoResponse) = r \<and> and_then NoResponse (Some r) = r"
proof -
  have "and_then (and_then r (Some s)) (Some t) = and_then r (Some (and_then s (Some t)))"
    by (rule flatten_inject) (simp_all add: flat_and_then flatten_and_then assms)
  moreover have "and_then NoResponse (Some r) = r"
    by (cases r) (simp_all add: and_then_def)
  ultimately show ?thesis
    using assms flat_flatten [OF flat_and_then [OF assms(1,2)]]
    by (simp add: flat_and_then flatten_and_then) (simp add: and_then_def)
qed

lemma responses_chain_witness:
  "flatten (and_then (Message ''a'') (Some (ResponseList [Success ''b'', Action ''c'']))) =
     [Message ''a'', Success ''b'', Action ''c'']"
  using responses_chain [of "Message ''a''" "ResponseList [Success ''b'', Action ''c'']" NoResponse] by simp

end
