(* ===== verification/Recommendations.thy ===== *)
theory Recommendations
  imports Sampler Request_Parser Chat_Response
begin

text \<open>
  From a request to a recommendation (\<open>tillerinobot/recommendations/RecommendationsManager\<close>, with its
  clients \<open>RecommendHandler\<close> in the bot and \<open>RecommendationsServiceImpl\<close> on the site): the sampler of a
  user is loaded from a recommender, kept in a cache, and drawn from; what was given is written to the
  table \<open>givenrecommendations\<close> and not recommended again.

  The recommender, the loaders of beatmaps, and the texts are parameters (\<open>rec_env\<close>), which may answer
  differently each time. Reading the clock twice in one request gives the same time.
\<close>

section \<open>Data\<close>

record bare =
  beatmapId :: int
  bare_mods :: int
  causes :: "int list"
  personalPP :: "int option"
  probability :: rat

record top_play =
  tp_userid :: int
  tp_place :: int
  tp_beatmapid :: int
  tp_mods :: int
  tp_pp :: rat

text \<open>A row of the table of given recommendations.\<close>

record given_row =
  g_userid :: int
  g_beatmapid :: int
  g_date :: int
  g_mods :: int
  forgotten :: bool
  hidden :: bool

text \<open>What of \<open>BeatmapMeta\<close> is looked at: the beatmap, the mods of its estimates, its combo.\<close>

record meta =
  meta_beatmapid :: int
  meta_mods :: int
  meta_personalPP :: "int option"
  meta_maxCombo :: int

record recommendation =
  rec_meta :: meta
  rec_bare :: bare

text \<open>The exceptions: the first five are shown to the user (\<open>UserException\<close>); \<open>External\<close> stands for
  those of the database and of other services.\<close>

datatype rec_exn =
    Invalid user_exn | OutOfRecommendations | UserMessage string | RareUser | BrokenBeatmap
  | External | StackOverflow

record ('m, 'b) rec_env =
  parser_for :: "int \<Rightarrow> 'm parser_env"
  loadTopPlays :: "int \<Rightarrow> rec_exn + top_play list"
  effectiveMods :: "int \<Rightarrow> int"
  loadRecommendations :: "top_play list \<Rightarrow> int set \<Rightarrow> model \<Rightarrow> bool \<Rightarrow> int \<Rightarrow> rec_exn + bare list"
  mods_enum :: "'m mods_lib"
  getBeatmap :: "int \<Rightarrow> rec_exn + 'b option"
  getValue :: "'b \<Rightarrow> int \<Rightarrow> property \<Rightarrow> number"
  loadBeatmap :: "int \<Rightarrow> int \<Rightarrow> rec_exn + meta option"
  tryWithMods :: "int option \<Rightarrow> string"
  infoMessage :: "meta \<Rightarrow> string option \<Rightarrow> string"
  optionalComment :: "recommendation \<Rightarrow> response option"

record 'm rec_state =
  samplers :: "int \<rightharpoonup> (bare, 'm request) sampler"
  lastRecommendation :: "int \<rightharpoonup> recommendation"
  given :: "given_row list"
  clock :: int

section \<open>The table of given recommendations\<close>

definition FOUR_WEEKS :: int where
  "FOUR_WEEKS = 28 * 24 * 60 * 60 * 1000"

definition loadGivenRecommendations :: "int \<Rightarrow> 'm rec_state \<Rightarrow> given_row list" where
  "loadGivenRecommendations u s =
     (let cutoffDate = clock s - FOUR_WEEKS
      in sort_key (\<lambda>g. - g_date g)
           (filter (\<lambda>g. g_userid g = u \<and> g_date g > cutoffDate \<and> \<not> forgotten g) (given s)))"

definition saveGivenRecommendation :: "int \<Rightarrow> int \<Rightarrow> int \<Rightarrow> 'm rec_state \<Rightarrow> 'm rec_state" where
  "saveGivenRecommendation u i m s =
     s\<lparr>given := given s @ [\<lparr>g_userid = u, g_beatmapid = i, g_date = clock s, g_mods = m,
         forgotten = False, hidden = False\<rparr>]\<rparr>"

definition forgetRecommendations :: "int \<Rightarrow> 'm rec_state \<Rightarrow> 'm rec_state" where
  "forgetRecommendations u s =
     s\<lparr>given := map (\<lambda>g. if g_userid g = u then g\<lparr>forgotten := True\<rparr> else g) (given s)\<rparr>"

definition hideRecommendation :: "int \<Rightarrow> int \<Rightarrow> int \<Rightarrow> 'm rec_state \<Rightarrow> 'm rec_state" where
  "hideRecommendation u i m s =
     s\<lparr>given := map (\<lambda>g. if g_userid g = u \<and> g_beatmapid g = i \<and> g_mods g = m then g\<lparr>hidden := True\<rparr> else g)
         (given s)\<rparr>"

section \<open>The sampler of a request\<close>

text \<open>Whether a recommendation passes the predicates; its beatmap is loaded when the first predicate is
  reached, and one that is not found passes none.\<close>

fun passes :: "('m, 'b) rec_env \<Rightarrow> bare \<Rightarrow> 'b option \<Rightarrow> 'm predicate list \<Rightarrow> rec_exn + bool" where
  "passes env r b [] = Inr True"
| "passes env r b (p # ps) =
     (case (case b of Some x \<Rightarrow> Inr (Some x) | None \<Rightarrow> getBeatmap env (beatmapId r)) of
        Inl e \<Rightarrow> Inl e
      | Inr None \<Rightarrow> Inr False
      | Inr (Some x) \<Rightarrow>
          if \<not> test_predicate (mods_enum env) p (bare_mods r) (getValue env x (bare_mods r)) then Inr False
          else passes env r (Some x) ps)"

fun keep_passing :: "('m, 'b) rec_env \<Rightarrow> 'm predicate list \<Rightarrow> bare list \<Rightarrow> rec_exn + bare list" where
  "keep_passing env ps [] = Inr []"
| "keep_passing env ps (r # rs) =
     (case passes env r None ps of
        Inl e \<Rightarrow> Inl e
      | Inr ok \<Rightarrow>
          (case keep_passing env ps rs of Inl e \<Rightarrow> Inl e | Inr xs \<Rightarrow> Inr (if ok then r # xs else xs)))"

definition getTopRecommendations ::
  "('m, 'b) rec_env \<Rightarrow> bare list \<Rightarrow> 'm predicate list \<Rightarrow> rec_exn + bare list" where
  "getTopRecommendations env recs ps =
     (case keep_passing env ps recs of
        Inl e \<Rightarrow> Inl e
      | Inr xs \<Rightarrow> Inr (take (min (length xs) 1000) (sort_key (\<lambda>r. - probability r) xs)))"

text \<open>A shift of the difficulty takes only the weakest top plays for a base.\<close>

definition base_plays :: "shift \<Rightarrow> top_play list \<Rightarrow> top_play list" where
  "base_plays sh plays =
     (if sh = NONE then plays
      else
        let limit = (case sh of SUCC \<Rightarrow> length plays div 2 | SUCCER \<Rightarrow> length plays div 4 | _ \<Rightarrow> 5)
        in take limit (sort_key tp_pp plays))"

definition loadSampler ::
  "('m, 'b) rec_env \<Rightarrow> int \<Rightarrow> 'm request \<Rightarrow> 'm rec_state \<Rightarrow> rec_exn + (bare, 'm request) sampler" where
  "loadSampler env u req s =
     (case loadTopPlays env u of
        Inl e \<Rightarrow> Inl e
      | Inr loaded \<Rightarrow>
          let topPlays = map (\<lambda>p. p\<lparr>tp_mods := effectiveMods env (tp_mods p)\<rparr>) loaded;
              exclude = set (map g_beatmapid (loadGivenRecommendations u s)) \<union> set (map tp_beatmapid topPlays)
          in case loadRecommendations env (base_plays (difficultyShift req) topPlays) exclude (model req)
                    (nomod req) (requestedMods req) of
               Inl e \<Rightarrow> Inl e
             | Inr recs \<Rightarrow>
                 (case getTopRecommendations env recs (predicates req) of
                    Inl e \<Rightarrow> Inl e
                  | Inr xs \<Rightarrow> Inr (new_sampler probability req xs)))"

section \<open>\<open>getRecommendation\<close>\<close>

text \<open>The cached sampler, unless there is none or the message asks for other settings. The second result
  is the state, whose cache holds the sampler that is returned.\<close>

definition choose_sampler ::
  "('m, 'b) rec_env \<Rightarrow> int \<Rightarrow> string option \<Rightarrow> 'm rec_state \<Rightarrow>
     (rec_exn + (bare, 'm request) sampler) \<times> 'm rec_state" where
  "choose_sampler env u message s =
     (let load = (\<lambda>req. case loadSampler env u req s of
                     Inl e \<Rightarrow> (Inl e, s)
                   | Inr sm \<Rightarrow> (Inr sm, s\<lparr>samplers := (samplers s)(u \<mapsto> sm)\<rparr>));
          parse = parseSamplerSettings (parser_for env u) (case message of None \<Rightarrow> [] | Some m \<Rightarrow> m)
      in case samplers s u of
           None \<Rightarrow> (case parse of Inl e \<Rightarrow> (Inl (Invalid e), s) | Inr req \<Rightarrow> load req)
         | Some sm \<Rightarrow>
             if message = None then (Inr sm, s)
             else (case parse of
                     Inl e \<Rightarrow> (Inl (Invalid e), s)
                   | Inr req \<Rightarrow> if settings sm = req then (Inr sm, s) else load req))"

definition load_meta :: "('m, 'b) rec_env \<Rightarrow> bare \<Rightarrow> rec_exn + meta option" where
  "load_meta env b =
     (if bare_mods b < 0 then loadBeatmap env (beatmapId b) 0
      else case loadBeatmap env (beatmapId b) (bare_mods b) of
             Inr None \<Rightarrow> loadBeatmap env (beatmapId b) 0
           | x \<Rightarrow> x)"

definition getRecommendation ::
  "('m, 'b) rec_env \<Rightarrow> rat list \<Rightarrow> int \<Rightarrow> string option \<Rightarrow> 'm rec_state \<Rightarrow>
     (rec_exn + recommendation) \<times> 'm rec_state" where
  "getRecommendation env draws u message s =
     (case choose_sampler env u message s of
        (Inl e, s1) \<Rightarrow> (Inl e, s1)
      | (Inr sm, s1) \<Rightarrow>
          if isEmpty sm then (Inl OutOfRecommendations, s1\<lparr>samplers := (samplers s1)(u := None)\<rparr>)
          else
            case sample probability draws sm of
              None \<Rightarrow> (Inl StackOverflow, s1)
            | Some (b, sm') \<Rightarrow>
                let s2 = s1\<lparr>samplers := (samplers s1)(u \<mapsto> sm')\<rparr>
                in case load_meta env b of
                     Inl e \<Rightarrow> (Inl e, s2)
                   | Inr None \<Rightarrow> (Inl RareUser, s2)
                   | Inr (Some m) \<Rightarrow>
                       let r = \<lparr>rec_meta = m\<lparr>meta_personalPP := personalPP b\<rparr>, rec_bare = b\<rparr>
                       in (Inr r, s2\<lparr>lastRecommendation := (lastRecommendation s2)(u \<mapsto> r)\<rparr>))"

section \<open>The command \<open>!r\<close>\<close>

text \<open>\<open>RecommendHandler.handleArgument\<close>: the answer, the beatmap and mods it leaves behind for the next
  command, and the state.\<close>

definition addition :: "('m, 'b) rec_env \<Rightarrow> recommendation \<Rightarrow> string option" where
  "addition env r =
     (if bare_mods (rec_bare r) > 0 \<and> meta_mods (rec_meta r) \<noteq> bare_mods (rec_bare r)
      then Some (tryWithMods env (Some (bare_mods (rec_bare r))))
      else if bare_mods (rec_bare r) < 0 then Some (tryWithMods env None) else None)"

definition handleArgument ::
  "('m, 'b) rec_env \<Rightarrow> rat list \<Rightarrow> int \<Rightarrow> string option \<Rightarrow> string \<Rightarrow> 'm rec_state \<Rightarrow>
     (rec_exn + response) \<times> (int \<times> int) option \<times> 'm rec_state" where
  "handleArgument env draws u defaults remaining s =
     (let remaining = (if remaining = [] then (case defaults of None \<Rightarrow> [] | Some d \<Rightarrow> d) else remaining)
      in case parseSamplerSettings (parser_for env u) remaining of
           Inl e \<Rightarrow> (Inl (Invalid e), None, s)
         | Inr req \<Rightarrow>
             (case getRecommendation env draws u (Some remaining) s of
                (Inl e, s') \<Rightarrow> (Inl e, None, s')
              | (Inr r, s') \<Rightarrow>
                  let m = rec_meta r;
                      s2 = saveGivenRecommendation u (meta_beatmapid m) (bare_mods (rec_bare r)) s'
                  in (if meta_maxCombo m \<le> 0 then Inl BrokenBeatmap
                      else Inr (and_then (Success (infoMessage env m (addition env r))) (optionalComment env r)),
                      Some (meta_beatmapid m, meta_mods m), s2)))"

section \<open>The recommendations of the site\<close>

fun is_user_exception :: "rec_exn \<Rightarrow> bool" where
  "is_user_exception External \<longleftrightarrow> False"
| "is_user_exception StackOverflow \<longleftrightarrow> False"
| "is_user_exception e \<longleftrightarrow> True"

text \<open>\<open>RecommendationsServiceImpl.getRecommendations\<close>: the loop that fills the list up to ten, in at most
  \<open>n\<close> turns (the code has a hundred). Each turn has its own draws.\<close>

fun refill ::
  "('m, 'b) rec_env \<Rightarrow> (nat \<Rightarrow> rat list) \<Rightarrow> int \<Rightarrow> string option \<Rightarrow> nat \<Rightarrow> meta list \<Rightarrow> 'm rec_state \<Rightarrow>
     (rec_exn + meta list) \<times> 'm rec_state" where
  "refill env draws u params 0 recs s = (Inr recs, s)"
| "refill env draws u params (Suc n) recs s =
     (if length recs \<ge> 10 then (Inr recs, s)
      else
        case getRecommendation env (draws n) u params s of
          (Inl e, s') \<Rightarrow>
            if e = RareUser then refill env draws u params n recs s'
            else if is_user_exception e then (Inr recs, s')
            else (Inl e, s')
        | (Inr r, s') \<Rightarrow>
            if meta_maxCombo (rec_meta r) \<le> 0 then refill env draws u params n recs s'
            else refill env draws u params n (rec_meta r # recs)
                   (saveGivenRecommendation u (beatmapId (rec_bare r)) (bare_mods (rec_bare r)) s'))"

text \<open>\<open>hideRecommendation\<close>: another recommendation takes the place of the hidden one, in at most \<open>n\<close>
  attempts (the code has ten).\<close>

fun replacement ::
  "('m, 'b) rec_env \<Rightarrow> (nat \<Rightarrow> rat list) \<Rightarrow> int \<Rightarrow> string option \<Rightarrow> nat \<Rightarrow> 'm rec_state \<Rightarrow>
     (rec_exn + recommendation option) \<times> 'm rec_state" where
  "replacement env draws u params 0 s = (Inr None, s)"
| "replacement env draws u params (Suc n) s =
     (case getRecommendation env (draws n) u params s of
        (Inl e, s') \<Rightarrow> if e = RareUser then replacement env draws u params n s' else (Inl e, s')
      | (Inr r, s') \<Rightarrow> (Inr (Some r), s'))"

definition hide_and_replace ::
  "('m, 'b) rec_env \<Rightarrow> (nat \<Rightarrow> rat list) \<Rightarrow> int \<Rightarrow> string option \<Rightarrow> int \<Rightarrow> int \<Rightarrow> 'm rec_state \<Rightarrow>
     (rec_exn + meta) \<times> 'm rec_state" where
  "hide_and_replace env draws u params i m s =
     (case replacement env draws u params 10 (hideRecommendation u i m s) of
        (Inl e, s') \<Rightarrow> (Inl e, s')
      | (Inr None, s') \<Rightarrow> (Inl (UserMessage ''Could not get a recommendation. Pls contact @Tillerino or /u/Tillerino''), s')
      | (Inr (Some r), s') \<Rightarrow>
          (Inr (rec_meta r),
           saveGivenRecommendation u (beatmapId (rec_bare r)) (bare_mods (rec_bare r)) s'))"

section \<open>The most probable recommendations\<close>

text \<open>What it means that a recommendation passes.\<close>

definition fits :: "('m, 'b) rec_env \<Rightarrow> 'm predicate list \<Rightarrow> bare \<Rightarrow> bool" where
  "fits env ps r \<longleftrightarrow> ps = [] \<or> (\<exists>x. getBeatmap env (beatmapId r) = Inr (Some x)
     \<and> (\<forall>p \<in> set ps. test_predicate (mods_enum env) p (bare_mods r) (getValue env x (bare_mods r))))"

lemma passes_loaded:
  "passes env r (Some x) ps =
     Inr (\<forall>p \<in> set ps. test_predicate (mods_enum env) p (bare_mods r) (getValue env x (bare_mods r)))"
  by (induction ps) auto

lemma passes_fits: "passes env r None ps = Inr b \<Longrightarrow> b \<longleftrightarrow> fits env ps r"
  by (cases ps) (auto simp: passes_loaded fits_def split: sum.splits option.splits if_splits)

lemma passes_error: "passes env r None ps = Inl e \<Longrightarrow> ps \<noteq> [] \<and> getBeatmap env (beatmapId r) = Inl e"
  by (cases ps) (auto simp: passes_loaded split: sum.splits option.splits if_splits)

lemma keep_passing_fits: "keep_passing env ps recs = Inr xs \<Longrightarrow> xs = filter (fits env ps) recs"
  by (induction recs arbitrary: xs) (auto split: sum.splits dest: passes_fits)

lemma keep_passing_error:
  "keep_passing env ps recs = Inl e \<Longrightarrow> ps \<noteq> [] \<and> (\<exists>r \<in> set recs. getBeatmap env (beatmapId r) = Inl e)"
  by (induction recs) (auto split: sum.splits dest: passes_error)

lemma sorted_take_drop:
  assumes "sorted (map f xs)" and "a \<in> set (take n xs)" and "b \<in> set (drop n xs)"
  shows "f a \<le> f b"
proof -
  have "sorted (map f (take n xs) @ map f (drop n xs))"
    using assms(1) by (simp add: map_append [symmetric] del: map_append)
  then show ?thesis using assms(2,3) by (simp add: sorted_append)
qed

text \<open>C10. The recommendations that a sampler is made of are the most probable ones among those that satisfy
  every predicate of the request: at most a thousand, most probable first, and none of those left out is
  more probable; the answer is an exception only if a beatmap could not be loaded.\<close>

theorem top_recommendations:
  "case getTopRecommendations env recs ps of
     Inl e \<Rightarrow> ps \<noteq> [] \<and> (\<exists>r \<in> set recs. getBeatmap env (beatmapId r) = Inl e)
   | Inr xs \<Rightarrow>
       (\<exists>rest. mset xs + mset rest = mset (filter (fits env ps) recs)
          \<and> list_all (\<lambda>x. list_all (\<lambda>y. probability y \<le> probability x) rest) xs)
       \<and> sorted_wrt (\<lambda>x y. probability y \<le> probability x) xs
       \<and> length xs = min 1000 (length (filter (fits env ps) recs))"
proof (cases "keep_passing env ps recs")
  case (Inl e)
  then show ?thesis using keep_passing_error [OF Inl] by (simp add: getTopRecommendations_def)
next
  case (Inr ys)
  define zs where "zs = sort_key (\<lambda>r. - probability r) ys"
  have g: "getTopRecommendations env recs ps = Inr (take (min (length ys) 1000) zs)"
    using Inr by (simp add: getTopRecommendations_def zs_def)
  have y: "ys = filter (fits env ps) recs" using keep_passing_fits [OF Inr] .
  have so: "sorted (map (\<lambda>r. - probability r) zs)" by (simp add: zs_def)
  have m: "mset (take n zs) + mset (drop n zs) = mset ys" for n
    by (metis append_take_drop_id mset_append mset_sort zs_def)
  have "sorted_wrt (\<lambda>x y. probability y \<le> probability x) (take n zs)" for n
    using so by (simp add: sorted_map sorted_wrt_take)
  moreover have "length zs = length ys" by (simp add: zs_def)
  moreover have "x \<in> set (take n zs) \<and> y \<in> set (drop n zs) \<longrightarrow> probability y \<le> probability x" for n x y
    using sorted_take_drop [OF so, of x n y] by auto
  ultimately show ?thesis
    using m [of "min (length ys) 1000"] unfolding g sum.case y [symmetric]
    by (intro conjI exI [of _ "drop (min (length ys) 1000) zs"]) (simp_all add: min.commute list_all_iff)
qed

end
