(* ===== verification/Recommendation_History.thy ===== *)
theory Recommendation_History
  imports Recommendations Prelude
begin

text \<open>
  What was given is not given again. Requests of the bot and of the site are threads that interleave phase
  by phase (the reading of the cache, the loading of a sampler, its entry into the cache, the sample, the
  loading of the beatmap, the saving), since \<open>RecommendationsManager\<close> takes no lock around them. A request
  that runs alone amounts to the functions of \<open>Recommendations\<close> (\<open>chat_steps\<close>, \<open>refill_steps\<close>,
  \<open>hide_steps\<close>). The invariant of samplers, requests and table holds over all interleavings of requests of
  different users; two requests of one user that overlap can give the same beatmap twice
  (\<open>overlap_repeats\<close>).
\<close>

section \<open>Which recommendations are loaded\<close>

text \<open>What a recommender promises: it returns none of the excluded beatmaps and no beatmap twice with the
  same mods; a beatmap is loaded by its identifier.\<close>

definition pair :: "bare \<Rightarrow> int \<times> int" where
  "pair b = (beatmapId b, bare_mods b)"

definition keeps_promise :: "('m, 'b) rec_env \<Rightarrow> bool" where
  "keeps_promise env \<longleftrightarrow>
     (\<forall>plays exclude md nm mods recs. loadRecommendations env plays exclude md nm mods = Inr recs \<longrightarrow>
        distinct (map pair recs) \<and> beatmapId ` set recs \<inter> exclude = {}) \<and>
     (\<forall>i mods m. loadBeatmap env i mods = Inr (Some m) \<longrightarrow> meta_beatmapid m = i)"

lemma loadSampler_stock:
  assumes "keeps_promise env" and "loadSampler env u req s = Inr sm"
  shows "settings sm = req \<and> (\<forall>k. count (image_mset pair (stock sm)) k \<le> 1)
    \<and> (\<forall>r \<in># stock sm. beatmapId r \<notin> set (map g_beatmapid (loadGivenRecommendations u s)))"
proof -
  obtain plays where p: "loadTopPlays env u = Inr plays"
    using assms(2) by (auto simp: loadSampler_def split: sum.splits)
  define top where "top = map (\<lambda>p. p\<lparr>tp_mods := effectiveMods env (tp_mods p)\<rparr>) plays"
  define ex where "ex = set (map g_beatmapid (loadGivenRecommendations u s)) \<union> set (map tp_beatmapid top)"
  have e: "loadSampler env u req s =
      (case loadRecommendations env (base_plays (difficultyShift req) top) ex (model req)
          (nomod req) (requestedMods req) of
         Inl e \<Rightarrow> Inl e
       | Inr recs \<Rightarrow> (case getTopRecommendations env recs (predicates req) of
           Inl e \<Rightarrow> Inl e | Inr xs \<Rightarrow> Inr (new_sampler probability req xs)))"
    by (simp only: loadSampler_def p sum.case Let_def top_def ex_def)
  obtain recs xs where r: "loadRecommendations env (base_plays (difficultyShift req) top) ex (model req)
        (nomod req) (requestedMods req) = Inr recs"
    and x: "getTopRecommendations env recs (predicates req) = Inr xs"
    and sm: "sm = new_sampler probability req xs"
    using assms(2) unfolding e by (auto split: sum.splits)
  obtain ys where y: "keep_passing env (predicates req) recs = Inr ys"
    "xs = take (min (length ys) 1000) (sort_key (\<lambda>r. - probability r) ys)"
    using x by (auto simp: getTopRecommendations_def split: sum.splits)
  have "mset xs \<subseteq># mset (sort_key (\<lambda>r. - probability r) ys)"
    unfolding y(2) by (metis append_take_drop_id mset_append mset_subset_eq_add_left)
  also have "\<dots> = mset ys" by simp
  also have "\<dots> \<subseteq># mset recs" unfolding keep_passing_fits [OF y(1)] by (simp add: multiset_filter_subset)
  finally have sub: "stock sm \<subseteq># mset recs"
    using stock_new [of probability req xs] subset_mset.order_trans unfolding sm by metis
  have c: "image_mset pair (stock sm) \<subseteq># mset (map pair recs)"
    using image_mset_subseteq_mono [OF sub, of pair] by simp
  have st: "set_mset (stock sm) \<subseteq> set recs"
    using set_mset_mono [OF sub] by simp
  have d: "distinct (map pair recs)" "beatmapId ` set recs \<inter> ex = {}"
    using assms(1) r by (auto simp: keeps_promise_def)
  have "count (image_mset pair (stock sm)) k \<le> 1" for k
  proof -
    have "count (mset (map pair recs)) k \<le> 1"
      using d(1) [unfolded distinct_count_atmost_1, rule_format, of k] by simp
    then show ?thesis using mset_subset_eq_count [OF c, of k] by (rule order_trans [rotated])
  qed
  moreover have "beatmapId r \<notin> ex" if "r \<in># stock sm" for r using that st d(2) by blast
  ultimately show ?thesis by (simp add: sm ex_def)
qed

lemma add_mset_once:
  assumes "\<forall>k. count (add_mset x M) k \<le> 1"
  shows "x \<notin># M" and "count M k \<le> 1"
proof -
  have "count (add_mset x M) x \<le> 1" "count (add_mset x M) k \<le> 1" using assms by blast+
  then show "x \<notin># M" "count M k \<le> 1" by (auto simp: not_in_iff split: if_splits)
qed

section \<open>Requests that interleave\<close>

text \<open>
  No lock is held during a request: between the reading of the cache, the loading of a sampler, its
  entry into the cache, the sample, and the row that is written, other requests and the command
  \<open>!reset\<close> may run, an entry may leave the cache, and time may pass. A request is therefore a thread
  that is in one of these phases, and each phase is one step; \<open>Sampler.sample\<close> is \<open>synchronized\<close>.

  The samplers are objects: a thread keeps a reference to the one that it samples, which may have left
  the cache, or been replaced there, in the meantime. Beside each object stands the user it was loaded
  for, which the code does not keep and nothing reads.
\<close>

datatype client = Bot | Site_List | Site_Hide

datatype 'm phase =
    Begin "string option"
  | Load "'m request"
  | Put "(bare, 'm request) sampler"
  | Check nat
  | Draw nat
  | Drawn bare
  | Give recommendation

record 'm requests =
  objects :: "(int \<times> (bare, 'm request) sampler) list"
  cached :: "int \<rightharpoonup> nat"
  last_given :: "int \<rightharpoonup> recommendation"
  table :: "given_row list"
  now :: int
  threads :: "nat \<rightharpoonup> client \<times> int \<times> 'm phase"

text \<open>The state that a request that runs alone sees.\<close>

definition view :: "'m requests \<Rightarrow> 'm rec_state" where
  "view s = \<lparr>samplers = (\<lambda>u. map_option (\<lambda>n. snd (objects s ! n)) (cached s u)),
     lastRecommendation = last_given s, given = table s, clock = now s\<rparr>"

lemma view_simps [simp]:
  "samplers (view s) u = map_option (\<lambda>n. snd (objects s ! n)) (cached s u)"
  "lastRecommendation (view s) = last_given s" "given (view s) = table s" "clock (view s) = now s"
  by (simp_all add: view_def)

definition change_table :: "('m rec_state \<Rightarrow> 'm rec_state) \<Rightarrow> 'm requests \<Rightarrow> 'm requests" where
  "change_table f s = s\<lparr>table := given (f (view s))\<rparr>"

text \<open>One phase of \<open>getRecommendation\<close>, and last the saving by the client: the bot saves what it was given
  (before it refuses a broken beatmap), the list of the site skips a broken beatmap, and the site saves
  what takes the place of a hidden one. A request that ends with an exception has no next phase.\<close>

fun advance ::
  "('m, 'b) rec_env \<Rightarrow> rat list \<Rightarrow> client \<Rightarrow> int \<Rightarrow> 'm phase \<Rightarrow> 'm requests \<Rightarrow> 'm phase option \<times> 'm requests" where
  "advance env draws c u (Begin msg) s =
     (let parse = parseSamplerSettings (parser_for env u) (case msg of None \<Rightarrow> [] | Some m \<Rightarrow> m)
      in case cached s u of
           None \<Rightarrow> (case parse of Inl e \<Rightarrow> (None, s) | Inr req \<Rightarrow> (Some (Load req), s))
         | Some n \<Rightarrow>
             if msg = None then (Some (Check n), s)
             else (case parse of
                     Inl e \<Rightarrow> (None, s)
                   | Inr req \<Rightarrow> (Some (if settings (snd (objects s ! n)) = req then Check n else Load req), s)))"
| "advance env draws c u (Load req) s =
     (case loadSampler env u req (view s) of Inl e \<Rightarrow> (None, s) | Inr sm \<Rightarrow> (Some (Put sm), s))"
| "advance env draws c u (Put sm) s =
     (Some (Check (length (objects s))),
      s\<lparr>objects := objects s @ [(u, sm)], cached := (cached s)(u \<mapsto> length (objects s))\<rparr>)"
| "advance env draws c u (Check n) s =
     (if isEmpty (snd (objects s ! n)) then (None, s\<lparr>cached := (cached s)(u := None)\<rparr>) else (Some (Draw n), s))"
| "advance env draws c u (Draw n) s =
     (case sample probability draws (snd (objects s ! n)) of
        None \<Rightarrow> (None, s)
      | Some (b, sm) \<Rightarrow> (Some (Drawn b), s\<lparr>objects := (objects s)[n := (fst (objects s ! n), sm)]\<rparr>))"
| "advance env draws c u (Drawn b) s =
     (case load_meta env b of
        Inl e \<Rightarrow> (None, s)
      | Inr None \<Rightarrow> (None, s)
      | Inr (Some m) \<Rightarrow>
          let r = \<lparr>rec_meta = m\<lparr>meta_personalPP := personalPP b\<rparr>, rec_bare = b\<rparr>
          in (Some (Give r), s\<lparr>last_given := (last_given s)(u \<mapsto> r)\<rparr>))"
| "advance env draws c u (Give r) s =
     (None,
      let save = (\<lambda>i. change_table (saveGivenRecommendation u i (bare_mods (rec_bare r))) s)
      in case c of
           Bot \<Rightarrow> save (meta_beatmapid (rec_meta r))
         | Site_List \<Rightarrow> if meta_maxCombo (rec_meta r) \<le> 0 then s else save (beatmapId (rec_bare r))
         | Site_Hide \<Rightarrow> save (beatmapId (rec_bare r)))"

text \<open>The machine: requests start, advance, or end with an exception of a service; recommendations are
  hidden, the command \<open>!reset\<close> forgets them, samplers leave the cache, and time passes. Whether a
  request may start while one of the same user runs is a parameter.\<close>

definition busy :: "'m requests \<Rightarrow> int \<Rightarrow> bool" where
  "busy s u \<longleftrightarrow> (\<exists>i c p. threads s i = Some (c, u, p))"

inductive request_step :: "bool \<Rightarrow> ('m, 'b) rec_env set \<Rightarrow> 'm requests \<Rightarrow> 'm requests \<Rightarrow> bool" for overlap envs where
  start: "threads s i = None \<Longrightarrow> overlap \<or> \<not> busy s u \<Longrightarrow>
     request_step overlap envs s (s\<lparr>threads := (threads s)(i \<mapsto> (c, u, Begin msg))\<rparr>)"
| advance: "env \<in> envs \<Longrightarrow> threads s i = Some (c, u, p) \<Longrightarrow> advance env draws c u p s = (q, t) \<Longrightarrow>
     request_step overlap envs s (t\<lparr>threads := (threads t)(i := map_option (\<lambda>p'. (c, u, p')) q)\<rparr>)"
| abort: "request_step overlap envs s (s\<lparr>threads := (threads s)(i := None)\<rparr>)"
| hide: "request_step overlap envs s (change_table (hideRecommendation u i m) s)"
| reset: "request_step overlap envs s (change_table (forgetRecommendations u) s)"
| evict: "request_step overlap envs s (s\<lparr>cached := (cached s)(u := None)\<rparr>)"
| pass: "0 \<le> d \<Longrightarrow> request_step overlap envs s (s\<lparr>now := now s + d\<rparr>)"

definition no_recommendations :: "int \<Rightarrow> 'm requests" where
  "no_recommendations t =
     \<lparr>objects = [], cached = Map.empty, last_given = Map.empty, table = [], now = t, threads = Map.empty\<rparr>"

section \<open>A request that runs alone\<close>

text \<open>When nothing comes between, the phases of the requests amount to the functions of
  \<open>Recommendations\<close>.\<close>

definition owns :: "'m requests \<Rightarrow> int \<Rightarrow> nat \<Rightarrow> bool" where
  "owns s u n \<longleftrightarrow> n < length (objects s) \<and> fst (objects s ! n) = u"

definition refs_ok :: "'m requests \<Rightarrow> bool" where
  "refs_ok s \<longleftrightarrow> (\<forall>u n. cached s u = Some n \<longrightarrow> owns s u n)"

fun alone ::
  "('m, 'b) rec_env \<Rightarrow> rat list \<Rightarrow> client \<Rightarrow> int \<Rightarrow> nat \<Rightarrow> 'm phase \<Rightarrow> 'm requests \<Rightarrow> 'm phase option \<times> 'm requests" where
  "alone env draws c u 0 p s = (Some p, s)"
| "alone env draws c u (Suc k) p s =
     (case advance env draws c u p s of (None, t) \<Rightarrow> (None, t) | (Some q, t) \<Rightarrow> alone env draws c u k q t)"

lemma put_view:
  assumes "refs_ok s" and "t = s\<lparr>objects := objects s @ [(u, sm)], cached := (cached s)(u \<mapsto> length (objects s))\<rparr>"
  shows "view t = (view s)\<lparr>samplers := (samplers (view s))(u \<mapsto> sm)\<rparr> \<and> refs_ok t"
proof -
  have "cached s v = Some n \<Longrightarrow> n < length (objects s)" for v n using assms(1) by (simp add: refs_ok_def owns_def)
  with assms show ?thesis
    by (fastforce simp: view_def refs_ok_def owns_def nth_append fun_eq_iff intro: option.map_cong)
qed

lemma draw_view:
  assumes "refs_ok s" and "cached s u = Some n" and "t = s\<lparr>objects := (objects s)[n := (fst (objects s ! n), sm)]\<rparr>"
  shows "view t = (view s)\<lparr>samplers := (samplers (view s))(u \<mapsto> sm)\<rparr> \<and> refs_ok t"
proof -
  have own: "owns s u n" using assms(1,2) by (simp add: refs_ok_def)
  have other: "m \<noteq> n" if "v \<noteq> u" "cached s v = Some m" for v m
    using assms(1) own that by (auto simp: refs_ok_def owns_def)
  have "samplers (view t) v = ((samplers (view s))(u \<mapsto> sm)) v" for v
  proof (cases "cached s v")
    case (Some m)
    then show ?thesis using own other [of v m] assms(2) by (cases "v = u") (simp_all add: assms(3) owns_def)
  qed (use assms(2) in \<open>auto simp: assms(3)\<close>)
  then have "samplers (view t) = (samplers (view s))(u \<mapsto> sm)" by (intro ext)
  moreover have "owns t v m" if "owns s v m" for v m
    using that own by (cases "m = n") (simp_all add: owns_def assms(3))
  ultimately show ?thesis using assms(1) by (simp add: refs_ok_def assms(3) view_def)
qed

lemma uncache_view:
  assumes "refs_ok s"
  shows "view (s\<lparr>cached := (cached s)(u := None)\<rparr>) = (view s)\<lparr>samplers := (samplers (view s))(u := None)\<rparr>
    \<and> refs_ok (s\<lparr>cached := (cached s)(u := None)\<rparr>)"
  using assms by (auto simp: view_def refs_ok_def owns_def fun_eq_iff)

lemma choose_alone:
  assumes "refs_ok s" and "choose_sampler env u msg (view s) = (res, r)"
  shows "\<exists>k q t. alone env draws c u k (Begin msg) s = (q, t) \<and> refs_ok t \<and> view t = r \<and> threads t = threads s
    \<and> (case res of Inl e \<Rightarrow> q = None
       | Inr sm \<Rightarrow> \<exists>n. q = Some (Check n) \<and> cached t u = Some n \<and> snd (objects t ! n) = sm)"
proof -
  obtain q t where b: "advance env draws c u (Begin msg) s = (q, t)" by (cases "advance env draws c u (Begin msg) s")
  have t: "t = s" using b by (auto simp: Let_def split: option.splits sum.splits if_splits)
  define pr where "pr = parseSamplerSettings (parser_for env u) (case msg of None \<Rightarrow> [] | Some m \<Rightarrow> m)"
  have adv: "q = (case cached s u of
           None \<Rightarrow> (case pr of Inl e \<Rightarrow> None | Inr req \<Rightarrow> Some (Load req))
         | Some n \<Rightarrow>
             if msg = None then Some (Check n)
             else (case pr of
                     Inl e \<Rightarrow> None
                   | Inr req \<Rightarrow> Some (if settings (snd (objects s ! n)) = req then Check n else Load req)))"
    using b by (auto simp: pr_def Let_def split: option.splits sum.splits if_splits)
  have ch: "(res, r) = (case q of None \<Rightarrow> (case pr of Inl e \<Rightarrow> (Inl (Invalid e), view s) | Inr req \<Rightarrow> (res, r))
      | Some (Check n) \<Rightarrow> (Inr (snd (objects s ! n)), view s)
      | Some (Load req) \<Rightarrow> (case loadSampler env u req (view s) of Inl e \<Rightarrow> (Inl e, view s)
          | Inr sm \<Rightarrow> (Inr sm, (view s)\<lparr>samplers := (samplers (view s))(u \<mapsto> sm)\<rparr>))
      | _ \<Rightarrow> (res, r))"
    using assms(2) [symmetric] unfolding adv
    by (cases "cached s u"; cases pr) (simp_all add: choose_sampler_def Let_def flip: pr_def)
  have n: "q = None \<Longrightarrow> \<exists>e. pr = Inl e" using adv by (simp split: option.splits sum.splits if_splits)
  consider "q = None" | n where "q = Some (Check n)" "cached s u = Some n" | req where "q = Some (Load req)"
    using adv by (simp split: option.splits sum.splits if_splits)
  then consider (check) n where "q = Some (Check n)" "cached s u = Some n" "res = Inr (snd (objects s ! n))" "r = view s"
    | (none) e where "q = None" "res = Inl e" "r = view s"
    | (fail) req e where "q = Some (Load req)" "loadSampler env u req (view s) = Inl e" "res = Inl e" "r = view s"
    | (load) req sm where "q = Some (Load req)" "loadSampler env u req (view s) = Inr sm" "res = Inr sm"
        "r = (view s)\<lparr>samplers := (samplers (view s))(u \<mapsto> sm)\<rparr>"
  proof cases
    case 1
    then show ?thesis using n ch that(2) by auto
  next
    case (2 n)
    then show ?thesis using ch that(1) by simp
  next
    case (3 req)
    then show ?thesis using ch that(3,4) by (cases "loadSampler env u req (view s)") simp_all
  qed
  then show ?thesis
  proof cases
    case check
    then show ?thesis using b t assms(1) by (intro exI [of _ 1]) simp
  next
    case none
    then show ?thesis using b t assms(1) by (intro exI [of _ 1]) simp
  next
    case fail
    then show ?thesis using b t assms(1) by (intro exI [of _ 2]) (simp add: numeral_2_eq_2)
  next
    case load
    have "alone env draws c u 3 (Begin msg) s = (Some (Check (length (objects s))),
        s\<lparr>objects := objects s @ [(u, sm)], cached := (cached s)(u \<mapsto> length (objects s))\<rparr>)"
      using load(1,2) b t by (simp add: numeral_3_eq_3)
    then show ?thesis using load put_view [OF assms(1) refl, of u sm]
      by (intro exI [of _ 3] exI conjI) (assumption | simp)+
  qed
qed

text \<open>From the sampler to the recommendation.\<close>

lemma sample_alone:
  assumes "refs_ok s" and "cached s u = Some n" and "snd (objects s ! n) = sm"
    and "(res, r) = (if isEmpty sm then (Inl OutOfRecommendations, (view s)\<lparr>samplers := (samplers (view s))(u := None)\<rparr>)
          else
            case sample probability draws sm of
              None \<Rightarrow> (Inl StackOverflow, view s)
            | Some (b, sm') \<Rightarrow>
                let s2 = (view s)\<lparr>samplers := (samplers (view s))(u \<mapsto> sm')\<rparr>
                in case load_meta env b of
                     Inl e \<Rightarrow> (Inl e, s2)
                   | Inr None \<Rightarrow> (Inl RareUser, s2)
                   | Inr (Some m) \<Rightarrow>
                       let r = \<lparr>rec_meta = m\<lparr>meta_personalPP := personalPP b\<rparr>, rec_bare = b\<rparr>
                       in (Inr r, s2\<lparr>lastRecommendation := (lastRecommendation s2)(u \<mapsto> r)\<rparr>))"
  shows "\<exists>k t. alone env draws c u k (Check n) s = (case res of Inl e \<Rightarrow> None | Inr x \<Rightarrow> Some (Give x), t)
    \<and> refs_ok t \<and> view t = r \<and> threads t = threads s"
proof (cases "isEmpty sm \<or> sample probability draws sm = None")
  case True
  then show ?thesis
  proof (cases "isEmpty sm")
    case True
    then show ?thesis using assms uncache_view [OF assms(1), of u] by (intro exI [of _ 1]) simp
  next
    case False
    then show ?thesis using True assms by (intro exI [of _ 2]) (simp add: numeral_2_eq_2)
  qed
next
  case False
  then obtain b sm' where b: "sample probability draws sm = Some (b, sm')" by auto
  define t where "t = s\<lparr>objects := (objects s)[n := (fst (objects s ! n), sm')]\<rparr>"
  have d: "advance env draws c u (Check n) s = (Some (Draw n), s)"
    "advance env draws c u (Draw n) s = (Some (Drawn b), t)"
    using False b assms(3) by (simp_all add: t_def)
  have v: "view t = (view s)\<lparr>samplers := (samplers (view s))(u \<mapsto> sm')\<rparr>" "refs_ok t"
    using draw_view [OF assms(1,2) t_def] by simp_all
  have th: "threads t = threads s" by (simp add: t_def)
  let ?r = "\<lambda>m. \<lparr>rec_meta = m\<lparr>meta_personalPP := personalPP b\<rparr>, rec_bare = b\<rparr>"
  have l: "view (t\<lparr>last_given := f\<rparr>) = (view t)\<lparr>lastRecommendation := f\<rparr> \<and> refs_ok (t\<lparr>last_given := f\<rparr>)
      \<and> last_given t = lastRecommendation (view t)" for f
    using v(2) by (simp add: view_def refs_ok_def owns_def)
  from False b assms(4) consider e where "load_meta env b = Inl e" "res = Inl e" "r = view t"
    | "load_meta env b = Inr None" "res = Inl RareUser" "r = view t"
    | m where "load_meta env b = Inr (Some m)" "res = Inr (?r m)"
        "r = (view t)\<lparr>lastRecommendation := (lastRecommendation (view t))(u \<mapsto> ?r m)\<rparr>"
    unfolding v(1) by (auto simp: Let_def split: sum.splits option.splits)
  then show ?thesis
  proof cases
    case 1
    then show ?thesis using d v(2) th by (intro exI [of _ 3]) (simp add: numeral_3_eq_3)
  next
    case 2
    then show ?thesis using d v(2) th by (intro exI [of _ 3]) (simp add: numeral_3_eq_3)
  next
    case (3 m)
    let ?t = "t\<lparr>last_given := (last_given t)(u \<mapsto> ?r m)\<rparr>"
    have "alone env draws c u 3 (Check n) s = (Some (Give (?r m)), ?t)"
      using d 3(1) by (simp add: numeral_3_eq_3 Let_def)
    moreover have "refs_ok ?t \<and> view ?t = r \<and> threads ?t = threads s"
      using l [of "(last_given t)(u \<mapsto> ?r m)"] 3(3) th by simp
    ultimately show ?thesis using 3(2) by (intro exI [of _ 3] exI [of _ ?t]) simp
  qed
qed

lemma alone_add:
  "alone env draws c u k p s = (Some q, t) \<Longrightarrow> alone env draws c u (k + j) p s = alone env draws c u j q t"
  by (induction k arbitrary: p s) (simp_all split: prod.splits option.splits)

lemma alone_last:
  assumes "alone env draws c u k p s = (Some q, t)" and "advance env draws c u q t = (None, t')"
  shows "alone env draws c u (k + 1) p s = (None, t')"
  using alone_add [OF assms(1), of 1] assms(2) by simp

lemma getRecommendation_alone:
  assumes "refs_ok s" and "getRecommendation env draws u msg (view s) = (res, r)"
  shows "\<exists>k t. alone env draws c u k (Begin msg) s = (case res of Inl e \<Rightarrow> None | Inr x \<Rightarrow> Some (Give x), t)
    \<and> refs_ok t \<and> view t = r \<and> threads t = threads s"
proof -
  obtain ch r1 where ch: "choose_sampler env u msg (view s) = (ch, r1)" by (cases "choose_sampler env u msg (view s)")
  obtain k q t where a: "alone env draws c u k (Begin msg) s = (q, t)" "refs_ok t" "view t = r1" "threads t = threads s"
    and q: "case ch of Inl e \<Rightarrow> q = None
       | Inr sm \<Rightarrow> \<exists>n. q = Some (Check n) \<and> cached t u = Some n \<and> snd (objects t ! n) = sm"
    using choose_alone [OF assms(1) ch, of draws c] by (elim exE conjE) (rule that)
  show ?thesis
  proof (cases ch)
    case (Inl e)
    with assms(2) ch a q show ?thesis
      by (intro exI [of _ k] exI [of _ t]) (auto simp: getRecommendation_def)
  next
    case (Inr sm)
    with q obtain n where n: "q = Some (Check n)" "cached t u = Some n" "snd (objects t ! n) = sm" by auto
    note sm = sample_alone [OF a(2) n(2,3), where res = res and r = r and draws = draws and env = env and c = c]
    have "\<exists>j t'. alone env draws c u j (Check n) t = (case res of Inl e \<Rightarrow> None | Inr x \<Rightarrow> Some (Give x), t')
      \<and> refs_ok t' \<and> view t' = r \<and> threads t' = threads t"
      by (rule sm, rule assms(2) [unfolded getRecommendation_def ch Inr prod.case sum.case, folded a(3), symmetric])
    then obtain j t' where "alone env draws c u j (Check n) t = (case res of Inl e \<Rightarrow> None | Inr x \<Rightarrow> Some (Give x), t')"
      "refs_ok t'" "view t' = r" "threads t' = threads t" by blast
    moreover from this(1) have
      "alone env draws c u (k + j) (Begin msg) s = (case res of Inl e \<Rightarrow> None | Inr x \<Rightarrow> Some (Give x), t')"
      using alone_add [OF a(1) [unfolded n(1)], of j] by simp
    ultimately show ?thesis using a(4) by metis
  qed
qed

text \<open>The steps of a request that runs alone, with its saving.\<close>

lemma view_threads [simp]: "view (s\<lparr>threads := th\<rparr>) = view s"
  by (simp add: view_def)

lemma refs_threads [simp]: "refs_ok (s\<lparr>threads := th\<rparr>) = refs_ok s"
  by (simp add: refs_ok_def owns_def)

lemma advance_threads:
  "advance env draws c u p (s\<lparr>threads := th\<rparr>) = apsnd (\<lambda>t. t\<lparr>threads := th\<rparr>) (advance env draws c u p s)"
  by (cases p) (simp_all add: Let_def change_table_def split: option.split sum.split client.split)

lemma alone_steps:
  assumes "env \<in> envs"
  shows "th i = Some (c, u, p) \<Longrightarrow> alone env draws c u k p s = (q, t) \<Longrightarrow>
    (request_step overlap envs)\<^sup>*\<^sup>* (s\<lparr>threads := th\<rparr>)
      (t\<lparr>threads := th(i := map_option (\<lambda>p'. (c, u, p')) q)\<rparr>)"
proof (induction k arbitrary: p s th)
  case 0
  then have "th(i := map_option (\<lambda>p'. (c, u, p')) q) = th" by (auto simp: fun_upd_idem_iff)
  with 0 show ?case by auto
next
  case (Suc k)
  obtain q1 t1 where a: "advance env draws c u p s = (q1, t1)" by (cases "advance env draws c u p s")
  have "advance env draws c u p (s\<lparr>threads := th\<rparr>) = (q1, t1\<lparr>threads := th\<rparr>)"
    by (simp add: advance_threads a)
  from request_step.advance [OF assms _ this, of i overlap] Suc.prems(1)
  have one: "request_step overlap envs (s\<lparr>threads := th\<rparr>)
      (t1\<lparr>threads := th(i := map_option (\<lambda>p'. (c, u, p')) q1)\<rparr>)" by simp
  show ?case
  proof (cases q1)
    case None
    then have "q = None" "t = t1" using a Suc.prems(2) by auto
    with None one show ?thesis by (simp only: option.map r_into_rtranclp)
  next
    case (Some p1)
    then have "alone env draws c u k p1 t1 = (q, t)" using a Suc.prems(2) by simp
    from Suc.IH [of "th(i \<mapsto> (c, u, p1))", OF fun_upd_same this]
    have "(request_step overlap envs)\<^sup>*\<^sup>* (t1\<lparr>threads := th(i := map_option (\<lambda>p'. (c, u, p')) q1)\<rparr>)
        (t\<lparr>threads := th(i := map_option (\<lambda>p'. (c, u, p')) q)\<rparr>)"
      by (simp only: Some option.map fun_upd_upd)
    with one show ?thesis by (rule converse_rtranclp_into_rtranclp)
  qed
qed

definition client_saves :: "client \<Rightarrow> int \<Rightarrow> recommendation \<Rightarrow> 'm rec_state \<Rightarrow> 'm rec_state" where
  "client_saves c u r s =
     (let save = (\<lambda>i. saveGivenRecommendation u i (bare_mods (rec_bare r)) s)
      in case c of
           Bot \<Rightarrow> save (meta_beatmapid (rec_meta r))
         | Site_List \<Rightarrow> if meta_maxCombo (rec_meta r) \<le> 0 then s else save (beatmapId (rec_bare r))
         | Site_Hide \<Rightarrow> save (beatmapId (rec_bare r)))"

lemma view_save: "view (change_table (saveGivenRecommendation u i m) s) = saveGivenRecommendation u i m (view s)"
  by (simp add: change_table_def saveGivenRecommendation_def view_def)

lemma refs_table [simp]: "refs_ok (change_table f s) = refs_ok s"
  by (simp add: refs_ok_def owns_def change_table_def)

lemma threads_table: "threads (change_table f s) = threads s"
  by (simp add: change_table_def)

lemma give_alone:
  "\<exists>t. advance env draws c u (Give r) s = (None, t) \<and> view t = client_saves c u r (view s)
    \<and> (refs_ok s \<longrightarrow> refs_ok t) \<and> threads t = threads s"
  by (cases c) (auto simp: client_saves_def Let_def view_save threads_table)

text \<open>From the state of the table and of the cache before it to that after it, with the same threads.\<close>

definition reaches :: "bool \<Rightarrow> ('m, 'b) rec_env set \<Rightarrow> 'm requests \<Rightarrow> 'm rec_state \<Rightarrow> bool" where
  "reaches overlap envs s r \<longleftrightarrow> (\<exists>t. (request_step overlap envs)\<^sup>*\<^sup>* s t \<and> refs_ok t \<and> threads t = threads s \<and> view t = r)"

lemma round_steps:
  assumes "env \<in> envs" and "refs_ok s" and "threads s i = None" and "overlap \<or> \<not> busy s u"
    and "getRecommendation env draws u msg (view s) = (res, r)"
  shows "reaches overlap envs s (case res of Inl e \<Rightarrow> r | Inr x \<Rightarrow> client_saves c u x r)"
proof -
  obtain k t where a: "alone env draws c u k (Begin msg) s = (case res of Inl e \<Rightarrow> None | Inr x \<Rightarrow> Some (Give x), t)"
    "refs_ok t" "view t = r" "threads t = threads s"
    using getRecommendation_alone [OF assms(2,5)] by metis
  let ?th = "(threads s)(i \<mapsto> (c, u, Begin msg))"
  have start: "request_step overlap envs s (s\<lparr>threads := ?th\<rparr>)"
    using assms(3,4) by (rule request_step.start)
  obtain q t' j where b: "alone env draws c u j (Begin msg) s = (None, t')" "refs_ok t'" "threads t' = threads s"
    "view t' = (case res of Inl e \<Rightarrow> r | Inr x \<Rightarrow> client_saves c u x r)"
  proof (cases res)
    case (Inl e)
    then show ?thesis using that [of k t] a by simp
  next
    case (Inr x)
    obtain t' where t': "advance env draws c u (Give x) t = (None, t')" "view t' = client_saves c u x (view t)"
      "refs_ok t \<longrightarrow> refs_ok t'" "threads t' = threads t" using give_alone by metis
    have "alone env draws c u k (Begin msg) s = (Some (Give x), t)" using a(1) Inr by simp
    then have "alone env draws c u (k + 1) (Begin msg) s = (None, t')" using t'(1) by (rule alone_last)
    then show ?thesis using that [of "k + 1" t'] a t' Inr by simp
  qed
  have "(request_step overlap envs)\<^sup>*\<^sup>* (s\<lparr>threads := ?th\<rparr>) (t'\<lparr>threads := ?th(i := None)\<rparr>)"
    using alone_steps [OF assms(1) _ b(1), of ?th i] by simp
  moreover have "?th(i := None) = threads s" using assms(3) by (simp add: fun_upd_idem)
  ultimately have "(request_step overlap envs)\<^sup>*\<^sup>* s (t'\<lparr>threads := threads s\<rparr>)"
    using start by (simp add: converse_rtranclp_into_rtranclp)
  then show ?thesis using b unfolding reaches_def
    by (intro exI [of _ "t'\<lparr>threads := threads s\<rparr>"]) simp
qed

lemma reaches_refl: "refs_ok s \<Longrightarrow> reaches overlap envs s (view s)"
  by (auto simp: reaches_def)

lemma reaches_trans:
  assumes "reaches overlap envs s r" and "\<And>t. refs_ok t \<Longrightarrow> threads t = threads s \<Longrightarrow> view t = r \<Longrightarrow> reaches overlap envs t r'"
  shows "reaches overlap envs s r'"
  using assms unfolding reaches_def by (metis rtranclp_trans)

text \<open>What the bot and the site do, each request alone, are runs of the machine.\<close>

lemma chat_steps:
  assumes "env \<in> envs" and "refs_ok s" and "threads s i = None" and "overlap \<or> \<not> busy s u"
  shows "reaches overlap envs s (snd (snd (handleArgument env draws u d msg (view s))))"
proof -
  define rest where "rest = (if msg = [] then (case d of None \<Rightarrow> [] | Some d \<Rightarrow> d) else msg)"
  obtain res t where g: "getRecommendation env draws u (Some rest) (view s) = (res, t)"
    by (cases "getRecommendation env draws u (Some rest) (view s)")
  have h: "snd (snd (handleArgument env draws u d msg (view s))) =
      (case parseSamplerSettings (parser_for env u) rest of Inl e \<Rightarrow> view s
       | Inr req \<Rightarrow> (case res of Inl e \<Rightarrow> t | Inr x \<Rightarrow> client_saves Bot u x t))"
    unfolding handleArgument_def rest_def [symmetric] Let_def g client_saves_def by (simp split: sum.split)
  show ?thesis
    using round_steps [OF assms g, of Bot] reaches_refl [OF assms(2), of overlap envs] unfolding h
    by (cases "parseSamplerSettings (parser_for env u) rest") simp_all
qed

lemma refill_steps:
  assumes "env \<in> envs" and "refs_ok s" and "threads s i = None" and "overlap \<or> \<not> busy s u"
  shows "reaches overlap envs s (snd (refill env draws u params n recs (view s)))"
  using assms(2-4)
proof (induction n arbitrary: recs s)
  case (Suc n)
  obtain res r where g: "getRecommendation env (draws n) u params (view s) = (res, r)"
    by (cases "getRecommendation env (draws n) u params (view s)")
  note st = round_steps [OF assms(1) Suc.prems g, of Site_List]
  have more: "reaches overlap envs s (snd (refill env draws u params n recs' r'))"
    if "reaches overlap envs s r'" for recs' r'
    using that by (rule reaches_trans) (use Suc.IH Suc.prems(2,3) in \<open>auto simp: busy_def\<close>)
  have "reaches overlap envs s r" if "res = Inl e" for e using st that by simp
  moreover have "reaches overlap envs s (client_saves Site_List u x r)" if "res = Inr x" for x using st that by simp
  ultimately show ?case using reaches_refl [OF Suc.prems(1), of overlap envs] more g
    by (cases res) (auto simp: client_saves_def Let_def)
qed (simp add: reaches_refl)

lemma replacement_steps:
  assumes "env \<in> envs" and "refs_ok s" and "threads s i = None" and "overlap \<or> \<not> busy s u"
    and "replacement env draws u params n (view s) = (res, r)"
  shows "reaches overlap envs s (case res of Inr (Some x) \<Rightarrow> client_saves Site_Hide u x r | _ \<Rightarrow> r)"
  using assms(2-5)
proof (induction n arbitrary: s)
  case 0
  then show ?case using reaches_refl [OF 0(1), of overlap envs] by auto
next
  case (Suc n)
  obtain res' r' where g: "getRecommendation env (draws n) u params (view s) = (res', r')"
    by (cases "getRecommendation env (draws n) u params (view s)")
  note st = round_steps [OF assms(1) Suc.prems(1-3) g, of Site_Hide]
  show ?case
  proof (cases "res' = Inl RareUser")
    case True
    then have "reaches overlap envs s r'" using st by simp
    moreover have "replacement env draws u params n r' = (res, r)" using True g Suc.prems(4) by simp
    ultimately show ?thesis
      by (rule_tac reaches_trans) (use Suc.IH Suc.prems(2,3) in \<open>auto simp: busy_def\<close>)
  next
    case False
    then show ?thesis using st g Suc.prems(4) by (cases res') auto
  qed
qed

lemma hide_steps:
  assumes "env \<in> envs" and "refs_ok s" and "threads s i = None" and "overlap \<or> \<not> busy s u"
  shows "reaches overlap envs s (snd (hide_and_replace env draws u params b m (view s)))"
proof -
  let ?t = "change_table (hideRecommendation u b m) s"
  have v: "view ?t = hideRecommendation u b m (view s)"
    by (simp add: change_table_def hideRecommendation_def view_def)
  have "reaches overlap envs s (view ?t)"
    unfolding reaches_def using assms(2)
    by (intro exI [of _ ?t] conjI r_into_rtranclp request_step.hide) (simp_all add: threads_table)
  then show ?thesis
  proof (rule reaches_trans)
    fix t assume t: "refs_ok t" "threads t = threads s" "view t = view ?t"
    obtain res r where r: "replacement env draws u params 10 (view t) = (res, r)"
      by (cases "replacement env draws u params 10 (view t)")
    have "reaches overlap envs t (case res of Inr (Some x) \<Rightarrow> client_saves Site_Hide u x r | _ \<Rightarrow> r)"
      by (rule replacement_steps [OF assms(1) t(1) _ _ r, of i]) (use assms(3,4) t(2) in \<open>simp_all add: busy_def\<close>)
    then show "reaches overlap envs t (snd (hide_and_replace env draws u params b m (view s)))"
      using r unfolding hide_and_replace_def t(3) v
      by (simp add: client_saves_def split: sum.splits option.splits)
  qed
qed

section \<open>The invariant\<close>

definition sampler_stock :: "'m requests \<Rightarrow> int \<Rightarrow> bare multiset" where
  "sampler_stock s u = (case cached s u of None \<Rightarrow> {#} | Some n \<Rightarrow> stock (snd (objects s ! n)))"

definition recently_given :: "'m requests \<Rightarrow> int \<Rightarrow> int \<times> int \<Rightarrow> bool" where
  "recently_given s u k \<longleftrightarrow> (\<exists>g \<in> set (table s). g_userid g = u \<and> (g_beatmapid g, g_mods g) = k
     \<and> \<not> forgotten g \<and> g_date g > now s - FOUR_WEEKS)"

definition fresh_for :: "'m requests \<Rightarrow> int \<Rightarrow> (bare, 'm request) sampler \<Rightarrow> bool" where
  "fresh_for s u sm \<longleftrightarrow> (\<forall>k. count (image_mset pair (stock sm)) k \<le> 1)
     \<and> (\<forall>r \<in># stock sm. \<not> recently_given s u (pair r))"

definition cache_ok :: "'m requests \<Rightarrow> int \<Rightarrow> bool" where
  "cache_ok s u \<longleftrightarrow> (\<forall>n. cached s u = Some n \<longrightarrow> owns s u n \<and> fresh_for s u (snd (objects s ! n)))"

text \<open>What a request relies on in each phase.\<close>

fun phase_ok :: "'m requests \<Rightarrow> int \<Rightarrow> 'm phase \<Rightarrow> bool" where
  "phase_ok s u (Begin msg) \<longleftrightarrow> True"
| "phase_ok s u (Load req) \<longleftrightarrow> True"
| "phase_ok s u (Put sm) \<longleftrightarrow> fresh_for s u sm"
| "phase_ok s u (Check n) \<longleftrightarrow> owns s u n \<and> fresh_for s u (snd (objects s ! n)) \<and> cached s u \<in> {None, Some n}"
| "phase_ok s u (Draw n) \<longleftrightarrow> owns s u n \<and> fresh_for s u (snd (objects s ! n)) \<and> cached s u \<in> {None, Some n}"
| "phase_ok s u (Drawn b) \<longleftrightarrow> \<not> recently_given s u (pair b) \<and> pair b \<notin># image_mset pair (sampler_stock s u)"
| "phase_ok s u (Give r) \<longleftrightarrow> \<not> recently_given s u (pair (rec_bare r))
     \<and> pair (rec_bare r) \<notin># image_mset pair (sampler_stock s u)
     \<and> meta_beatmapid (rec_meta r) = beatmapId (rec_bare r)"

definition no_repeat :: "given_row list \<Rightarrow> bool" where
  "no_repeat = sorted_wrt (\<lambda>g h. g_userid g = g_userid h \<and> g_beatmapid g = g_beatmapid h \<and> g_mods g = g_mods h
     \<and> \<not> forgotten g \<and> \<not> forgotten h \<longrightarrow> g_date g + FOUR_WEEKS \<le> g_date h)"

definition table_ok :: "'m requests \<Rightarrow> bool" where
  "table_ok s \<longleftrightarrow> no_repeat (table s) \<and> (\<forall>g \<in> set (table s). g_date g \<le> now s)"

definition requests_ok :: "'m requests \<Rightarrow> bool" where
  "requests_ok s \<longleftrightarrow> table_ok s \<and> (\<forall>u. cache_ok s u)
     \<and> (\<forall>i c u p. threads s i = Some (c, u, p) \<longrightarrow> phase_ok s u p)
     \<and> (\<forall>i j c d u p q. threads s i = Some (c, u, p) \<and> threads s j = Some (d, u, q) \<longrightarrow> i = j)"

text \<open>A step that leaves alone what a request of the user \<open>u\<close> relies on.\<close>

definition leaves_alone :: "int \<Rightarrow> 'm requests \<Rightarrow> 'm requests \<Rightarrow> bool" where
  "leaves_alone u s t \<longleftrightarrow> (\<forall>k. recently_given t u k \<longrightarrow> recently_given s u k)
     \<and> (cached t u = cached s u \<or> cached t u = None)
     \<and> (\<forall>n. owns s u n \<longrightarrow> owns t u n \<and> objects t ! n = objects s ! n)"

lemma fresh_stable: "leaves_alone u s t \<Longrightarrow> fresh_for s u sm \<Longrightarrow> fresh_for t u sm"
  unfolding leaves_alone_def fresh_for_def by blast

lemma cache_stable: "leaves_alone u s t \<Longrightarrow> cache_ok s u \<Longrightarrow> cache_ok t u"
  using fresh_stable [of u s t] by (auto simp: leaves_alone_def cache_ok_def)

lemma stock_stable:
  assumes "leaves_alone u s t" and "cache_ok s u"
  shows "sampler_stock t u \<subseteq># sampler_stock s u"
  using assms by (auto simp: leaves_alone_def cache_ok_def sampler_stock_def split: option.splits)

lemma phase_stable:
  assumes "leaves_alone u s t" and "cache_ok s u" and "phase_ok s u p"
  shows "phase_ok t u p"
proof -
  have "pair b \<notin># image_mset pair (sampler_stock t u)" if "pair b \<notin># image_mset pair (sampler_stock s u)" for b
    using that mset_subset_eqD [OF image_mset_subseteq_mono [OF stock_stable [OF assms(1,2)], of pair]] by metis
  with assms fresh_stable [OF assms(1)] show ?thesis
    by (cases p) (auto simp: leaves_alone_def simp del: split_paired_All)
qed

lemma loaded_fresh:
  assumes "keeps_promise env" and "loadSampler env u req (view s) = Inr sm"
  shows "fresh_for s u sm"
proof -
  have l: "\<forall>k. count (image_mset pair (stock sm)) k \<le> 1"
    "\<forall>r \<in># stock sm. beatmapId r \<notin> set (map g_beatmapid (loadGivenRecommendations u (view s)))"
    using loadSampler_stock [OF assms] by blast+
  have "beatmapId r \<in> set (map g_beatmapid (loadGivenRecommendations u (view s)))"
    if "recently_given s u (pair r)" for r
    using that by (force simp: recently_given_def loadGivenRecommendations_def Let_def pair_def)
  with l show ?thesis unfolding fresh_for_def by blast
qed

lemma drawn_fresh:
  assumes "fresh_for s u sm" and "sample probability draws sm = Some (b, sm')"
  shows "fresh_for s u sm' \<and> \<not> recently_given s u (pair b) \<and> pair b \<notin># image_mset pair (stock sm')"
proof -
  have st: "add_mset b (stock sm') \<subseteq># stock sm" using sample_stock [OF assms(2)] by blast
  have sub: "image_mset pair (add_mset b (stock sm')) \<subseteq># image_mset pair (stock sm)"
    by (rule image_mset_subseteq_mono [OF st])
  have "\<forall>k. count (add_mset (pair b) (image_mset pair (stock sm'))) k \<le> 1"
    using mset_subset_eq_count [OF sub] assms(1) le_trans unfolding fresh_for_def image_mset_add_mset by blast
  note one = add_mset_once [OF this]
  have "set_mset (add_mset b (stock sm')) \<subseteq> set_mset (stock sm)" by (rule set_mset_mono [OF st])
  with one assms(1) show ?thesis by (auto simp: fresh_for_def)
qed

text \<open>Saving what was not given recently and is out of stock.\<close>

lemma save_table:
  assumes "table_ok s" and "\<not> recently_given s u (i, m)"
  shows "table_ok (change_table (saveGivenRecommendation u i m) s)"
  using assms
  by (force simp: table_ok_def no_repeat_def change_table_def saveGivenRecommendation_def sorted_wrt_append
      recently_given_def)

lemma save_given:
  "recently_given (change_table (saveGivenRecommendation u i m) s) v k
    \<longleftrightarrow> recently_given s v k \<or> (v = u \<and> k = (i, m))"
  by (auto simp: recently_given_def change_table_def saveGivenRecommendation_def FOUR_WEEKS_def)

lemma change_table_simps [simp]:
  "objects (change_table f s) = objects s" "cached (change_table f s) = cached s" "now (change_table f s) = now s"
  "threads (change_table f s) = threads s" "table (change_table f s) = given (f (view s))"
  by (simp_all add: change_table_def)

lemma save_ok:
  assumes "table_ok s" and "cache_ok s u" and "\<not> recently_given s u (i, m)"
    and "(i, m) \<notin># image_mset pair (sampler_stock s u)"
  defines "t \<equiv> change_table (saveGivenRecommendation u i m) s"
  shows "table_ok t \<and> cache_ok t u \<and> (\<forall>v. v \<noteq> u \<longrightarrow> leaves_alone v s t) \<and> threads t = threads s"
proof -
  have "pair r \<noteq> (i, m)" if "cached s u = Some n" "r \<in># stock (snd (objects s ! n))" for n r
    using assms(4) that by (force simp: sampler_stock_def)
  then have "cache_ok t u"
    using assms(2) by (auto simp: t_def cache_ok_def owns_def fresh_for_def save_given)
  moreover have "leaves_alone v s t" if "v \<noteq> u" for v
    using that by (simp add: t_def leaves_alone_def owns_def save_given)
  ultimately show ?thesis using save_table [OF assms(1,3)] by (simp add: t_def)
qed

lemma leaves_alone_refl [simp]: "leaves_alone u s s"
  by (simp add: leaves_alone_def)

text \<open>Changes of objects, of the cache and of threads touch neither the table nor the clock.\<close>

lemma given_upd [simp]:
  "recently_given (s\<lparr>objects := x\<rparr>) = recently_given s" "recently_given (s\<lparr>cached := y\<rparr>) = recently_given s"
  "recently_given (s\<lparr>last_given := z\<rparr>) = recently_given s" "recently_given (s\<lparr>threads := w\<rparr>) = recently_given s"
  by (intro ext; simp add: recently_given_def)+

lemma fresh_upd [simp]:
  "fresh_for (s\<lparr>objects := x\<rparr>) = fresh_for s" "fresh_for (s\<lparr>cached := y\<rparr>) = fresh_for s"
  "fresh_for (s\<lparr>last_given := z\<rparr>) = fresh_for s" "fresh_for (s\<lparr>threads := w\<rparr>) = fresh_for s"
  by (intro ext; simp add: fresh_for_def)+

lemma owns_upd [simp]:
  "owns (s\<lparr>cached := y\<rparr>) = owns s" "owns (s\<lparr>last_given := z\<rparr>) = owns s" "owns (s\<lparr>threads := w\<rparr>) = owns s"
  by (intro ext; simp add: owns_def)+

lemma table_upd [simp]:
  "table_ok (s\<lparr>objects := x\<rparr>) = table_ok s" "table_ok (s\<lparr>cached := y\<rparr>) = table_ok s"
  "table_ok (s\<lparr>last_given := z\<rparr>) = table_ok s" "table_ok (s\<lparr>threads := w\<rparr>) = table_ok s"
  by (simp_all add: table_ok_def)

lemma advance_ok:
  assumes env: "keeps_promise env" and "table_ok s" and c: "cache_ok s u" and p: "phase_ok s u p"
    and adv: "advance env draws cl u p s = (q, t)"
  shows "table_ok t \<and> cache_ok t u \<and> (\<forall>v. v \<noteq> u \<longrightarrow> leaves_alone v s t) \<and> threads t = threads s
    \<and> (\<forall>p'. q = Some p' \<longrightarrow> phase_ok t u p')"
proof (cases p)
  case (Begin msg)
  then show ?thesis using assms(2) c adv
    by (auto simp: Let_def cache_ok_def split: option.splits sum.splits if_splits)
next
  case (Load req)
  then show ?thesis using assms(2) c adv loaded_fresh [OF env, of u req s]
    by (auto split: sum.splits)
next
  case (Put sm)
  let ?n = "length (objects s)"
  have t: "t = s\<lparr>objects := objects s @ [(u, sm)], cached := (cached s)(u \<mapsto> ?n)\<rparr>" "q = Some (Check ?n)"
    using adv Put by auto
  have "owns t u ?n" "objects t ! ?n = (u, sm)" "cached t u = Some ?n" by (simp_all add: t(1) owns_def)
  moreover have "fresh_for t u sm" using p Put by (simp add: t(1))
  moreover have "leaves_alone v s t" if "v \<noteq> u" for v
    using that by (simp add: leaves_alone_def t(1)) (simp add: owns_def nth_append)
  ultimately show ?thesis using assms(2) by (simp add: t(2) cache_ok_def) (simp add: t(1))
next
  case (Check n)
  then show ?thesis using assms(2) c p adv
    by (auto simp: cache_ok_def leaves_alone_def split: if_splits)
next
  case (Draw n)
  show ?thesis
  proof (cases "sample probability draws (snd (objects s ! n))")
    case None
    then show ?thesis using Draw adv assms(2) c by simp
  next
    case (Some y)
    obtain b sm where y: "y = (b, sm)" by (cases y)
    have t: "t = s\<lparr>objects := (objects s)[n := (fst (objects s ! n), sm)]\<rparr>" "q = Some (Drawn b)"
      using Draw adv Some y by auto
    have o: "owns s u n" "fresh_for s u (snd (objects s ! n))" "cached s u \<in> {None, Some n}"
      using p Draw by auto
    note d = drawn_fresh [OF o(2) Some [unfolded y]]
    have "leaves_alone v s t" if "v \<noteq> u" for v
      using that o(1) by (simp add: leaves_alone_def t(1)) (auto simp: owns_def nth_list_update)
    moreover have own: "owns t u n" "snd (objects t ! n) = sm" using o(1) by (simp_all add: t(1) owns_def)
    moreover have "fresh_for t u sm" "cached t u \<in> {None, Some n}" using o(3) d by (simp_all add: t(1))
    moreover have "\<not> recently_given t u (pair b)" using d by (simp add: t(1))
    moreover have "table_ok t" "threads t = threads s" using assms(2) by (simp_all add: t(1))
    moreover have "cache_ok t u" using calculation(2-5) by (auto simp: cache_ok_def)
    moreover have "pair b \<notin># image_mset pair (sampler_stock t u)"
      using calculation(3,5) d by (cases "cached t u") (auto simp: sampler_stock_def)
    ultimately show ?thesis by (simp add: t(2))
  qed
next
  case (Drawn b)
  have "meta_beatmapid m = beatmapId b" if "load_meta env b = Inr (Some m)" for m
    using that env by (auto simp: load_meta_def keeps_promise_def split: if_splits sum.splits option.splits)
  then show ?thesis using assms(2) c p adv Drawn
    by (auto simp: Let_def cache_ok_def leaves_alone_def sampler_stock_def split: sum.splits option.splits)
next
  case (Give r)
  then have g: "\<not> recently_given s u (beatmapId (rec_bare r), bare_mods (rec_bare r))"
    "(beatmapId (rec_bare r), bare_mods (rec_bare r)) \<notin># image_mset pair (sampler_stock s u)"
    "meta_beatmapid (rec_meta r) = beatmapId (rec_bare r)"
    using p by (simp_all add: pair_def)
  show ?thesis using save_ok [OF assms(2) c g(1,2)] g(3) adv Give assms(2) c
    by (auto simp: Let_def split: client.splits if_splits)
qed

text \<open>A step that changes no thread, or only threads that it starts or ends.\<close>

lemma requests_ok_upd:
  assumes "requests_ok s" and "table_ok t" and "\<forall>u. leaves_alone u s t"
    and "\<And>i c u p. threads t i = Some (c, u, p) \<Longrightarrow> threads s i = Some (c, u, p)"
  shows "requests_ok t"
  unfolding requests_ok_def
proof (intro conjI allI impI)
  have c: "cache_ok s u" for u using assms(1) by (simp add: requests_ok_def)
  show "cache_ok t u" for u using cache_stable [OF spec [OF assms(3)] c] .
  show "phase_ok t u p" if "threads t i = Some (c, u, p)" for i c u p
    using phase_stable [OF spec [OF assms(3)] c] assms(1) assms(4) [OF that] unfolding requests_ok_def by blast
  show "i = j" if "threads t i = Some (c, u, p) \<and> threads t j = Some (d, u, q)" for i j c d u p q
    using assms(1,4) that unfolding requests_ok_def by blast
qed (use assms(2) in simp)

lemma start_ok:
  assumes "requests_ok s" and "\<not> busy s u"
  shows "requests_ok (s\<lparr>threads := (threads s)(i \<mapsto> (c, u, Begin msg))\<rparr>)" (is "requests_ok ?t")
  unfolding requests_ok_def
proof (intro conjI allI impI)
  have al: "leaves_alone v s ?t" for v by (simp add: leaves_alone_def)
  have c: "cache_ok s v" for v using assms(1) by (simp add: requests_ok_def)
  show "table_ok ?t" using assms(1) by (simp add: requests_ok_def)
  show "cache_ok ?t v" for v using cache_stable [OF al c] .
  show "phase_ok ?t v p" if "threads ?t j = Some (d, v, p)" for j d v p
  proof (cases "j = i")
    case False
    then have "phase_ok s v p" using that assms(1) by (simp add: requests_ok_def)
    then show ?thesis by (rule phase_stable [OF al c])
  qed (use that in auto)
  show "j = k" if "threads ?t j = Some (d, v, p) \<and> threads ?t k = Some (e, v, q)" for j k d e v p q
    using assms that unfolding requests_ok_def busy_def by (auto split: if_splits)
qed

lemma advance_step_ok:
  assumes "keeps_promise env" and "requests_ok s" and th: "threads s i = Some (c, u, p)"
    and adv: "advance env draws c u p s = (q, t)"
  shows "requests_ok (t\<lparr>threads := (threads t)(i := map_option (\<lambda>p'. (c, u, p')) q)\<rparr>)" (is "requests_ok ?t")
proof -
  have ok: "table_ok s" "\<forall>v. cache_ok s v" "phase_ok s u p"
    "\<And>j d v p'. threads s j = Some (d, v, p') \<Longrightarrow> phase_ok s v p'"
    "\<And>j d p'. threads s j = Some (d, u, p') \<Longrightarrow> j = i"
    "\<And>j k d e v p' q'. threads s j = Some (d, v, p') \<Longrightarrow> threads s k = Some (e, v, q') \<Longrightarrow> j = k"
    using assms(2) th unfolding requests_ok_def by blast+
  note a = advance_ok [OF assms(1) ok(1) spec [OF ok(2)] ok(3) adv]
  have t: "threads ?t j = (if j = i then map_option (\<lambda>p'. (c, u, p')) q else threads s j)" for j
    using a by simp
  have al: "leaves_alone v t ?t" for v by (simp add: leaves_alone_def)
  have c: "cache_ok t v" for v using a cache_stable ok(2) by (cases "v = u") blast+
  show ?thesis unfolding requests_ok_def
  proof (intro conjI allI impI)
    show "table_ok ?t" using a by simp
    show "cache_ok ?t v" for v using cache_stable [OF al c] .
    show "phase_ok ?t v p'" if "threads ?t j = Some (d, v, p')" for j d v p'
    proof (rule phase_stable [OF al c])
      show "phase_ok t v p'"
      proof (cases "j = i")
        case True
        then show ?thesis using that a unfolding t by auto
      next
        case False
        then have "threads s j = Some (d, v, p')" using that a by simp
        then show ?thesis using False a ok(2,4,5) phase_stable by metis
      qed
    qed
    show "j = k" if "threads ?t j = Some (d, v, p') \<and> threads ?t k = Some (e, v, q')" for j k d e v p' q'
      using that ok(5,6) unfolding t by (auto split: if_splits)
  qed
qed

lemma row_map_ok:
  assumes "requests_ok s" and "given (f (view s)) = map g (table s)"
    and "\<And>x. g_userid (g x) = g_userid x \<and> g_beatmapid (g x) = g_beatmapid x \<and> g_mods (g x) = g_mods x
      \<and> g_date (g x) = g_date x \<and> (forgotten x \<longrightarrow> forgotten (g x))"
  shows "requests_ok (change_table f s)"
proof (rule requests_ok_upd [OF assms(1)])
  show "\<forall>u. leaves_alone u s (change_table f s)"
    using assms(2,3) by (auto simp: leaves_alone_def recently_given_def owns_def)
  show "table_ok (change_table f s)"
    using assms unfolding requests_ok_def table_ok_def no_repeat_def
    by (auto simp: sorted_wrt_map elim: sorted_wrt_mono_rel [rotated])
qed simp

lemma hide_ok: "requests_ok s \<Longrightarrow> requests_ok (change_table (hideRecommendation u i m) s)"
  by (rule row_map_ok [where g = "\<lambda>g. if g_userid g = u \<and> g_beatmapid g = i \<and> g_mods g = m
        then g\<lparr>hidden := True\<rparr> else g"]) (simp_all add: hideRecommendation_def)

lemma forget_ok: "requests_ok s \<Longrightarrow> requests_ok (change_table (forgetRecommendations u) s)"
  by (rule row_map_ok [where g = "\<lambda>g. if g_userid g = u then g\<lparr>forgotten := True\<rparr> else g"])
    (simp_all add: forgetRecommendations_def)

interpretation recommendations: invariant_machine "\<lambda>s. \<exists>t. s = no_recommendations t"
  "request_step False {env. keeps_promise env}" requests_ok
proof
  show "requests_ok s" if "\<exists>t. s = no_recommendations t" for s :: "'a requests"
    using that by (auto simp: requests_ok_def table_ok_def cache_ok_def no_repeat_def no_recommendations_def)
next
  fix s t :: "'a requests"
  assume ok: "requests_ok s" and "request_step False {env :: ('a, 'b) rec_env. keeps_promise env} s t"
  from this(2) show "requests_ok t"
  proof cases
    case (advance env i c u p draws q t')
    then show ?thesis using advance_step_ok ok by blast
  next
    case (start i u c msg)
    then show ?thesis using start_ok ok by simp
  next
    case (abort i)
    then show ?thesis using ok by (intro requests_ok_upd [OF ok]) (auto simp: requests_ok_def leaves_alone_def split: if_splits)
  next
    case (evict u)
    then show ?thesis using ok by (intro requests_ok_upd [OF ok]) (auto simp: requests_ok_def leaves_alone_def)
  next
    case (pass d)
    then show ?thesis using ok
      by (intro requests_ok_upd [OF ok]) (auto simp: requests_ok_def leaves_alone_def table_ok_def recently_given_def owns_def)
  qed (use ok hide_ok forget_ok in auto)
qed

text \<open>C13. Requests of the bot and of the site, step by step interleaved with one another, with resets,
  hiding, evictions from the cache, exceptions and the passing of time, as long as no two requests of
  the same user run at the same time: no user is given the same beatmap with the same mods twice within
  four weeks, except after a reset; and the cached samplers hold nothing that was given to their users
  in the last four weeks. Of the recommender it is assumed that it returns nothing that it is told to
  exclude, and no beatmap with the same mods twice in one answer; of the loader, that it loads the
  beatmap with the identifier it is asked for. The bot runs one request of a user at a time (C33); the
  site does not keep a user from running two, or one beside the bot's, and then a recommendation can be
  repeated (\<open>overlap_repeats\<close>).\<close>

theorem nothing_given_twice:
  assumes "(request_step False {env. keeps_promise env})\<^sup>*\<^sup>* (no_recommendations t0) s"
  shows "(\<forall>i j. i < j \<and> j < length (table s)
      \<and> g_userid (table s ! i) = g_userid (table s ! j) \<and> g_beatmapid (table s ! i) = g_beatmapid (table s ! j)
      \<and> g_mods (table s ! i) = g_mods (table s ! j) \<and> \<not> forgotten (table s ! i) \<and> \<not> forgotten (table s ! j)
      \<longrightarrow> g_date (table s ! i) + FOUR_WEEKS \<le> g_date (table s ! j))
    \<and> (\<forall>u r. r \<in># sampler_stock s u \<longrightarrow> \<not> recently_given s u (pair r))"
proof -
  have ok: "requests_ok s" using recommendations.reachable_good [OF _ assms] by blast
  then have "\<not> recently_given s u (pair r)" if "r \<in># sampler_stock s u" for u r
    using that by (auto simp: requests_ok_def cache_ok_def sampler_stock_def fresh_for_def split: option.splits)
  moreover have "no_repeat (table s)" using ok by (simp add: requests_ok_def table_ok_def)
  ultimately show ?thesis by (simp add: no_repeat_def sorted_wrt_iff_nth_less)
qed

section \<open>Examples\<close>

text \<open>A recommender that knows the beatmaps 5, 7 and 8; the user's top play is 5.\<close>

definition example_bare :: "int \<Rightarrow> bare" where
  "example_bare i = \<lparr>beatmapId = i, bare_mods = 0, causes = [], personalPP = None, probability = 1\<rparr>"

definition example_rec :: "(int, unit) rec_env" where
  "example_rec =
     \<lparr>parser_for = (\<lambda>u. example_env),
      loadTopPlays = (\<lambda>u. Inr [\<lparr>tp_userid = u, tp_place = 1, tp_beatmapid = 5, tp_mods = 0, tp_pp = 100\<rparr>]),
      effectiveMods = (\<lambda>m. m),
      loadRecommendations = (\<lambda>plays exclude md nm mods. Inr (filter (\<lambda>b. beatmapId b \<notin> exclude)
        [example_bare 5, example_bare 7, example_bare 8])),
      mods_enum = mods_of_env example_env,
      getBeatmap = (\<lambda>i. Inr (Some ())), getValue = (\<lambda>x m p. Finite 9),
      loadBeatmap = (\<lambda>i m. Inr (Some \<lparr>meta_beatmapid = i, meta_mods = 0, meta_personalPP = None,
        meta_maxCombo = 100\<rparr>)),
      tryWithMods = (\<lambda>m. []), infoMessage = (\<lambda>m a. ''map''), optionalComment = (\<lambda>r. None)\<rparr>"

lemma example_rec_promise: "keeps_promise example_rec"
  by (auto simp: keeps_promise_def example_rec_def example_bare_def pair_def)

lemma example_rec_simps [simp]:
  "parser_for example_rec u = example_env"
  "loadTopPlays example_rec u = Inr [\<lparr>tp_userid = u, tp_place = 1, tp_beatmapid = 5, tp_mods = 0, tp_pp = 100\<rparr>]"
  "loadRecommendations example_rec plays exclude md nm mods =
     Inr (filter (\<lambda>b. beatmapId b \<notin> exclude) [example_bare 5, example_bare 7, example_bare 8])"
  "loadBeatmap example_rec i m =
     Inr (Some \<lparr>meta_beatmapid = i, meta_mods = 0, meta_personalPP = None, meta_maxCombo = 100\<rparr>)"
  by (simp_all add: example_rec_def)

lemma example_bare_simps [simp]:
  "beatmapId (example_bare i) = i" "bare_mods (example_bare i) = 0" "probability (example_bare i) = 1"
  by (simp_all add: example_bare_def)

definition example_sampler :: "(bare, int request) sampler" where
  "example_sampler = \<lparr>distribution = [(1, example_bare 7), (2, example_bare 8)], weight_sum = 2,
     settings = empty_request\<rparr>"

definition example_rest :: "(bare, int request) sampler" where
  "example_rest = \<lparr>distribution = [(1, example_bare 8)], weight_sum = 1, settings = empty_request\<rparr>"

text \<open>The sampler is loaded while nothing was given, and the first beatmap of it is given.\<close>

lemma example_load:
  "alone example_rec [0] Bot 1 2 (Begin (Some [])) (no_recommendations 0)
     = (Some (Put example_sampler), no_recommendations 0)"
proof -
  have t: "getTopRecommendations example_rec [example_bare 7, example_bare 8] [] = Inr [example_bare 7, example_bare 8]"
    and p: "parseSamplerSettings example_env [] = Inr empty_request" by code_simp+
  have "loadSampler example_rec 1 empty_request (view (no_recommendations 0)) = Inr example_sampler"
    using dbl_int [of 1] dbl_int [of 2] t
    by (simp add: loadSampler_def empty_request_def no_recommendations_def loadGivenRecommendations_def
        new_sampler_def put_element_def example_sampler_def)
  then show ?thesis by (simp add: numeral_2_eq_2 p no_recommendations_def)
qed

definition example_row :: "int \<Rightarrow> given_row" where
  "example_row t = \<lparr>g_userid = 1, g_beatmapid = 7, g_date = t, g_mods = 0, forgotten = False, hidden = False\<rparr>"

definition example_given :: "int requests \<Rightarrow> int requests" where
  "example_given s = s\<lparr>cached := (cached s)(1 \<mapsto> length (objects s)), objects := objects s @ [(1, example_rest)],
     last_given := (last_given s)(1 \<mapsto> \<lparr>rec_meta = \<lparr>meta_beatmapid = 7, meta_mods = 0, meta_personalPP = None,
       meta_maxCombo = 100\<rparr>, rec_bare = example_bare 7\<rparr>), table := table s @ [example_row (now s)]\<rparr>"

lemma example_give: "alone example_rec [0] Bot 1 5 (Put example_sampler) s = (None, example_given s)"
proof -
  have s: "sample probability [0] example_sampler = Some (example_bare 7, example_rest)"
    using dbl_int [of 0] dbl_int [of 1] by (simp add: try_sample_def put_element_def example_sampler_def example_rest_def)
  have e: "\<not> isEmpty example_sampler" by (simp add: isEmpty_def example_sampler_def)
  have p: "personalPP (example_bare 7) = None" by (simp add: example_bare_def)
  have five: "(5 :: nat) = Suc (Suc (Suc (Suc (Suc 0))))" by simp
  show ?thesis unfolding five
    by (simp add: s e p load_meta_def Let_def change_table_def saveGivenRecommendation_def example_given_def
        example_row_def nth_append list_update_append del: sample.simps)
qed

definition example_run ::
  "bool \<Rightarrow> int requests \<Rightarrow> (nat \<rightharpoonup> client \<times> int \<times> int phase) \<Rightarrow> int requests \<Rightarrow> (nat \<rightharpoonup> client \<times> int \<times> int phase) \<Rightarrow> bool"
  where "example_run overlap s th t th' \<longleftrightarrow>
    (request_step overlap {env :: (int, unit) rec_env. keeps_promise env})\<^sup>*\<^sup>* (s\<lparr>threads := th\<rparr>) (t\<lparr>threads := th'\<rparr>)"

abbreviation "at_begin \<equiv> (Bot, 1 :: int, Begin (Some []) :: int phase)"

abbreviation "at_put \<equiv> (Bot, 1 :: int, Put example_sampler)"

lemma example_trans: "example_run ov s th t th' \<Longrightarrow> example_run ov t th' r th'' \<Longrightarrow> example_run ov s th r th''"
  unfolding example_run_def by (rule rtranclp_trans)

lemma example_starts:
  assumes "th i = None" and "ov \<or> th = Map.empty"
  shows "example_run ov s th s (th(i \<mapsto> at_begin))"
  using assms request_step.start [of "s\<lparr>threads := th\<rparr>" i ov 1 _ Bot "Some []"]
  unfolding example_run_def by (intro r_into_rtranclp) (auto simp: busy_def)

lemma example_loads:
  assumes "th i = Some at_begin"
  shows "example_run ov (no_recommendations 0) th (no_recommendations 0) (th(i \<mapsto> at_put))"
  unfolding example_run_def
  using alone_steps [where th = th and i = i, OF _ assms example_load] by (simp add: example_rec_promise)

lemma example_gives:
  assumes "th i = Some at_put"
  shows "example_run ov s th (example_given s) (th(i := None))"
  unfolding example_run_def
  using alone_steps [where th = th and i = i, OF _ assms example_give] by (simp add: example_rec_promise)

lemma example_reaches:
  assumes "example_run ov (no_recommendations 0) Map.empty t th"
  shows "(request_step ov {env :: (int, unit) rec_env. keeps_promise env})\<^sup>*\<^sup>* (no_recommendations 0) (t\<lparr>threads := th\<rparr>)"
proof -
  have "(no_recommendations 0 :: int requests)\<lparr>threads := Map.empty\<rparr> = no_recommendations 0"
    by (simp add: no_recommendations_def)
  then show ?thesis using assms by (simp add: example_run_def)
qed

text \<open>One request, and then its beatmap is not in stock.\<close>

lemma one_given:
  "\<exists>s. (request_step False {env :: (int, unit) rec_env. keeps_promise env})\<^sup>*\<^sup>* (no_recommendations 0) s
     \<and> table s = [example_row 0] \<and> sampler_stock s 1 = {#example_bare 8#}"
proof -
  let ?s = "no_recommendations 0 :: int requests"
  have a: "example_run False ?s Map.empty ?s [0 \<mapsto> at_begin]" by (rule example_starts) simp_all
  have b: "example_run False ?s [0 \<mapsto> at_begin] ?s [0 \<mapsto> at_put]"
    using example_loads [of "[0 \<mapsto> at_begin]" 0 False] by simp
  have c: "example_run False ?s [0 \<mapsto> at_put] (example_given ?s) Map.empty"
    using example_gives [of "[0 \<mapsto> at_put]" 0 False ?s] by simp
  have "table ((example_given ?s)\<lparr>threads := Map.empty\<rparr>) = [example_row 0]"
    "sampler_stock ((example_given ?s)\<lparr>threads := Map.empty\<rparr>) 1 = {#example_bare 8#}"
    by (simp_all add: no_recommendations_def example_given_def sampler_stock_def example_rest_def stock_def)
  with example_reaches [OF example_trans [OF a example_trans [OF b c]]] show ?thesis by blast
qed

lemma nothing_given_twice_witness:
  "\<exists>s. (request_step False {env :: (int, unit) rec_env. keeps_promise env})\<^sup>*\<^sup>* (no_recommendations 0) s
     \<and> table s = [example_row 0] \<and> \<not> recently_given s 1 (8, 0)"
proof -
  obtain s where s: "(request_step False {env :: (int, unit) rec_env. keeps_promise env})\<^sup>*\<^sup>* (no_recommendations 0) s"
    "table s = [example_row 0]" "sampler_stock s 1 = {#example_bare 8#}"
    using one_given by blast
  from nothing_given_twice [OF s(1)] s(3) have "\<not> recently_given s 1 (pair (example_bare 8))" by auto
  then have "\<not> recently_given s 1 (8, 0)" by (simp add: pair_def)
  with s(1,2) show ?thesis by blast
qed

text \<open>Two requests of one user that overlap: both load a sampler before either has saved, and both give
  the same beatmap at the same time.\<close>

theorem overlap_repeats:
  "\<exists>s. (request_step True {env :: (int, unit) rec_env. keeps_promise env})\<^sup>*\<^sup>* (no_recommendations 0) s
     \<and> table s = [example_row 0, example_row 0]"
proof -
  let ?s = "no_recommendations 0 :: int requests"
  have a: "example_run True ?s Map.empty ?s [0 \<mapsto> at_begin]"
    "example_run True ?s [0 \<mapsto> at_begin] ?s [0 \<mapsto> at_begin, 1 \<mapsto> at_begin]"
    by (rule example_starts; simp)+
  have b: "example_run True ?s [0 \<mapsto> at_begin, 1 \<mapsto> at_begin] ?s [1 \<mapsto> at_begin, 0 \<mapsto> at_put]"
    using example_loads [of "[1 \<mapsto> at_begin, 0 \<mapsto> at_begin]" 0 True] by (simp add: fun_upd_twist)
  have c: "example_run True ?s [1 \<mapsto> at_begin, 0 \<mapsto> at_put] ?s [0 \<mapsto> at_put, 1 \<mapsto> at_put]"
    using example_loads [of "[0 \<mapsto> at_put, 1 \<mapsto> at_begin]" 1 True] by (simp add: fun_upd_twist)
  have d: "example_run True ?s [0 \<mapsto> at_put, 1 \<mapsto> at_put] (example_given ?s) [0 \<mapsto> at_put]"
    using example_gives [of "[0 \<mapsto> at_put, 1 \<mapsto> at_put]" 1 True ?s] by (simp add: fun_upd_idem)
  have e: "example_run True (example_given ?s) [0 \<mapsto> at_put] (example_given (example_given ?s)) Map.empty"
    using example_gives [of "[0 \<mapsto> at_put]" 0 True "example_given ?s"] by simp
  have "table ((example_given (example_given ?s))\<lparr>threads := Map.empty\<rparr>) = [example_row 0, example_row 0]"
    by (simp add: no_recommendations_def example_given_def)
  with example_reaches [OF example_trans [OF a(1) example_trans [OF a(2) example_trans [OF b
      example_trans [OF c example_trans [OF d e]]]]]] show ?thesis by blast
qed

end
