(* ===== verification/Bouncer.thy ===== *)
theory Bouncer
  imports Chat_Response Java_Double
begin

text \<open>
  The bouncer (\<open>tillerinobot/chat/impl/Bouncer\<close>): per nick an atomic reference to the request that is
  being worked on. \<open>updateAndGet\<close> applies its function atomically, so each operation is one step.
\<close>

record payload =
  payload_event :: int
  enteredTime :: int
  attemptsSinceEntered :: int
  warningSent :: bool

type_synonym bouncer = "string \<rightharpoonup> payload"

definition tryEnter :: "int \<Rightarrow> string \<Rightarrow> int \<Rightarrow> bouncer \<Rightarrow> bool \<times> bouncer" where
  "tryEnter now nick i b =
     (case b nick of
        Some p \<Rightarrow> (False, b(nick \<mapsto> p\<lparr>attemptsSinceEntered := int32 (attemptsSinceEntered p + 1)\<rparr>))
      | None \<Rightarrow> (True, b(nick \<mapsto> \<lparr>payload_event = i, enteredTime = now, attemptsSinceEntered = 0,
            warningSent = False\<rparr>)))"

definition updateIfPresent :: "string \<Rightarrow> int \<Rightarrow> (payload \<Rightarrow> payload option) \<Rightarrow> bouncer \<Rightarrow> bool \<times> bouncer" where
  "updateIfPresent nick i f b =
     (case b nick of
        None \<Rightarrow> (False, b)
      | Some p \<Rightarrow> if payload_event p \<noteq> i then (False, b) else (True, b(nick := f p)))"

definition exit_bouncer :: "string \<Rightarrow> int \<Rightarrow> bouncer \<Rightarrow> bool \<times> bouncer" where
  "exit_bouncer nick i = updateIfPresent nick i (\<lambda>p. None)"

text \<open>The cache forgets a nick that nobody asked for during an hour.\<close>

definition expire :: "string \<Rightarrow> bouncer \<Rightarrow> bouncer" where
  "expire nick b = b(nick := None)"

section \<open>Events\<close>

datatype event_kind = PrivateMessage string | PrivateAction string | Joined | Sighted

record event =
  event_id :: int
  event_nick :: string
  event_kind :: event_kind

fun isInteractive_kind :: "event_kind \<Rightarrow> bool" where
  "isInteractive_kind (PrivateMessage m) \<longleftrightarrow> True"
| "isInteractive_kind (PrivateAction m) \<longleftrightarrow> True"
| "isInteractive_kind Joined \<longleftrightarrow> False"
| "isInteractive_kind Sighted \<longleftrightarrow> False"

definition isInteractive :: "event \<Rightarrow> bool" where
  "isInteractive e \<longleftrightarrow> isInteractive_kind (event_kind e)"

section \<open>\<open>MessagePreprocessor.handleSemaphoreInUse\<close>\<close>

text \<open>\<open>feedback\<close> is what the bouncer said before; the bouncer may have changed since.\<close>

definition setWarningSent :: "event \<Rightarrow> payload \<Rightarrow> bouncer \<Rightarrow> bool \<times> bouncer" where
  "setWarningSent e feedback =
     updateIfPresent (event_nick e) (payload_event feedback) (\<lambda>p. Some (p\<lparr>warningSent := True\<rparr>))"

definition handleSemaphoreInUse :: "int \<Rightarrow> event \<Rightarrow> payload option \<Rightarrow> bouncer \<Rightarrow> response \<times> bouncer" where
  "handleSemaphoreInUse now e feedback b =
     (case feedback of
        None \<Rightarrow> (NoResponse, b)
      | Some p \<Rightarrow>
          let processing = dbl (of_int (now - enteredTime p) / 1000);
              (w, b') = (if processing > 5 \<and> \<not> warningSent p then setWarningSent e p b else (False, b))
          in if w then (Message ''Just a second...'', b')
             else
               let (w', b'') = (if attemptsSinceEntered p \<ge> 3 \<and> \<not> warningSent p
                                then setWarningSent e p b' else (False, b'))
               in if w' then (Message ''[http://i.imgur.com/Ykfua8r.png ...]'', b'') else (NoResponse, b''))"

section \<open>\<open>ResponsePostprocessor.onResponse\<close>\<close>

text \<open>What the writer answers to a call; the last is an \<open>IOException\<close>.\<close>

datatype outcome = Sent | Retry | PingDeath | Timeout | Unknown | IOFailure

text \<open>The loop of at most ten calls for one message: whether it was sent, whether an exception ended it,
  and the number of calls so far.\<close>

fun send_loop :: "(nat \<Rightarrow> outcome) \<Rightarrow> nat \<Rightarrow> nat \<Rightarrow> bool \<times> bool \<times> nat" where
  "send_loop writer n 0 = (False, False, n)"
| "send_loop writer n (Suc i) =
     (case writer n of
        Sent \<Rightarrow> (True, False, n + 1)
      | Retry \<Rightarrow> send_loop writer (n + 1) i
      | PingDeath \<Rightarrow> send_loop writer (n + 1) i
      | Timeout \<Rightarrow> (False, False, n + 1)
      | Unknown \<Rightarrow> (False, False, n + 1)
      | IOFailure \<Rightarrow> (False, True, n + 1))"

datatype post_end = Finished | IOCaught | NotImplemented

fun post_loop :: "(nat \<Rightarrow> outcome) \<Rightarrow> nat \<Rightarrow> response list \<Rightarrow> response list \<times> post_end \<times> nat" where
  "post_loop writer n [] = ([], Finished, n)"
| "post_loop writer n (r # rs) =
     (if \<not> single r then ([], NotImplemented, n)
      else
        let (ok, io, n') = send_loop writer n 10
        in if io then ([], IOCaught, n')
           else let (sent, e, n'') = post_loop writer n' rs in (if ok then r # sent else sent, e, n''))"

text \<open>What is sent, and the bouncer afterwards. An exception other than \<open>IOException\<close> leaves the method
  before the bouncer is told.\<close>

definition onResponse :: "(nat \<Rightarrow> outcome) \<Rightarrow> response \<Rightarrow> event \<Rightarrow> bouncer \<Rightarrow> response list \<times> bouncer" where
  "onResponse writer r e b =
     (let (sent, res, n) = post_loop writer 0 (flatten r)
      in (sent, if res = NotImplemented then b
                else if isInteractive e then snd (exit_bouncer (event_nick e) (event_id e) b) else b))"

section \<open>A lock per user\<close>

text \<open>An interface: each name is held by nobody or by one request; a request enters where nobody is, and
  only the request that holds a name leaves it. Some locks forget names.\<close>

locale user_lock =
  fixes held :: "'b \<Rightarrow> 'n \<Rightarrow> 'i option"
    and enter :: "'n \<Rightarrow> 'i \<Rightarrow> 'b \<Rightarrow> bool \<times> 'b"
    and exit :: "'n \<Rightarrow> 'i \<Rightarrow> 'b \<Rightarrow> bool \<times> 'b"
  assumes enter_iff: "fst (enter n i b) \<longleftrightarrow> held b n = None"
    and enter_held: "held (snd (enter n i b)) = (if held b n = None then (held b)(n \<mapsto> i) else held b)"
    and exit_iff: "fst (exit n i b) \<longleftrightarrow> held b n = Some i"
    and exit_held: "held (snd (exit n i b)) = (if held b n = Some i then (held b)(n := None) else held b)"
begin

lemma enter_twice: "fst (enter n i b) \<Longrightarrow> \<not> fst (enter n j (snd (enter n i b)))"
  by (simp add: enter_iff enter_held)

lemma exit_after_enter: "fst (enter n i b) \<Longrightarrow> held (snd (exit n i (snd (enter n i b)))) = held b"
  by (auto simp: enter_iff enter_held exit_held)

lemma exit_stale: "held b n \<noteq> Some i \<Longrightarrow> \<not> fst (exit n i b) \<and> held (snd (exit n i b)) = held b"
  by (simp add: exit_iff exit_held)

lemma exit_lets_in: "held b n = Some i \<Longrightarrow> fst (enter n j (snd (exit n i b)))"
  by (simp add: enter_iff exit_held)

lemma refused_held: "\<not> fst (enter n i b) \<Longrightarrow> \<exists>j. held b n = Some j"
  by (simp add: enter_iff)

end

locale expiring_lock = user_lock held enter exit
  for held :: "'b \<Rightarrow> 'n \<Rightarrow> 'i option"
    and enter :: "'n \<Rightarrow> 'i \<Rightarrow> 'b \<Rightarrow> bool \<times> 'b"
    and exit :: "'n \<Rightarrow> 'i \<Rightarrow> 'b \<Rightarrow> bool \<times> 'b" +
  fixes forget :: "'n \<Rightarrow> 'b \<Rightarrow> 'b"
  assumes forget_held: "held (forget n b) = (held b)(n := None)"
begin

lemma forgotten: "fst (enter n i (forget n b)) \<and> \<not> fst (exit n j (forget n b))"
  by (simp add: enter_iff exit_iff forget_held)

end

definition holder :: "bouncer \<Rightarrow> string \<Rightarrow> int option" where
  "holder b n = map_option payload_event (b n)"

interpretation door: expiring_lock holder "tryEnter now" exit_bouncer expire for now
  by unfold_locales
    (auto simp: holder_def tryEnter_def exit_bouncer_def updateIfPresent_def expire_def fun_eq_iff split: option.split)

section \<open>Who holds a user while events are answered\<close>

lemma setWarningSent_holder: "setWarningSent e p b = (w, b') \<Longrightarrow> holder b' = holder b"
proof -
  have "holder (snd (setWarningSent e p b)) = holder b"
    by (auto simp: holder_def setWarningSent_def updateIfPresent_def fun_eq_iff split: option.split)
  then show "setWarningSent e p b = (w, b') \<Longrightarrow> holder b' = holder b" by simp
qed

lemma handleSemaphoreInUse_holder: "holder (snd (handleSemaphoreInUse now e fb b)) = holder b"
  by (auto simp: handleSemaphoreInUse_def Let_def split: option.split prod.split
      dest!: setWarningSent_holder)

lemma handleSemaphoreInUse_flat: "flat (fst (handleSemaphoreInUse now e fb b))"
  by (auto simp: handleSemaphoreInUse_def Let_def split: option.split prod.split)

section \<open>Sending\<close>

lemma send_loop_calls: "send_loop writer n i = (ok, io, n') \<Longrightarrow> n \<le> n' \<and> n' \<le> n + i"
  by (induction writer n i rule: send_loop.induct) (force split: outcome.splits)+

lemma post_loop_Cons:
  assumes "single r" and "send_loop writer n 10 = (ok, io, k)"
  shows "post_loop writer n (r # rs) =
    (if io then ([], IOCaught, k)
     else ((if ok then [r] else []) @ fst (post_loop writer k rs), snd (post_loop writer k rs)))"
  using assms by (simp split: prod.split)

declare post_loop.simps(2) [simp del]

lemma post_loop_calls:
  "list_all single rs \<Longrightarrow> snd (snd (post_loop writer n rs)) \<le> n + 10 * length rs"
proof (induction rs arbitrary: n)
  case (Cons r rs)
  obtain ok io k where s: "send_loop writer n 10 = (ok, io, k)" by (metis prod_cases3)
  have "k \<le> n + 10" using send_loop_calls [OF s] by simp
  moreover have "snd (snd (post_loop writer k rs)) \<le> k + 10 * length rs" using Cons by simp
  ultimately show ?case using Cons.prems by (simp add: post_loop_Cons [OF _ s])
qed simp

lemma post_loop_single: "list_all single rs \<Longrightarrow> fst (snd (post_loop writer n rs)) \<noteq> NotImplemented"
proof (induction rs arbitrary: n)
  case (Cons r rs)
  obtain ok io k where s: "send_loop writer n 10 = (ok, io, k)" by (metis prod_cases3)
  show ?case using Cons by (simp add: post_loop_Cons [OF _ s])
qed simp

lemma nths_keep: "\<exists>keep'. (if ok then [r] else []) @ nths rs keep = nths (r # rs) keep'"
proof -
  have "nths (r # rs) ((if ok then {0} else {}) \<union> Suc ` keep) = (if ok then [r] else []) @ nths rs keep"
    by (simp add: nths_Cons image_iff)
  then show ?thesis by metis
qed

lemma post_loop_subseq: "list_all single rs \<Longrightarrow> \<exists>keep. fst (post_loop writer n rs) = nths rs keep"
proof (induction rs arbitrary: n)
  case (Cons r rs)
  obtain ok io k where s: "send_loop writer n 10 = (ok, io, k)" by (metis prod_cases3)
  obtain keep where k: "fst (post_loop writer k rs) = nths rs keep" using Cons by auto
  show ?case
  proof (cases io)
    case True
    then show ?thesis using Cons.prems by (intro exI [of _ "{}"]) (simp add: post_loop_Cons [OF _ s])
  next
    case False
    then show ?thesis using Cons.prems nths_keep [of ok r rs keep] k by (simp add: post_loop_Cons [OF _ s])
  qed
qed simp

lemma post_loop_all:
  "\<forall>n. writer n = Sent \<Longrightarrow> list_all single rs \<Longrightarrow> fst (post_loop writer n rs) = rs"
proof (induction rs arbitrary: n)
  case (Cons r rs)
  have s: "send_loop writer n 10 = (True, False, n + 1)"
    using send_loop.simps(2) [of writer n 9] Cons.prems(1) by simp
  have "single r" and l: "list_all single rs" using Cons.prems(2) by simp_all
  moreover have "fst (post_loop writer (n + 1) rs) = rs" by (rule Cons.IH [OF Cons.prems(1) l])
  ultimately show ?case by (simp only: post_loop_Cons [OF _ s]) simp
qed simp

lemma onResponse_flat:
  assumes "flat r"
  shows "onResponse writer r e b = (fst (post_loop writer 0 (flatten r)),
    if isInteractive e then snd (exit_bouncer (event_nick e) (event_id e) b) else b)"
  using post_loop_single [OF flat_flatten [OF assms], of writer 0]
  by (cases "post_loop writer 0 (flatten r)") (simp add: onResponse_def)

lemma onResponse_holder:
  "flat r \<Longrightarrow> holder (snd (onResponse writer r e b)) =
     (if isInteractive e \<and> holder b (event_nick e) = Some (event_id e)
      then (holder b)(event_nick e := None) else holder b)"
  by (simp add: onResponse_flat door.exit_held)

text \<open>C32. Sending a flat response releases the bouncer for its event whatever the writer answers, calls the
  writer at most ten times per message, keeps the order of the messages, and sends all of them if the
  writer takes them. The payload of another event is never released.\<close>

theorem response_releases:
  assumes "flat r"
  shows "(isInteractive e \<longrightarrow> snd (onResponse writer r e b) = snd (exit_bouncer (event_nick e) (event_id e) b)
      \<and> (\<forall>p. snd (onResponse writer r e b) (event_nick e) = Some p \<longrightarrow> payload_event p \<noteq> event_id e))
    \<and> (\<forall>p. b (event_nick e) = Some p \<longrightarrow> payload_event p \<noteq> event_id e \<longrightarrow> snd (onResponse writer r e b) = b)
    \<and> snd (snd (post_loop writer 0 (flatten r))) \<le> 10 * length (flatten r)
    \<and> (\<exists>keep. fst (onResponse writer r e b) = nths (flatten r) keep)
    \<and> ((\<forall>n. writer n = Sent) \<longrightarrow> fst (onResponse writer r e b) = flatten r)"
proof -
  have ok: "list_all single (flatten r)" using assms by (rule flat_flatten)
  have "b (event_nick e) = Some p \<Longrightarrow> payload_event p \<noteq> event_id e \<Longrightarrow>
      snd (exit_bouncer (event_nick e) (event_id e) b) = b" for p
    by (simp add: exit_bouncer_def updateIfPresent_def)
  moreover have "snd (exit_bouncer (event_nick e) (event_id e) b) (event_nick e) = Some p \<Longrightarrow>
      payload_event p \<noteq> event_id e" for p
    by (auto simp: exit_bouncer_def updateIfPresent_def split: option.splits if_splits)
  ultimately show ?thesis
    using post_loop_calls [OF ok, of writer 0] post_loop_subseq [OF ok, of writer 0]
      post_loop_all [of writer "flatten r" 0] ok
    by (simp add: onResponse_flat [OF assms])
qed

definition message_event :: event where
  "message_event = \<lparr>event_id = 5, event_nick = ''tom'', event_kind = PrivateMessage ''!r''\<rparr>"

lemma response_releases_witness:
  "\<exists>b. snd (onResponse (\<lambda>n. Retry) (ResponseList [Message ''a'', Success ''b'']) message_event b) ''tom'' = None
     \<and> b ''tom'' \<noteq> None"
proof -
  define b where "b = snd (tryEnter 100 ''tom'' 5 Map.empty)"
  have "snd (onResponse (\<lambda>n. Retry) (ResponseList [Message ''a'', Success ''b'']) message_event b) =
      snd (exit_bouncer ''tom'' 5 b)"
    using response_releases [of "ResponseList [Message ''a'', Success ''b'']" message_event "\<lambda>n. Retry" b]
    by (simp add: message_event_def isInteractive_def)
  then show ?thesis
    by (intro exI [of _ b]) (simp add: b_def tryEnter_def exit_bouncer_def updateIfPresent_def)
qed

end
