(* ===== verification/Chat_Pipeline.thy ===== *)
theory Chat_Pipeline
  imports Bouncer
begin

text \<open>
  The way of an event through the bot: \<open>MessagePreprocessor.onEvent\<close> asks the bouncer and queues the
  event or answers it at once, a core thread takes it from the queue and handles it (\<open>IRCBot.onEvent\<close>),
  and \<open>ResponsePostprocessor.onResponse\<close> sends the answer and tells the bouncer. Events of all users are
  interleaved. The queues may deliver in any order (they are priority queues of a message broker).

  The handlers are not modelled: they answer with any flat response, or with none (\<open>null\<close>), or are
  interrupted. Identifiers of events are never used twice (the IRC process counts them).
\<close>

section \<open>State\<close>

text \<open>Where an event is: refused by the bouncer (then with what the bouncer said), in the queue, being
  handled, or in the queue of responses.\<close>

datatype stage =
    Refused | Feedback "payload option" | Queued | Handling | Responding response

record chat =
  chat_bouncer :: bouncer
  pipeline :: "int \<rightharpoonup> event \<times> stage"
  seen :: "int list"
  chat_output :: "(string \<times> response) list"

definition new_chat :: chat where
  "new_chat = \<lparr>chat_bouncer = Map.empty, pipeline = Map.empty, seen = [], chat_output = []\<rparr>"

definition move :: "event \<Rightarrow> stage \<Rightarrow> chat \<Rightarrow> chat" where
  "move e st s = s\<lparr>pipeline := (pipeline s)(event_id e \<mapsto> (e, st))\<rparr>"

definition leave :: "event \<Rightarrow> chat \<Rightarrow> chat" where
  "leave e s = s\<lparr>pipeline := (pipeline s)(event_id e := None)\<rparr>"

section \<open>Steps\<close>

text \<open>\<open>MessagePreprocessor.onEvent\<close>\<close>

definition preprocess :: "int \<Rightarrow> event \<Rightarrow> chat \<Rightarrow> chat" where
  "preprocess now e s =
     (let s = s\<lparr>seen := event_id e # seen s\<rparr>
      in if isInteractive e
         then
           let (ok, b) = tryEnter now (event_nick e) (event_id e) (chat_bouncer s);
               s = s\<lparr>chat_bouncer := b\<rparr>
           in if ok then move e Queued s else move e Refused s
         else move e Queued s)"

definition read_feedback :: "event \<Rightarrow> chat \<Rightarrow> chat" where
  "read_feedback e s = move e (Feedback (chat_bouncer s (event_nick e))) s"

definition refuse :: "int \<Rightarrow> event \<Rightarrow> payload option \<Rightarrow> chat \<Rightarrow> chat" where
  "refuse now e fb s =
     (let (r, b) = handleSemaphoreInUse now e fb (chat_bouncer s)
      in move e (Responding r) (s\<lparr>chat_bouncer := b\<rparr>))"

text \<open>\<open>IRCBot.onEvent\<close>: \<open>sendResponse\<close> drops a missing response.\<close>

definition respond :: "event \<Rightarrow> response option \<Rightarrow> chat \<Rightarrow> chat" where
  "respond e r s = (case r of None \<Rightarrow> leave e s | Some r \<Rightarrow> move e (Responding r) s)"

definition postprocess :: "(nat \<Rightarrow> outcome) \<Rightarrow> response \<Rightarrow> event \<Rightarrow> chat \<Rightarrow> chat" where
  "postprocess writer r e s =
     (let (sent, b) = onResponse writer r e (chat_bouncer s)
      in leave e (s\<lparr>chat_bouncer := b, chat_output := chat_output s @ map (Pair (event_nick e)) sent\<rparr>))"

datatype chat_label = Step | Lost string | Expired string

inductive chat_step :: "chat \<Rightarrow> chat_label \<Rightarrow> chat \<Rightarrow> bool" where
  receive: "event_id e \<notin> set (seen s) \<Longrightarrow> chat_step s Step (preprocess now e s)"
| feedback: "pipeline s i = Some (e, Refused) \<Longrightarrow> chat_step s Step (read_feedback e s)"
| refused: "pipeline s i = Some (e, Feedback fb) \<Longrightarrow> chat_step s Step (refuse now e fb s)"
| taken: "pipeline s i = Some (e, Queued) \<Longrightarrow> chat_step s Step (move e Handling s)"
| handled: "pipeline s i = Some (e, Handling) \<Longrightarrow> flat r \<Longrightarrow> chat_step s Step (respond e (Some r) s)"
| dropped: "pipeline s i = Some (e, Handling) \<Longrightarrow> chat_step s (Lost (event_nick e)) (respond e None s)"
| posted: "pipeline s i = Some (e, Responding r) \<Longrightarrow> chat_step s Step (postprocess writer r e s)"
| interrupted: "pipeline s i = Some (e, st) \<Longrightarrow> chat_step s (Lost (event_nick e)) (leave e s)"
| expired: "chat_step s (Expired n) (s\<lparr>chat_bouncer := expire n (chat_bouncer s)\<rparr>)"

inductive chat_run :: "chat_label list \<Rightarrow> chat \<Rightarrow> bool" where
  start: "chat_run [] new_chat"
| step: "chat_run ls s \<Longrightarrow> chat_step s l t \<Longrightarrow> chat_run (ls @ [l]) t"

section \<open>Invariant\<close>

text \<open>The bouncer let the event in and nobody has answered it.\<close>

fun stage_in_work :: "stage \<Rightarrow> bool" where
  "stage_in_work Queued \<longleftrightarrow> True"
| "stage_in_work Handling \<longleftrightarrow> True"
| "stage_in_work st \<longleftrightarrow> False"

fun stage_entered :: "stage \<Rightarrow> bool" where
  "stage_entered Queued \<longleftrightarrow> True"
| "stage_entered Handling \<longleftrightarrow> True"
| "stage_entered (Responding r) \<longleftrightarrow> True"
| "stage_entered st \<longleftrightarrow> False"

definition in_work :: "chat \<Rightarrow> string \<Rightarrow> event \<Rightarrow> bool" where
  "in_work s n e \<longleftrightarrow> isInteractive e \<and> event_nick e = n \<and>
     (\<exists>st. pipeline s (event_id e) = Some (e, st) \<and> stage_in_work st)"

definition holds :: "chat \<Rightarrow> string \<Rightarrow> int \<Rightarrow> bool" where
  "holds s n i \<longleftrightarrow> holder (chat_bouncer s) n = Some i"

definition chat_wf :: "chat \<Rightarrow> bool" where
  "chat_wf s \<longleftrightarrow>
     (\<forall>i e st. pipeline s i = Some (e, st) \<longrightarrow> event_id e = i \<and> i \<in> set (seen s)
        \<and> (\<forall>r. st = Responding r \<longrightarrow> flat r)) \<and>
     (\<forall>n i. holds s n i \<longrightarrow> i \<in> set (seen s))"

definition exclusive :: "chat \<Rightarrow> string \<Rightarrow> bool" where
  "exclusive s n \<longleftrightarrow> (\<forall>e. in_work s n e \<longrightarrow> holds s n (event_id e))"

definition served :: "chat \<Rightarrow> string \<Rightarrow> bool" where
  "served s n \<longleftrightarrow> (\<forall>i. holds s n i \<longrightarrow>
     (\<exists>e st. pipeline s i = Some (e, st) \<and> stage_entered st \<and> isInteractive e \<and> event_nick e = n))"

lemmas chat_defs = preprocess_def read_feedback_def refuse_def respond_def postprocess_def move_def leave_def

text \<open>What a step does to the bouncer and to the pipeline.\<close>

lemma receive_effect:
  assumes "event_id e \<notin> set (seen s)" and "t = preprocess now e s"
  obtains (ignored) "holder (chat_bouncer t) = holder (chat_bouncer s)" "\<not> isInteractive e"
      "pipeline t = (pipeline s)(event_id e \<mapsto> (e, Queued))" "seen t = event_id e # seen s"
  | (refused) "holder (chat_bouncer t) = holder (chat_bouncer s)"
      "pipeline t = (pipeline s)(event_id e \<mapsto> (e, Refused))" "seen t = event_id e # seen s"
  | (entered) "holder (chat_bouncer s) (event_nick e) = None" "isInteractive e"
      "holder (chat_bouncer t) = (holder (chat_bouncer s))(event_nick e \<mapsto> event_id e)"
      "pipeline t = (pipeline s)(event_id e \<mapsto> (e, Queued))" "seen t = event_id e # seen s"
  using door.enter_iff [of now "event_nick e" "event_id e" "chat_bouncer s"]
    door.enter_held [of now "event_nick e" "event_id e" "chat_bouncer s"] assms
  by (auto simp: chat_defs Let_def split: prod.splits if_splits)

lemma refuse_effect:
  "holder (chat_bouncer (refuse now e fb s)) = holder (chat_bouncer s) \<and> seen (refuse now e fb s) = seen s
   \<and> (\<exists>r. flat r \<and> pipeline (refuse now e fb s) = (pipeline s)(event_id e \<mapsto> (e, Responding r)))"
  using handleSemaphoreInUse_holder [of now e fb "chat_bouncer s"]
    handleSemaphoreInUse_flat [of now e fb "chat_bouncer s"]
  by (auto simp: chat_defs split: prod.splits)

lemma postprocess_effect:
  assumes "flat r"
  shows "holder (chat_bouncer (postprocess writer r e s)) =
      (if isInteractive e \<and> holder (chat_bouncer s) (event_nick e) = Some (event_id e)
       then (holder (chat_bouncer s))(event_nick e := None) else holder (chat_bouncer s))
    \<and> pipeline (postprocess writer r e s) = (pipeline s)(event_id e := None)
    \<and> seen (postprocess writer r e s) = seen s"
  using onResponse_holder [OF assms, of writer e "chat_bouncer s"]
  by (cases "onResponse writer r e (chat_bouncer s)") (simp add: postprocess_def leave_def)

lemma fresh: "chat_wf s \<Longrightarrow> i \<notin> set (seen s) \<Longrightarrow> pipeline s i = None \<and> \<not> holds s n i"
  by (cases "pipeline s i") (auto simp: chat_wf_def)

lemma chat_wf_step: "chat_step s l t \<Longrightarrow> chat_wf s \<Longrightarrow> chat_wf t"
proof (induction rule: chat_step.induct)
  case (receive e s now)
  show ?case
    by (rule receive_effect [OF receive(1) refl, of now])
      (use receive in \<open>auto simp: chat_wf_def holds_def split: if_splits\<close>)
next
  case (refused s i e fb now)
  then show ?case using refuse_effect [of now e fb s] by (auto simp: chat_wf_def holds_def split: if_splits)
next
  case (posted s i e r writer)
  then have "flat r" by (auto simp: chat_wf_def)
  with posted show ?case
    using postprocess_effect [of r writer e s] by (auto simp: chat_wf_def holds_def split: if_splits)
qed (auto simp: chat_wf_def holds_def chat_defs door.forget_held split: if_splits)

lemma in_work_move:
  "pipeline t = (pipeline s)(event_id e \<mapsto> (e, st)) \<Longrightarrow> in_work t n e' \<longleftrightarrow>
     (if event_id e' = event_id e then e' = e \<and> isInteractive e \<and> event_nick e = n \<and> stage_in_work st
      else in_work s n e')"
  by (auto simp: in_work_def)

lemma in_work_leave:
  "pipeline t = (pipeline s)(event_id e := None) \<Longrightarrow>
     in_work t n e' \<longleftrightarrow> event_id e' \<noteq> event_id e \<and> in_work s n e'"
  by (auto simp: in_work_def)

lemma exclusive_same:
  assumes "exclusive s n" and "holder (chat_bouncer t) = holder (chat_bouncer s)"
    and "\<And>e. in_work t n e \<Longrightarrow> in_work s n e"
  shows "exclusive t n"
  using assms by (simp add: exclusive_def holds_def)

lemma exclusive_step:
  "chat_step s l t \<Longrightarrow> chat_wf s \<Longrightarrow> exclusive s n \<Longrightarrow> l \<noteq> Expired n \<Longrightarrow> exclusive t n"
proof (induction rule: chat_step.induct)
  case (receive e s now)
  let ?t = "preprocess now e s"
  show ?case
  proof (rule receive_effect [OF receive(1) refl, of now])
    assume "holder (chat_bouncer ?t) = holder (chat_bouncer s)" "\<not> isInteractive e"
      "pipeline ?t = (pipeline s)(event_id e \<mapsto> (e, Queued))"
    then show ?thesis
      by (intro exclusive_same [OF receive(3)]) (auto simp: in_work_move split: if_splits)
  next
    assume "holder (chat_bouncer ?t) = holder (chat_bouncer s)"
      "pipeline ?t = (pipeline s)(event_id e \<mapsto> (e, Refused))"
    then show ?thesis
      by (intro exclusive_same [OF receive(3)]) (auto simp: in_work_move split: if_splits)
  next
    assume h: "holder (chat_bouncer s) (event_nick e) = None"
      "holder (chat_bouncer ?t) = (holder (chat_bouncer s))(event_nick e \<mapsto> event_id e)"
      and p: "pipeline ?t = (pipeline s)(event_id e \<mapsto> (e, Queued))"
    show ?thesis
      unfolding exclusive_def
    proof (intro allI impI)
      fix e' assume "in_work ?t n e'"
      then consider "e' = e" "event_nick e = n" | "in_work s n e'"
        by (auto simp: in_work_move [OF p] split: if_splits)
      then show "holds ?t n (event_id e')"
        using receive(3) h by cases (auto simp: holds_def exclusive_def)
    qed
  qed
next
  case (refused s i e fb now)
  obtain r where "pipeline (refuse now e fb s) = (pipeline s)(event_id e \<mapsto> (e, Responding r))"
    and "holder (chat_bouncer (refuse now e fb s)) = holder (chat_bouncer s)"
    using refuse_effect [of now e fb s] by blast
  then show ?case
    by (intro exclusive_same [OF refused(3)]) (auto simp: in_work_move split: if_splits)
next
  case (posted s i e r writer)
  then have f: "flat r" by (auto simp: chat_wf_def)
  note post = postprocess_effect [OF f, of writer e s]
  show ?case
    unfolding exclusive_def
  proof (intro allI impI)
    fix e' assume "in_work (postprocess writer r e s) n e'"
    then have "in_work s n e'" "event_id e' \<noteq> event_id e"
      using post by (simp_all add: in_work_leave)
    then show "holds (postprocess writer r e s) n (event_id e')"
      using posted(3) post by (auto simp: exclusive_def holds_def)
  qed
next
  case (feedback s i e)
  then show ?case
    by (intro exclusive_same [OF feedback(3)]) (auto simp: in_work_def read_feedback_def move_def split: if_splits)
next
  case (taken s i e)
  then show ?case
    by (intro exclusive_same [OF taken(3)]) (auto simp: in_work_def move_def chat_wf_def split: if_splits)
next
  case (handled s i e r)
  then show ?case
    by (intro exclusive_same [OF handled(4)]) (auto simp: in_work_def respond_def move_def split: if_splits)
next
  case (dropped s i e)
  show ?case
    by (intro exclusive_same [OF dropped(3)]) (auto simp: in_work_def respond_def leave_def split: if_splits)
next
  case (interrupted s i e st)
  show ?case
    by (intro exclusive_same [OF interrupted(3)]) (auto simp: in_work_def leave_def split: if_splits)
next
  case (expired s m)
  then show ?case by (auto simp: exclusive_def in_work_def holds_def door.forget_held)
qed

lemma served_leave:
  assumes "chat_wf s" and "served s n" and "pipeline s i = Some (e, st)" and "event_nick e \<noteq> n"
  shows "served (leave e s) n"
  unfolding served_def
proof (intro allI impI)
  fix j assume "holds (leave e s) n j"
  then have "holds s n j" by (simp add: holds_def leave_def)
  then obtain e' st' where p: "pipeline s j = Some (e', st')" "stage_entered st'" "isInteractive e'" "event_nick e' = n"
    using assms(2) by (auto simp: served_def)
  then have "j \<noteq> event_id e" using assms by (auto simp: chat_wf_def)
  then show "\<exists>e' st. pipeline (leave e s) j = Some (e', st) \<and> stage_entered st \<and> isInteractive e' \<and> event_nick e' = n"
    using p by (auto simp: leave_def)
qed

lemma served_step:
  "chat_step s l t \<Longrightarrow> chat_wf s \<Longrightarrow> served s n \<Longrightarrow> l \<noteq> Lost n \<Longrightarrow> served t n"
proof (induction rule: chat_step.induct)
  case (receive e s now)
  have old: "pipeline s (event_id e) = None" using receive fresh by blast
  have ne: "\<And>m. \<not> holds s m (event_id e)" using receive fresh by blast
  show ?case
    by (rule receive_effect [OF receive(1) refl, of now])
      (use receive old ne in \<open>auto simp: served_def holds_def split: if_splits\<close>)
next
  case (refused s i e fb now)
  then have i: "i = event_id e" by (auto simp: chat_wf_def)
  obtain r where "pipeline (refuse now e fb s) = (pipeline s)(event_id e \<mapsto> (e, Responding r))"
    and "holder (chat_bouncer (refuse now e fb s)) = holder (chat_bouncer s)"
    using refuse_effect [of now e fb s] by blast
  then show ?case using refused i by (auto simp: served_def holds_def)
next
  case (posted s i e r writer)
  then have f: "flat r" and i: "i = event_id e" by (auto simp: chat_wf_def)
  show ?case
    unfolding served_def
  proof (intro allI impI)
    fix j assume h: "holds (postprocess writer r e s) n j"
    then have hs: "holds s n j" using postprocess_effect [OF f, of writer e s]
      by (auto simp: holds_def split: if_splits)
    then obtain e' st where p: "pipeline s j = Some (e', st)" "stage_entered st" "isInteractive e'" "event_nick e' = n"
      using posted(3) by (auto simp: served_def)
    have "j \<noteq> event_id e"
    proof
      assume j: "j = event_id e"
      then have "e' = e" using p(1) posted(1) i by simp
      then show False using h hs p j postprocess_effect [OF f, of writer e s] by (simp add: holds_def)
    qed
    then show "\<exists>e' st. pipeline (postprocess writer r e s) j = Some (e', st) \<and> stage_entered st
        \<and> isInteractive e' \<and> event_nick e' = n"
      using p postprocess_effect [OF f, of writer e s] by auto
  qed
next
  case (dropped s i e)
  then show ?case using served_leave [OF dropped(2,3,1)] by (simp add: respond_def)
next
  case (interrupted s i e st)
  then show ?case using served_leave [OF interrupted(2,3,1)] by simp
qed (auto simp: served_def holds_def chat_wf_def chat_defs door.forget_held split: if_splits)

definition chat_good :: "chat_label list \<times> chat \<Rightarrow> bool" where
  "chat_good = (\<lambda>(ls, s). chat_wf s \<and> (\<forall>n. Expired n \<notin> set ls \<longrightarrow> exclusive s n)
     \<and> (\<forall>n. Lost n \<notin> set ls \<longrightarrow> served s n))"

interpretation chat: invariant_machine "\<lambda>c. c = ([], new_chat)"
  "\<lambda>(ls, s) (ls', t). \<exists>l. ls' = ls @ [l] \<and> chat_step s l t" chat_good
proof
  show "chat_good c" if "c = ([], new_chat)" for c
    using that by (auto simp: chat_good_def chat_wf_def exclusive_def served_def in_work_def holds_def
        new_chat_def holder_def)
  show "chat_good d" if "chat_good c"
    and "(\<lambda>(ls, s) (ls', t). \<exists>l. ls' = ls @ [l] \<and> chat_step s l t) c d" for c d
    using that chat_wf_step exclusive_step served_step by (auto simp: chat_good_def split: prod.splits)
qed

lemma chat_run_good: "chat_run ls s \<Longrightarrow> chat_good (ls, s)"
proof (induction rule: chat_run.induct)
  case start
  show ?case by (rule chat.start_good) simp
next
  case (step ls s l t)
  then show ?case by (intro chat.step_good [OF step(3)]) auto
qed

lemma in_work_one:
  "exclusive s n \<Longrightarrow> in_work s n e \<Longrightarrow> in_work s n e' \<Longrightarrow> e = e'"
proof -
  assume ex: "exclusive s n" and w: "in_work s n e" "in_work s n e'"
  have i: "event_id e = event_id e'" by (metis ex w exclusive_def holds_def option.inject)
  obtain st st' where "pipeline s (event_id e) = Some (e, st)" "pipeline s (event_id e') = Some (e', st')"
    using w unfolding in_work_def by blast
  then show "e = e'" unfolding i by simp
qed

text \<open>C33. However the events of all users interleave, at most one interactive request of a user is queued
  or being handled at any time, and the bouncer holds that user for it, unless the cache forgot the user
  in between.\<close>

theorem one_request_per_user:
  assumes "chat_run ls s" and "Expired n \<notin> set ls"
  shows "(\<forall>e e'. in_work s n e \<longrightarrow> in_work s n e' \<longrightarrow> e = e')
    \<and> (\<forall>e. in_work s n e \<longrightarrow> (\<exists>p. chat_bouncer s n = Some p \<and> payload_event p = event_id e))"
proof -
  have "exclusive s n" using chat_run_good [OF assms(1)] assms(2) by (auto simp: chat_good_def)
  then show ?thesis using in_work_one by (auto simp: exclusive_def holds_def holder_def)
qed

text \<open>C34. Nobody is locked out: while the bouncer refuses a user, an interactive event of that user is on its
  way through the bot, and posting its response lets the user in again; unless an event of the user was
  lost (a handler that was interrupted or answered \<open>null\<close>, or a lost message of a queue).\<close>

theorem no_lockout:
  assumes "chat_run ls s" and "Lost n \<notin> set ls" and "\<not> fst (tryEnter now n i (chat_bouncer s))"
  shows "\<exists>e st. pipeline s (event_id e) = Some (e, st) \<and> stage_entered st \<and> isInteractive e \<and> event_nick e = n
    \<and> (\<forall>r writer. st = Responding r \<longrightarrow>
        fst (tryEnter now n i (chat_bouncer (postprocess writer r e s))))"
proof -
  have g: "chat_wf s" "served s n" using chat_run_good [OF assms(1)] assms(2) by (auto simp: chat_good_def)
  obtain j where j: "holds s n j" using door.refused_held [OF assms(3)] by (auto simp: holds_def)
  then obtain e st where e: "pipeline s j = Some (e, st)" "stage_entered st" "isInteractive e" "event_nick e = n"
    using g(2) by (auto simp: served_def)
  then have j': "j = event_id e" and f: "\<And>r. st = Responding r \<Longrightarrow> flat r" using g(1) by (auto simp: chat_wf_def)
  have "fst (tryEnter now n i (chat_bouncer (postprocess writer r e s)))" if "st = Responding r" for r writer
    using postprocess_effect [OF f [OF that], of writer e s] e j j' by (simp add: door.enter_iff holds_def)
  then show ?thesis using e j' by blast
qed

section \<open>Examples\<close>

definition one_event :: chat where
  "one_event = preprocess 100 message_event new_chat"

lemma one_event_run: "chat_run [Step] one_event"
  using chat_run.step [OF chat_run.start chat_step.receive [of message_event new_chat 100]]
  by (simp add: one_event_def new_chat_def)

lemma one_event_state:
  "pipeline one_event 5 = Some (message_event, Queued)"
  "\<not> fst (tryEnter 200 ''tom'' 6 (chat_bouncer one_event))"
  by (simp_all add: one_event_def preprocess_def message_event_def isInteractive_def tryEnter_def move_def
      new_chat_def)

lemma one_request_per_user_witness:
  "\<exists>p. chat_bouncer one_event ''tom'' = Some p \<and> payload_event p = 5"
proof -
  have "in_work one_event ''tom'' message_event"
    using one_event_state(1) by (simp add: in_work_def message_event_def isInteractive_def)
  then show ?thesis
    using one_request_per_user [OF one_event_run, of "''tom''"] by (auto simp: message_event_def)
qed

lemma no_lockout_witness:
  "\<exists>e st. pipeline one_event (event_id e) = Some (e, st) \<and> event_nick e = ''tom''"
  using no_lockout [OF one_event_run _ one_event_state(2)] by auto

end
