(* ===== verification/Bot.thy ===== *)
theory Bot
  imports Chat_Pipeline Java_Base
begin

text \<open>
  The heart of the bot (\<open>tillerinobot/IRCBot\<close>): how an event is answered, by which handler, and what
  becomes of exceptions. The command handlers, the language of the user, the resolver of names and the
  stores behind them are parameters (\<open>bot_env\<close>) that work on the state of the bot and may throw; the
  versions of the news that users have seen are part of the state.
\<close>

section \<open>Exceptions\<close>

text \<open>\<open>MaintenanceExn\<close> is a \<open>ServiceUnavailable\<close>, which is a \<open>WebApplication\<close> exception of status 503, all
  of them unchecked; \<open>SocketTimeout\<close> is an \<open>IOExn\<close>, \<open>SqlRecoverable\<close> an \<open>SqlExn\<close>.\<close>

datatype throwable =
    Interrupted | Execution "throwable option" | MaintenanceExn | ServiceUnavailable | WebApplication int
  | SqlRecoverable | SqlExn | UserExn string | SocketTimeout | IOExn "string option" | RuntimeExn | ErrorExn

type_synonym ('s, 'a) bot = "'s \<Rightarrow> (throwable + 'a) \<times> 's"

definition bot_return :: "'a \<Rightarrow> ('s, 'a) bot" where
  "bot_return x = (\<lambda>s. (Inr x, s))"

definition bot_throw :: "throwable \<Rightarrow> ('s, 'a) bot" where
  "bot_throw e = (\<lambda>s. (Inl e, s))"

definition bot_bind :: "('s, 'a) bot \<Rightarrow> ('a \<Rightarrow> ('s, 'b) bot) \<Rightarrow> ('s, 'b) bot" where
  "bot_bind m f = (\<lambda>s. case m s of (Inl e, s') \<Rightarrow> (Inl e, s') | (Inr x, s') \<Rightarrow> f x s')"

definition bot_catch :: "('s, 'a) bot \<Rightarrow> (throwable \<Rightarrow> bool) \<Rightarrow> (throwable \<Rightarrow> ('s, 'a) bot) \<Rightarrow> ('s, 'a) bot" where
  "bot_catch m p h = (\<lambda>s. case m s of (Inl e, s') \<Rightarrow> (if p e then h e s' else (Inl e, s')) | (Inr x, s') \<Rightarrow> (Inr x, s'))"

text \<open>\<open>try (resource) { body }\<close>: an exception of \<open>close\<close> is suppressed when the body has thrown.\<close>

definition bot_closing :: "('s, unit) bot \<Rightarrow> ('s, 'a) bot \<Rightarrow> ('s, 'a) bot" where
  "bot_closing close body =
     (\<lambda>s. case body s of
        (Inl e, s') \<Rightarrow> (Inl e, snd (close s'))
      | (Inr x, s') \<Rightarrow> (case close s' of (Inl e, s'') \<Rightarrow> (Inl e, s'') | (Inr _, s'') \<Rightarrow> (Inr x, s'')))"

text \<open>\<open>catch (RuntimeException | Error | UserException | IOException | SQLException e)\<close>\<close>

fun caught :: "throwable \<Rightarrow> bool" where
  "caught Interrupted \<longleftrightarrow> False"
| "caught (Execution c) \<longleftrightarrow> False"
| "caught e \<longleftrightarrow> True"

section \<open>State and environment\<close>

record user =
  user_id :: int
  user_name :: string

record lang =
  apiTimeoutException :: string
  externalException :: "string \<Rightarrow> string"
  internalException :: "string \<Rightarrow> string"
  unknownCommand :: "string \<Rightarrow> string"
  invalidChoice :: "string \<Rightarrow> string \<Rightarrow> string"
  mixedNomodAndMods :: string
  isSetId :: string
  help_message :: string
  faq :: string
  complaint :: string
  hug :: "user \<Rightarrow> response"
  welcomeUser :: "user \<Rightarrow> int \<Rightarrow> response"

text \<open>The database works, or fails with one of the two kinds of \<open>SQLException\<close>. The state may hold more
  (\<open>'z\<close>).\<close>

datatype database = Working | Recoverable | Failing

record bot_state =
  versions :: "string \<rightharpoonup> int"
  database :: database

record 'z bot_env =
  handlers :: "(string \<Rightarrow> user \<Rightarrow> lang \<Rightarrow> ('z bot_state_scheme, response option) bot) list"
  npHandler :: "string \<Rightarrow> user \<Rightarrow> lang \<Rightarrow> ('z bot_state_scheme, response option) bot"
  fixId :: "string \<Rightarrow> ('z bot_state_scheme, response option) bot"
  tryLinkToPatreon :: "string \<Rightarrow> user \<Rightarrow> ('z bot_state_scheme, string option) bot"
  resolveIRCName :: "string \<Rightarrow> ('z bot_state_scheme, int option) bot"
  getUser :: "int \<Rightarrow> int \<Rightarrow> ('z bot_state_scheme, user option) bot"
  setMapping :: "string \<Rightarrow> int \<Rightarrow> ('z bot_state_scheme, unit) bot"
  redownloadUser :: "string \<Rightarrow> ('z bot_state_scheme, user option) bot"
  loadUserData :: "int \<Rightarrow> ('z bot_state_scheme, unit) bot"
  closeUserData :: "('z bot_state_scheme, unit) bot"
  usingLanguage :: "('z bot_state_scheme, lang) bot"
  getDonator :: "int \<Rightarrow> int"
  isShowWelcomeMessage :: "'z bot_state_scheme \<Rightarrow> bool"
  isOsuTrackWelcomeEnabled :: "'z bot_state_scheme \<Rightarrow> bool"
  inactiveTime :: "user \<Rightarrow> ('z bot_state_scheme, int) bot"
  osutrackUpdate :: "int \<Rightarrow> ('z bot_state_scheme, response) bot"
  registerActivity :: "string \<Rightarrow> ('z bot_state_scheme, unit) bot"
  default_lang :: lang
  help_text :: string
  reference :: string

section \<open>\<open>handleException\<close>\<close>

definition API :: string where
  "API = ''https://osu.ppy.sh/api/''"

definition timeout_prefixes :: "string list" where
  "timeout_prefixes =
     [''Premature EOF'', ''Remote host terminated the handshake for '' @ API,
      ''Error writing to server for '' @ API, ''Unexpected end of file from server for '' @ API,
      ''Broken pipe for '' @ API, ''response code 502 for '' @ API, ''response code 503 for '' @ API,
      ''response code 520 for '' @ API, ''response code 525 for '' @ API, ''Connection reset for '' @ API]"

fun isTimeout :: "throwable \<Rightarrow> bool" where
  "isTimeout SocketTimeout \<longleftrightarrow> True"
| "isTimeout (IOExn (Some m)) \<longleftrightarrow> list_ex (startsWith m) timeout_prefixes"
| "isTimeout e \<longleftrightarrow> False"

fun isExternalException :: "throwable \<Rightarrow> bool" where
  "isExternalException (WebApplication code) \<longleftrightarrow> code = 502 \<or> code = 504 \<or> (520 \<le> code \<and> code \<le> 527)"
| "isExternalException e \<longleftrightarrow> False"

fun isIOException :: "throwable \<Rightarrow> bool" where
  "isIOException SocketTimeout \<longleftrightarrow> True"
| "isIOException (IOExn m) \<longleftrightarrow> True"
| "isIOException e \<longleftrightarrow> False"

text \<open>\<open>None\<close> is the missing cause of an \<open>ExecutionException\<close>.\<close>

definition exception_response :: "string \<Rightarrow> lang \<Rightarrow> throwable option \<Rightarrow> response" where
  "exception_response ref l e =
     (case e of
        None \<Rightarrow> Message (internalException l ref)
      | Some e \<Rightarrow>
          if e = Interrupted then NoResponse
          else if e = MaintenanceExn \<or> e = SqlRecoverable
            then Message ''I'm undergoing maintenance and can't do that right now.''
          else case e of
            UserExn m \<Rightarrow> Message m
          | _ \<Rightarrow>
              if e = ServiceUnavailable then NoResponse
              else if isTimeout e then Message (apiTimeoutException l)
              else if isIOException e \<or> isExternalException e then Message (externalException l ref)
              else Message (internalException l ref))"

definition handleException :: "'z bot_env \<Rightarrow> throwable \<Rightarrow> lang \<Rightarrow> response" where
  "handleException env e l =
     exception_response (reference env) l (case e of Execution c \<Rightarrow> c | _ \<Rightarrow> Some e)"

section \<open>News\<close>

definition CURRENT_VERSION :: int where
  "CURRENT_VERSION = 13"

definition VERSION_MESSAGE :: string where
  "VERSION_MESSAGE = ''This is embarrasing. Looks like I didn't know about the HD nerf for a quite a while.''
     @ '' Don't worry: I'm all caught up now. I'll be updating my pp records over the following days.''"

definition getLastVisitedVersion :: "string \<Rightarrow> ('z bot_state_scheme, int) bot" where
  "getLastVisitedVersion nick s =
     (case database s of
        Recoverable \<Rightarrow> (Inl SqlRecoverable, s)
      | Failing \<Rightarrow> (Inl SqlExn, s)
      | Working \<Rightarrow> (Inr (case versions s nick of None \<Rightarrow> -1 | Some v \<Rightarrow> v), s))"

definition setLastVisitedVersion :: "string \<Rightarrow> int \<Rightarrow> ('z bot_state_scheme, unit) bot" where
  "setLastVisitedVersion nick v s =
     (case database s of
        Recoverable \<Rightarrow> (Inl SqlRecoverable, s)
      | Failing \<Rightarrow> (Inl SqlExn, s)
      | Working \<Rightarrow> (Inr (), s\<lparr>versions := (versions s)(nick \<mapsto> v)\<rparr>))"

definition checkVersionInfo :: "'z bot_env \<Rightarrow> string \<Rightarrow> ('z bot_state_scheme, response) bot" where
  "checkVersionInfo env nick =
     bot_bind (getLastVisitedVersion nick) (\<lambda>userVersion.
       if userVersion < CURRENT_VERSION
       then bot_bind (setLastVisitedVersion nick CURRENT_VERSION) (\<lambda>_.
         bot_return (Message (if userVersion = -1 then help_text env else VERSION_MESSAGE)))
       else bot_return NoResponse)"

section \<open>Commands\<close>

text \<open>The first handler that answers; the later ones are not called.\<close>

fun dispatch ::
  "(string \<Rightarrow> user \<Rightarrow> lang \<Rightarrow> ('s, response option) bot) list \<Rightarrow> string \<Rightarrow> user \<Rightarrow> lang \<Rightarrow>
     ('s, response option) bot" where
  "dispatch [] command u l = bot_return None"
| "dispatch (h # hs) command u l =
     bot_bind (h command u l) (\<lambda>r. case r of None \<Rightarrow> dispatch hs command u l | Some x \<Rightarrow> bot_return (Some x))"

text \<open>\<open>LinkPpaddictHandler\<close>\<close>

definition is_token :: "string \<Rightarrow> bool" where
  "is_token s \<longleftrightarrow> length s = 32 \<and>
     list_all (\<lambda>c. let n = (of_char c :: nat) in (48 \<le> n \<and> n \<le> 57) \<or> (97 \<le> n \<and> n \<le> 122)) s"

definition linkPpaddict :: "'z bot_env \<Rightarrow> string \<Rightarrow> user \<Rightarrow> ('z bot_state_scheme, response option) bot" where
  "linkPpaddict env command u =
     (if \<not> is_token command then bot_return None
      else bot_bind (tryLinkToPatreon env command u) (\<lambda>name.
        case name of
          None \<Rightarrow> bot_throw (UserExn ''nothing happened.'')
        | Some n \<Rightarrow> bot_return (Some (Success (''linked to '' @ n)))))"

text \<open>The regular expression \<open>\bhugs?\b\<close>, upper case or lower; the flag says whether the character before
  is one of a word.\<close>

definition is_word :: "char \<Rightarrow> bool" where
  "is_word c \<longleftrightarrow> (let n = (of_char c :: nat)
     in (48 \<le> n \<and> n \<le> 57) \<or> (65 \<le> n \<and> n \<le> 90) \<or> (97 \<le> n \<and> n \<le> 122) \<or> n = 95)"

definition word_ends :: "string \<Rightarrow> bool" where
  "word_ends s \<longleftrightarrow> s = [] \<or> \<not> is_word (hd s)"

fun has_hug :: "bool \<Rightarrow> string \<Rightarrow> bool" where
  "has_hug w [] \<longleftrightarrow> False"
| "has_hug w (c # cs) \<longleftrightarrow>
     (let t = to_lower (c # cs)
      in \<not> w \<and> startsWith t ''hug'' \<and> (word_ends (drop 3 t) \<or> (startsWith t ''hugs'' \<and> word_ends (drop 4 t))))
     \<or> has_hug (is_word c) cs"

text \<open>\<open>getUserOrThrow\<close>: a name that the resolver has mapped to a user of another name is mapped anew.\<close>

definition getIrcUserName :: "user \<Rightarrow> string" where
  "getIrcUserName u = map (\<lambda>c. if c = CHR '' '' then CHR ''_'' else c) (user_name u)"

definition confusing_name :: "string \<Rightarrow> string" where
  "confusing_name ref =
     ''Your name is confusing me. Are you banned? If not, pls check out [https://github.com/Tillerino/''
     @ ''Tillerinobot/wiki/How-to-fix-confusing-name-error this page] on how to resolve it!''
     @ '' if that does not work, pls [https://github.com/Tillerino/Tillerinobot/wiki/Contact contact Tillerino].''
     @ '' (reference '' @ ref @ '')''"

definition getUserOrThrow :: "'z bot_env \<Rightarrow> string \<Rightarrow> ('z bot_state_scheme, user) bot" where
  "getUserOrThrow env nick =
     (let fail = bot_throw (UserExn (confusing_name (reference env)))
      in bot_bind (resolveIRCName env nick) (\<lambda>i.
           case i of
             None \<Rightarrow> fail
           | Some i \<Rightarrow>
               bot_bind (getUser env i (60 * 60 * 1000)) (\<lambda>u.
                 bot_bind
                   (case u of
                      None \<Rightarrow> bot_return None
                    | Some u \<Rightarrow>
                        if nick \<noteq> getIrcUserName u
                        then bot_bind (setMapping env (getIrcUserName u) (user_id u)) (\<lambda>_. redownloadUser env nick)
                        else bot_return (Some u))
                   (\<lambda>u. case u of None \<Rightarrow> fail | Some u \<Rightarrow> bot_return u))))"

section \<open>Messages\<close>

text \<open>What is done with the language of the user, in \<open>processPrivateMessage\<close>. The inner \<open>bot_catch\<close> is
  the part of the \<open>try\<close> block that knows the news.\<close>

definition run_command ::
  "'z bot_env \<Rightarrow> string \<Rightarrow> string \<Rightarrow> user \<Rightarrow> lang \<Rightarrow> ('z bot_state_scheme, response) bot" where
  "run_command env nick command u l =
     bot_bind (checkVersionInfo env nick) (\<lambda>prelim.
       bot_catch
         (bot_bind (dispatch (handlers env) command u l) (\<lambda>r.
           case r of
             None \<Rightarrow> bot_throw (UserExn (unknownCommand l command))
           | Some x \<Rightarrow> bot_return (and_then prelim (Some x))))
         caught
         (\<lambda>e. bot_return (and_then prelim (Some (handleException env e l)))))"

definition answer_message ::
  "'z bot_env \<Rightarrow> string \<Rightarrow> string \<Rightarrow> user \<Rightarrow> lang \<Rightarrow> ('z bot_state_scheme, response) bot" where
  "answer_message env nick message u l =
     bot_catch
       (if has_hug False message \<and> getDonator env (user_id u) > 0 then bot_return (hug l u)
        else bot_bind (linkPpaddict env message u) (\<lambda>link.
          case link of
            Some r \<Rightarrow> bot_return r
          | None \<Rightarrow>
              if \<not> startsWith message ''!'' then bot_return NoResponse
              else run_command env nick (trim (drop 1 message)) u l))
       caught
       (\<lambda>e. bot_return (and_then NoResponse (Some (handleException env e l))))"

definition processPrivateMessage ::
  "'z bot_env \<Rightarrow> string \<Rightarrow> string \<Rightarrow> ('z bot_state_scheme, response) bot" where
  "processPrivateMessage env nick message =
     bot_catch
       (bot_bind (fixId env message) (\<lambda>r.
          case r of
            Some x \<Rightarrow> bot_return x
          | None \<Rightarrow>
              bot_bind (getUserOrThrow env nick) (\<lambda>u.
                bot_bind (loadUserData env (user_id u)) (\<lambda>_.
                  bot_closing (closeUserData env)
                    (bot_bind (usingLanguage env) (\<lambda>l. answer_message env nick message u l))))))
       caught
       (\<lambda>e. bot_return (handleException env e (default_lang env)))"

text \<open>\<open>processPrivateAction\<close>; \<open>npHandler\<close> may answer \<open>null\<close>.\<close>

definition answer_action ::
  "'z bot_env \<Rightarrow> string \<Rightarrow> user \<Rightarrow> lang \<Rightarrow> ('z bot_state_scheme, response option) bot" where
  "answer_action env action u l =
     bot_catch (npHandler env action u l) caught (\<lambda>e. bot_return (Some (handleException env e l)))"

definition processPrivateAction ::
  "'z bot_env \<Rightarrow> string \<Rightarrow> string \<Rightarrow> ('z bot_state_scheme, response) bot" where
  "processPrivateAction env nick action s =
     (case bot_catch (bot_bind (checkVersionInfo env nick) (\<lambda>v. bot_return (Inr v))) caught
             (\<lambda>e. bot_return (Inl (handleException env e (default_lang env)))) s of
        (Inl e, s') \<Rightarrow> (Inl e, s')
      | (Inr (Inl r), s') \<Rightarrow> (Inr (and_then NoResponse (Some r)), s')
      | (Inr (Inr versionInfo), s') \<Rightarrow>
          bot_catch
            (bot_bind (getUserOrThrow env nick) (\<lambda>u.
              bot_bind (loadUserData env (user_id u)) (\<lambda>_.
                bot_closing (closeUserData env)
                  (bot_bind (bot_bind (usingLanguage env) (\<lambda>l. answer_action env action u l))
                    (\<lambda>r. bot_return (and_then versionInfo r))))))
            caught
            (\<lambda>e. bot_return (and_then versionInfo (Some (handleException env e (default_lang env))))) s')"

section \<open>Joined\<close>

text \<open>\<open>welcomeIfDonator\<close>: timeouts of the resolver and of the API end it silently.\<close>

definition silently :: "('s, 'a option) bot \<Rightarrow> ('s, 'a option) bot" where
  "silently m = bot_catch m (\<lambda>e. isIOException e \<and> isTimeout e) (\<lambda>e. bot_return None)"

definition greet :: "'z bot_env \<Rightarrow> string \<Rightarrow> user \<Rightarrow> ('z bot_state_scheme, response) bot" where
  "greet env nick u s =
     (if \<not> isShowWelcomeMessage env s then (Inr NoResponse, s)
      else
        bot_bind (inactiveTime env u) (\<lambda>t.
          bot_bind (usingLanguage env) (\<lambda>l.
            bot_bind (\<lambda>s. if isOsuTrackWelcomeEnabled env s
                           then bot_bind (osutrackUpdate env (user_id u)) (\<lambda>r.
                             bot_return (and_then (welcomeUser l u t) (Some r))) s
                           else (Inr (welcomeUser l u t), s))
              (\<lambda>r. bot_bind (checkVersionInfo env nick) (\<lambda>v. bot_return (and_then r (Some v)))))) s)"

definition welcomeIfDonator :: "'z bot_env \<Rightarrow> string \<Rightarrow> ('z bot_state_scheme, response) bot" where
  "welcomeIfDonator env nick =
     bot_bind (silently (resolveIRCName env nick)) (\<lambda>i.
       case i of
         None \<Rightarrow> bot_return NoResponse
       | Some i \<Rightarrow>
           bot_bind (silently (getUser env i 0)) (\<lambda>u.
             case u of
               None \<Rightarrow> bot_return NoResponse
             | Some u \<Rightarrow>
                 if getDonator env (user_id u) \<le> 0 then bot_return NoResponse
                 else bot_bind (loadUserData env i) (\<lambda>_.
                   bot_closing (closeUserData env) (greet env nick u))))"

section \<open>Events\<close>

text \<open>\<open>catch (SQLException | IOException | UserException | MaintenanceException e)\<close>\<close>

fun caught_joined :: "throwable \<Rightarrow> bool" where
  "caught_joined SqlRecoverable \<longleftrightarrow> True"
| "caught_joined SqlExn \<longleftrightarrow> True"
| "caught_joined (IOExn m) \<longleftrightarrow> True"
| "caught_joined SocketTimeout \<longleftrightarrow> True"
| "caught_joined (UserExn m) \<longleftrightarrow> True"
| "caught_joined MaintenanceExn \<longleftrightarrow> True"
| "caught_joined e \<longleftrightarrow> False"

definition visit :: "'z bot_env \<Rightarrow> event \<Rightarrow> ('z bot_state_scheme, response) bot" where
  "visit env e =
     (case event_kind e of
        Joined \<Rightarrow> bot_catch (welcomeIfDonator env (event_nick e)) caught_joined (\<lambda>_. bot_return NoResponse)
      | PrivateMessage m \<Rightarrow> processPrivateMessage env (event_nick e) m
      | PrivateAction a \<Rightarrow> processPrivateAction env (event_nick e) a
      | Sighted \<Rightarrow> bot_return NoResponse)"

text \<open>\<open>onEvent\<close>: what is put into the queue of responses, and the exception that leaves the method. An
  interrupt is kept in the thread; registering the activity catches all but an \<open>Error\<close>.\<close>

definition onEvent ::
  "'z bot_env \<Rightarrow> event \<Rightarrow> 'z bot_state_scheme \<Rightarrow> response option \<times> throwable option \<times> 'z bot_state_scheme" where
  "onEvent env e s =
     (case visit env e s of
        (Inr r, s') \<Rightarrow>
          (case registerActivity env (event_nick e) s' of
             (Inl ErrorExn, s'') \<Rightarrow> (Some r, Some ErrorExn, s'')
           | (_, s'') \<Rightarrow> (Some r, None, s''))
      | (Inl Interrupted, s') \<Rightarrow> (None, None, s')
      | (Inl x, s') \<Rightarrow> (None, Some x, s'))"

end
