(* ===== verification/Now_Playing.thy ===== *)
theory Now_Playing
  imports Bot
begin

unbundle bit_operations_syntax

text \<open>
  The parser of what the game sends for \<open>/np\<close> (\<open>handlers/NPHandler\<close>): the regular expression \<open>npPattern\<close>,
  as the search that the greedy expression performs, and \<open>parseNP\<close>. \<open>now_playing_read\<close> states the language
  of the expression without it.
\<close>

section \<open>Prefixes\<close>

definition strip :: "string \<Rightarrow> string \<Rightarrow> string option" where
  "strip p s = (if startsWith s p then Some (drop (length p) s) else None)"

fun strip_one :: "string list \<Rightarrow> string \<Rightarrow> (string \<times> string) option" where
  "strip_one [] s = None"
| "strip_one (p # ps) s = (case strip p s of Some r \<Rightarrow> Some (p, r) | None \<Rightarrow> strip_one ps s)"

text \<open>\<open>.*\<close> up to the last \<open>c\<close>.\<close>

definition split_last :: "char \<Rightarrow> string \<Rightarrow> (string \<times> string) option" where
  "split_last c s =
     (if c \<in> set s
      then Some (rev (tl (dropWhile (\<lambda>d. d \<noteq> c) (rev s))), rev (takeWhile (\<lambda>d. d \<noteq> c) (rev s))) else None)"

text \<open>A dot of a regular expression does not match the end of a line.\<close>

definition any_char :: "char \<Rightarrow> bool" where
  "any_char c \<longleftrightarrow> (of_char c :: nat) \<notin> {10, 13, 133}"

definition decimal :: "char \<Rightarrow> bool" where
  "decimal c \<longleftrightarrow> c \<in> set ''0123456789''"

definition lower :: "char \<Rightarrow> bool" where
  "lower c \<longleftrightarrow> 97 \<le> (of_char c :: nat) \<and> (of_char c :: nat) \<le> 122"

section \<open>The pattern\<close>

definition np_verbs :: "string list" where
  "np_verbs = [''is listening to'', ''is watching'', ''is playing'', ''is editing'']"

definition np_mods :: "string list" where
  "np_mods =
     ['' -Easy'', '' -NoFail'', '' -HalfTime'', '' +HardRock'', '' +SuddenDeath'', '' +Perfect'', '' +DoubleTime'',
      '' +Nightcore'', '' +Hidden'', '' +Flashlight'', '' ~Relax~'', '' ~AutoPilot~'', '' -SpunOut'', '' |Autoplay|'']"

text \<open>What the groups hold: a set without a beatmap; a set, a mode (empty if there is none), whether a slash
  follows, and the beatmap; the old style with \<open>b\<close> or \<open>s\<close> and a number.\<close>

datatype np_link =
    SetLink string | NewLink string string bool string | OldLink char string

definition np_host :: "string \<Rightarrow> string option" where
  "np_host s =
     (case strip '' [http'' s of
        None \<Rightarrow> None
      | Some s \<Rightarrow>
          (case strip ''://osu'' (case s of [] \<Rightarrow> [] | c # r \<Rightarrow> if c = CHR ''s'' then r else s) of
             Some (c # s) \<Rightarrow>
               if \<not> any_char c then None
               else (case strip ''ppy'' s of
                       Some (c # s) \<Rightarrow> if any_char c then strip ''sh'' s else None
                     | _ \<Rightarrow> None)
           | _ \<Rightarrow> None))"

text \<open>\<open>#(?<mode>[a-z]+)?/?(?<newid>\d+)\<close>\<close>

definition np_new_id :: "string \<Rightarrow> ((string \<times> bool \<times> string) \<times> string) option" where
  "np_new_id s =
     (case strip ''#'' s of
        None \<Rightarrow> None
      | Some s \<Rightarrow>
          let mode = takeWhile lower s;
              s = dropWhile lower s;
              slash = startsWith s ''/'';
              s = (if slash then drop 1 s else s);
              newid = takeWhile decimal s
          in if newid = [] then None else Some ((mode, slash, newid), dropWhile decimal s))"

definition np_link_of :: "string \<Rightarrow> (np_link \<times> string) option" where
  "np_link_of s =
     (case strip ''/beatmapsets/'' s of
        Some s \<Rightarrow>
          let setid = takeWhile decimal s;
              s = dropWhile decimal s
          in if setid = [] then None
             else (case np_new_id s of
                     Some ((mode, slash, newid), s) \<Rightarrow> Some (NewLink setid mode slash newid, s)
                   | None \<Rightarrow> Some (SetLink setid, s))
      | None \<Rightarrow>
          (case strip_one [''/b/'', ''/s/''] s of
             None \<Rightarrow> None
           | Some (p, s) \<Rightarrow>
               if takeWhile decimal s = [] then None
               else Some (OldLink (p ! 1) (takeWhile decimal s), dropWhile decimal s)))"

lemma strip_one_shorter: "strip_one ps s = Some (p, r) \<Longrightarrow> p \<in> set ps \<and> s = p @ r"
  by (induction ps) (auto simp: strip_def startsWith_def split: option.splits if_splits,
      metis append_take_drop_id)

function np_mods_of :: "string \<Rightarrow> string list option" where
  "np_mods_of s =
     (if s = [] then Some []
      else case strip_one np_mods s of
        None \<Rightarrow> None
      | Some (m, r) \<Rightarrow> map_option (Cons m) (np_mods_of r))"
  by auto
termination
proof (relation "measure length")
  fix s :: string and q r m
  assume "s \<noteq> []" and q: "strip_one np_mods s = Some q" "(m, r) = q"
  then have "m \<in> set np_mods" "s = m @ r" using strip_one_shorter by auto
  moreover have "[] \<notin> set np_mods" by (simp add: np_mods_def)
  ultimately show "(r, s) \<in> measure length" by auto
qed simp

declare np_mods_of.simps [simp del]

definition np_match :: "string \<Rightarrow> (np_link \<times> string list) option" where
  "np_match s =
     (case strip_one np_verbs s of
        None \<Rightarrow> None
      | Some (_, s) \<Rightarrow>
          (case np_host s of
             None \<Rightarrow> None
           | Some s \<Rightarrow>
               (case np_link_of s of
                  None \<Rightarrow> None
                | Some (link, s) \<Rightarrow>
                    (case split_last (CHR '']'') s of
                       None \<Rightarrow> None
                     | Some (title, mods) \<Rightarrow>
                         if list_all any_char title then map_option (Pair link) (np_mods_of mods) else None))))"

section \<open>\<open>parseNP\<close>\<close>

fun np_id :: "np_link \<Rightarrow> string option" where
  "np_id (SetLink i) = None"
| "np_id (NewLink i mode slash newid) = Some newid"
| "np_id (OldLink t oldid) = Some oldid"

fun np_idtype :: "np_link \<Rightarrow> char option" where
  "np_idtype (OldLink t oldid) = Some t"
| "np_idtype l = None"

fun np_mode :: "np_link \<Rightarrow> string" where
  "np_mode (NewLink i mode slash newid) = mode"
| "np_mode l = []"

text \<open>\<open>Integer.parseInt\<close> of decimal digits, at most \<open>2147483647\<close>.\<close>

definition np_number :: "string \<Rightarrow> throwable + int" where
  "np_number ds =
     (let n = int (digits_value 10 (digit_prefix 10 ds)) in if n < 2 ^ 31 then Inr n else Inl RuntimeExn)"

text \<open>\<open>mod_mask\<close> is the bit of a mod by its name in the library, if the mod is effective.\<close>

definition np_mods_mask :: "(string \<Rightarrow> int option) \<Rightarrow> string list \<Rightarrow> int" where
  "np_mods_mask mod_mask ms =
     foldl (\<lambda>acc m. case mod_mask (filter is_word m) of None \<Rightarrow> acc | Some b \<Rightarrow> acc OR b) 0 ms"

definition parseNP :: "(string \<Rightarrow> int option) \<Rightarrow> lang \<Rightarrow> string \<Rightarrow> throwable + (int \<times> int) option" where
  "parseNP mod_mask l message =
     (case np_match message of
        None \<Rightarrow> Inr None
      | Some (link, ms) \<Rightarrow>
          (case np_id link of
             None \<Rightarrow> Inl (UserExn (isSetId l))
           | Some anyId \<Rightarrow>
               if np_idtype link = Some (CHR ''s'') then Inl (UserExn (isSetId l))
               else if np_mode link \<noteq> [] \<and> np_mode link \<noteq> ''osu'' then Inl (UserExn ''where osu'')
               else (case np_number anyId of
                       Inl e \<Rightarrow> Inl e
                     | Inr beatmapid \<Rightarrow> Inr (Some (beatmapid, np_mods_mask mod_mask ms)))))"

section \<open>The language of the pattern\<close>

lemma strip_iff: "strip p s = Some r \<longleftrightarrow> s = p @ r"
  by (auto simp: strip_def startsWith_def) (metis append_take_drop_id)

lemma strip_iff_sym: "Some r = strip p s \<longleftrightarrow> s = p @ r"
  using strip_iff by metis

lemma strip_none: "strip p s = None \<longleftrightarrow> \<not> startsWith s p"
  by (simp add: strip_def)

text \<open>No word of the list begins another.\<close>

definition apart_words :: "string list \<Rightarrow> bool" where
  "apart_words ps \<longleftrightarrow> list_all (\<lambda>p. list_all (\<lambda>q. p = q \<or> take (min (length p) (length q)) p \<noteq> take (min (length p) (length q)) q) ps) ps"

lemma strip_one_only:
  "p \<in> set qs \<Longrightarrow> strip p s = Some r \<Longrightarrow> (\<And>q. q \<in> set qs \<Longrightarrow> q \<noteq> p \<Longrightarrow> strip q s = None) \<Longrightarrow>
     strip_one qs s = Some (p, r)"
proof (induction qs)
  case (Cons q qs)
  then show ?case by (cases "q = p") simp_all
qed simp

lemma strip_one_iff:
  assumes "apart_words ps"
  shows "strip_one ps s = Some (p, r) \<longleftrightarrow> p \<in> set ps \<and> s = p @ r"
proof
  assume p: "p \<in> set ps \<and> s = p @ r"
  have other: "strip q s = None" if q: "q \<in> set ps" "q \<noteq> p" for q
  proof -
    have "take (min (length p) (length q)) p \<noteq> take (min (length p) (length q)) q"
      using assms p q(1) q(2) [symmetric] by (auto simp: apart_words_def list_all_iff)
    moreover have "take (min (length p) (length q)) q = take (min (length p) (length q)) p"
      if "take (length q) (p @ r) = q"
      using arg_cong [OF that, of "take (min (length p) (length q))"] by (simp add: min.commute)
    ultimately show ?thesis using p by (auto simp: strip_none startsWith_def)
  qed
  have "strip p s = Some r" using p by (simp add: strip_iff)
  then show "strip_one ps s = Some (p, r)"
    using strip_one_only [of p ps s r] p other by blast
qed (rule strip_one_shorter)

lemma words_apart: "apart_words np_verbs" "apart_words np_mods" "apart_words [''/b/'', ''/s/'']"
  by code_simp+

lemma split_last_iff: "split_last c s = Some (a, b) \<longleftrightarrow> s = a @ c # b \<and> c \<notin> set b"
proof
  assume l: "split_last c s = Some (a, b)"
  then have c: "c \<in> set (rev s)" by (simp add: split_last_def split: if_splits)
  then have d: "dropWhile (\<lambda>d. d \<noteq> c) (rev s) \<noteq> [] \<and> hd (dropWhile (\<lambda>d. d \<noteq> c) (rev s)) = c"
    using hd_dropWhile [of "\<lambda>d. d \<noteq> c" "rev s"] by (auto simp: dropWhile_eq_Nil_conv)
  have ab: "a = rev (tl (dropWhile (\<lambda>d. d \<noteq> c) (rev s)))" "b = rev (takeWhile (\<lambda>d. d \<noteq> c) (rev s))"
    using l by (auto simp: split_last_def split: if_splits)
  have "rev s = takeWhile (\<lambda>d. d \<noteq> c) (rev s) @ c # tl (dropWhile (\<lambda>d. d \<noteq> c) (rev s))"
    using d by (metis list.collapse takeWhile_dropWhile_id)
  then have "s = a @ c # b" unfolding ab by (metis rev.simps(2) rev_append rev_rev_ident append.assoc append_Cons append_Nil)
  moreover have "c \<notin> set b" unfolding ab by (auto dest: set_takeWhileD)
  ultimately show "s = a @ c # b \<and> c \<notin> set b" by blast
next
  assume s: "s = a @ c # b \<and> c \<notin> set b"
  then have "takeWhile (\<lambda>d. d \<noteq> c) (rev b @ c # rev a) = rev b"
    and "dropWhile (\<lambda>d. d \<noteq> c) (rev b @ c # rev a) = c # rev a"
    by (subst takeWhile_append2 dropWhile_append2; auto)+
  then show "split_last c s = Some (a, b)"
    using s by (simp add: split_last_def)
qed

lemma np_mods_of_nil: "np_mods_of [] = Some []"
  by (simp add: np_mods_of.simps)

lemma np_mods_of_step:
  "s \<noteq> [] \<Longrightarrow> np_mods_of s =
     (case strip_one np_mods s of None \<Rightarrow> None | Some (m, r) \<Rightarrow> map_option (Cons m) (np_mods_of r))"
  by (subst np_mods_of.simps) simp

lemma np_mods_of_iff: "np_mods_of s = Some ms \<longleftrightarrow> set ms \<subseteq> set np_mods \<and> s = concat ms"
proof (induction ms arbitrary: s)
  case Nil
  show ?case
    by (cases "s = []") (auto simp: np_mods_of_nil np_mods_of_step split: option.split)
next
  case (Cons m ms)
  have ne: "[] \<notin> set np_mods" by (simp add: np_mods_def)
  show ?case
  proof (cases "s = []")
    case True
    then show ?thesis using ne by (auto simp: np_mods_of_nil)
  next
    case False
    have "np_mods_of s = Some (m # ms) \<longleftrightarrow> (\<exists>r. strip_one np_mods s = Some (m, r) \<and> np_mods_of r = Some ms)"
      by (auto simp: np_mods_of_step [OF False] split: option.splits)
    then show ?thesis by (auto simp: Cons strip_one_iff [OF words_apart(2)])
  qed
qed

lemma span:
  assumes "list_all P xs" and "ys = [] \<or> \<not> P (hd ys)"
  shows "takeWhile P (xs @ ys) = xs" and "dropWhile P (xs @ ys) = ys"
proof -
  have "takeWhile P ys = [] \<and> dropWhile P ys = ys" using assms(2) by (cases ys) auto
  then show "takeWhile P (xs @ ys) = xs" "dropWhile P (xs @ ys) = ys"
    using assms(1) by (simp_all add: list_all_iff takeWhile_append2 dropWhile_append2)
qed

lemma span_split:
  "s = takeWhile P s @ dropWhile P s \<and> list_all P (takeWhile P s) \<and> (dropWhile P s = [] \<or> \<not> P (hd (dropWhile P s)))"
  using hd_dropWhile [of P s] by (auto simp: list_all_iff dest: set_takeWhileD)

lemma np_host_iff:
  "np_host s = Some r \<longleftrightarrow>
     (\<exists>secure c d. any_char c \<and> any_char d \<and>
        s = '' [http'' @ (if secure then ''s'' else []) @ ''://osu'' @ c # ''ppy'' @ d # ''sh'' @ r)"
proof
  assume h: "np_host s = Some r"
  then obtain s1 where s1: "s = '' [http'' @ s1"
    by (auto simp: np_host_def strip_iff split: option.splits)
  define s2 where "s2 = (case s1 of [] \<Rightarrow> [] | c # r \<Rightarrow> if c = CHR ''s'' then r else s1)"
  obtain secure where sec: "s1 = (if secure then ''s'' else []) @ s2"
    by (rule that [of "s1 \<noteq> [] \<and> hd s1 = CHR ''s''"]) (cases s1, auto simp: s2_def)
  have "strip '' [http'' s = Some s1" using s1 by (simp add: strip_iff)
  then have "np_host s =
      (case strip ''://osu'' s2 of
         Some (c # s) \<Rightarrow>
           if \<not> any_char c then None
           else (case strip ''ppy'' s of
                   Some (c # s) \<Rightarrow> if any_char c then strip ''sh'' s else None
                 | _ \<Rightarrow> None)
       | _ \<Rightarrow> None)"
    by (simp add: np_host_def s2_def)
  then obtain c d where "any_char c" "any_char d" "s2 = ''://osu'' @ c # ''ppy'' @ d # ''sh'' @ r"
    using h by (auto simp: strip_iff strip_iff_sym split: option.splits list.splits if_splits)
  then show "\<exists>secure c d. any_char c \<and> any_char d \<and>
        s = '' [http'' @ (if secure then ''s'' else []) @ ''://osu'' @ c # ''ppy'' @ d # ''sh'' @ r"
    using s1 sec by blast
next
  assume "\<exists>secure c d. any_char c \<and> any_char d \<and>
        s = '' [http'' @ (if secure then ''s'' else []) @ ''://osu'' @ c # ''ppy'' @ d # ''sh'' @ r"
  then obtain secure c d where "any_char c" "any_char d"
    "s = '' [http'' @ (if secure then ''s'' else []) @ ''://osu'' @ c # ''ppy'' @ d # ''sh'' @ r" by blast
  then show "np_host s = Some r"
    by (cases secure) (simp_all add: np_host_def strip_def startsWith_def)
qed

text \<open>Where a number ends: at the next character that is not a digit.\<close>

definition ends_number :: "string \<Rightarrow> bool" where
  "ends_number r \<longleftrightarrow> r = [] \<or> \<not> decimal (hd r)"

definition number :: "string \<Rightarrow> bool" where
  "number n \<longleftrightarrow> n \<noteq> [] \<and> list_all decimal n"

definition id_text :: "string \<Rightarrow> bool \<Rightarrow> string \<Rightarrow> string" where
  "id_text mode slash n = CHR ''#'' # mode @ (if slash then ''/'' else []) @ n"

fun link_text :: "np_link \<Rightarrow> string" where
  "link_text (SetLink i) = ''/beatmapsets/'' @ i"
| "link_text (NewLink i mode slash n) = ''/beatmapsets/'' @ i @ id_text mode slash n"
| "link_text (OldLink t n) = [CHR ''/'', t, CHR ''/''] @ n"

text \<open>\<open>r\<close> is the text behind the link: the link goes as far as it can.\<close>

fun link_ok :: "np_link \<Rightarrow> string \<Rightarrow> bool" where
  "link_ok (SetLink i) r \<longleftrightarrow> number i \<and> ends_number r
     \<and> (\<nexists>mode slash n r'. r = id_text mode slash n @ r' \<and> list_all lower mode \<and> number n \<and> ends_number r')"
| "link_ok (NewLink i mode slash n) r \<longleftrightarrow> number i \<and> list_all lower mode \<and> number n \<and> ends_number r"
| "link_ok (OldLink t n) r \<longleftrightarrow> t \<in> {CHR ''b'', CHR ''s''} \<and> number n \<and> ends_number r"

lemma number_span: "number n \<Longrightarrow> ends_number r \<Longrightarrow> takeWhile decimal (n @ r) = n \<and> dropWhile decimal (n @ r) = r"
  using span [of decimal n r] by (simp add: number_def ends_number_def)

lemma number_split:
  "takeWhile decimal s \<noteq> [] \<Longrightarrow> number (takeWhile decimal s) \<and> ends_number (dropWhile decimal s)"
  using span_split [of s decimal] by (simp add: number_def ends_number_def)

lemma digit_not_lower: "decimal c \<Longrightarrow> \<not> lower c \<and> c \<noteq> CHR ''/'' \<and> c \<noteq> CHR ''#''"
  by (auto simp: decimal_def lower_def)

lemma np_new_id_iff:
  "np_new_id s = Some ((mode, slash, n), r) \<longleftrightarrow>
     s = id_text mode slash n @ r \<and> list_all lower mode \<and> number n \<and> ends_number r"
proof
  assume h: "np_new_id s = Some ((mode, slash, n), r)"
  then obtain s1 where s1: "s = ''#'' @ s1" by (auto simp: np_new_id_def strip_iff split: option.splits)
  let ?s2 = "dropWhile lower s1"
  let ?s3 = "if startsWith ?s2 ''/'' then drop 1 ?s2 else ?s2"
  have "strip ''#'' s = Some s1" using s1 by (simp add: strip_iff)
  then have v: "mode = takeWhile lower s1" "slash = startsWith ?s2 ''/''" "n = takeWhile decimal ?s3"
    "r = dropWhile decimal ?s3" "takeWhile decimal ?s3 \<noteq> []"
    using h by (auto simp: np_new_id_def Let_def split: if_splits)
  have slash: "t = (if startsWith t ''/'' then ''/'' else []) @ (if startsWith t ''/'' then drop 1 t else t)" for t
    by (cases t) (auto simp: startsWith_def)
  have "?s2 = (if slash then ''/'' else []) @ ?s3"
    unfolding v(2) by (rule slash)
  moreover have "?s3 = n @ r" using v by simp
  moreover have "s1 = mode @ ?s2" using v(1) by simp
  ultimately have "s = id_text mode slash n @ r" using s1 by (simp add: id_text_def)
  then show "s = id_text mode slash n @ r \<and> list_all lower mode \<and> number n \<and> ends_number r"
    using number_split [OF v(5)] span_split [of s1 lower] v by simp
next
  assume h: "s = id_text mode slash n @ r \<and> list_all lower mode \<and> number n \<and> ends_number r"
  define s2 where "s2 = (if slash then ''/'' else []) @ n @ r"
  obtain c n' where n: "n = c # n'" "decimal c" using h by (cases n) (auto simp: number_def)
  have "\<not> lower (hd s2)" using digit_not_lower [OF n(2)] n(1) by (auto simp: lower_def s2_def)
  then have l: "takeWhile lower (mode @ s2) = mode" "dropWhile lower (mode @ s2) = s2"
    using span [of lower mode s2] h by auto
  have sl: "startsWith s2 ''/'' = slash" using digit_not_lower [OF n(2)] n(1) by (simp add: startsWith_def s2_def)
  have d: "(if slash then drop 1 s2 else s2) = n @ r" by (simp add: s2_def)
  have st: "strip ''#'' s = Some (mode @ s2)" using h by (simp add: strip_iff id_text_def s2_def)
  have e: "takeWhile decimal (n @ r) = n" "dropWhile decimal (n @ r) = r" "n \<noteq> []"
    using number_span [of n r] h by (auto simp: number_def)
  show "np_new_id s = Some ((mode, slash, n), r)"
    by (simp only: np_new_id_def st option.case Let_def l sl d e if_False)
qed

text \<open>A link, and where it ends.\<close>

lemma np_link_of_iff: "np_link_of s = Some (link, r) \<longleftrightarrow> s = link_text link @ r \<and> link_ok link r"
proof (cases "strip ''/beatmapsets/'' s")
  case (Some t)
  then have s: "s = ''/beatmapsets/'' @ t" by (simp add: strip_iff)
  have old: "s \<noteq> [CHR ''/'', c, CHR ''/''] @ n @ r" if "c \<in> {CHR ''b'', CHR ''s''}" for c n r
    using s that by auto
  show ?thesis
  proof (cases "takeWhile decimal t = []")
    case True
    then have no: "t \<noteq> i @ q" if "number i" for i q
      using that by (cases i) (auto simp: number_def)
    have "\<not> (s = link_text link @ r \<and> link_ok link r)"
      using no old by (cases link) (auto simp: s)
    then show ?thesis using Some True by (simp add: np_link_of_def)
  next
    case False
    let ?i = "takeWhile decimal t" and ?t = "dropWhile decimal t"
    note i = number_split [OF False]
    have split: "t = i @ q \<and> number i \<and> ends_number q \<longleftrightarrow> i = ?i \<and> q = ?t" for i q
      using number_span [of i q] i by auto
    have of: "np_link_of s = (case np_new_id ?t of
        Some ((mode, slash, newid), s) \<Rightarrow> Some (NewLink ?i mode slash newid, s) | None \<Rightarrow> Some (SetLink ?i, ?t))"
      using Some False by (simp add: np_link_of_def Let_def)
    have hash: "ends_number (id_text mode slash n @ q)" for mode slash n q
      by (auto simp: ends_number_def id_text_def decimal_def)
    show ?thesis
    proof (cases link)
      case (SetLink i)
      have "np_link_of s = Some (link, r) \<longleftrightarrow> i = ?i \<and> r = ?t \<and> np_new_id ?t = None"
        by (auto simp: of SetLink split: option.splits)
      also have "np_new_id ?t = None \<longleftrightarrow> (\<forall>mode slash n r'. np_new_id ?t \<noteq> Some ((mode, slash, n), r'))"
        by (cases "np_new_id ?t") auto
      finally show ?thesis
        using split [of i r] by (auto simp: SetLink s np_new_id_iff)
    next
      case (NewLink i mode slash n)
      have "np_link_of s = Some (link, r) \<longleftrightarrow> i = ?i \<and> np_new_id ?t = Some ((mode, slash, n), r)"
        by (auto simp: of NewLink split: option.splits)
      then show ?thesis
        using split [of i "id_text mode slash n @ r"] hash [of mode slash n r]
        by (auto simp: NewLink s np_new_id_iff)
    next
      case (OldLink c n)
      have "np_link_of s \<noteq> Some (link, r)" by (auto simp: of OldLink split: option.splits)
      then show ?thesis using old [of c n r] by (auto simp: OldLink)
    qed
  qed
next
  case None
  then have other: "s \<noteq> ''/beatmapsets/'' @ t" for t by (metis option.distinct(1) strip_iff)
  define found where "found = strip_one [''/b/'', ''/s/''] s"
  have o: "found = Some (p, t) \<longleftrightarrow> (p = ''/b/'' \<or> p = ''/s/'') \<and> s = p @ t" for p t
    unfolding found_def strip_one_iff [OF words_apart(3)] by auto
  have of: "np_link_of s =
      (case found of None \<Rightarrow> None | Some (p, t) \<Rightarrow>
        if takeWhile decimal t = [] then None else Some (OldLink (p ! 1) (takeWhile decimal t), dropWhile decimal t))"
    using None unfolding np_link_of_def found_def by simp
  show ?thesis
  proof (cases link)
    case (OldLink c n)
    have slashes: "p = [CHR ''/'', p ! 1, CHR ''/''] \<and> (p ! 1 = CHR ''b'' \<or> p ! 1 = CHR ''s'')"
      if "p = ''/b/'' \<or> p = ''/s/''" for p
      using that by (elim disjE) simp_all
    show ?thesis
    proof
      assume "np_link_of s = Some (link, r)"
      then obtain p t where t: "found = Some (p, t)" "takeWhile decimal t \<noteq> []" "c = p ! 1"
        "n = takeWhile decimal t" "r = dropWhile decimal t"
        by (auto simp: of OldLink split: option.splits if_splits)
      then have "p = [CHR ''/'', c, CHR ''/'']" "c = CHR ''b'' \<or> c = CHR ''s''" "s = p @ n @ r"
        using slashes [of p] o [of p t] by auto
      then show "s = link_text link @ r \<and> link_ok link r"
        using number_split [OF t(2)] t(4,5) by (simp add: OldLink)
    next
      assume h: "s = link_text link @ r \<and> link_ok link r"
      then have c: "c = CHR ''b'' \<or> c = CHR ''s''" and n: "number n" "ends_number r"
        and "s = [CHR ''/'', c, CHR ''/''] @ n @ r"
        by (simp_all add: OldLink)
      then have "found = Some ([CHR ''/'', c, CHR ''/''], n @ r)"
        unfolding o by (elim disjE) simp_all
      then show "np_link_of s = Some (link, r)"
        using number_span [OF n] n(1) by (simp add: of OldLink number_def)
    qed
  next
    case (SetLink i)
    have "np_link_of s \<noteq> Some (link, r)" by (simp add: of SetLink split: option.split prod.split)
    then show ?thesis using other [of "i @ r"] by (simp add: SetLink)
  next
    case (NewLink i mode slash n)
    have "np_link_of s \<noteq> Some (link, r)" by (simp add: of NewLink split: option.split prod.split)
    then show ?thesis using other [of "i @ id_text mode slash n @ r"] by (simp add: NewLink)
  qed
qed

text \<open>The message of the game.\<close>

definition np_text :: "string \<Rightarrow> bool \<Rightarrow> char \<Rightarrow> char \<Rightarrow> np_link \<Rightarrow> string \<Rightarrow> string list \<Rightarrow> string" where
  "np_text verb secure c d link title ms =
     verb @ '' [http'' @ (if secure then ''s'' else []) @ ''://osu'' @ c # ''ppy'' @ d # ''sh'' @ link_text link
       @ title @ CHR '']'' # concat ms"

definition np_text_ok :: "string \<Rightarrow> char \<Rightarrow> char \<Rightarrow> np_link \<Rightarrow> string \<Rightarrow> string list \<Rightarrow> bool" where
  "np_text_ok verb c d link title ms \<longleftrightarrow>
     verb \<in> set np_verbs \<and> any_char c \<and> any_char d \<and> list_all any_char title \<and> set ms \<subseteq> set np_mods
     \<and> link_ok link (title @ CHR '']'' # concat ms)"

lemma mods_no_bracket: "set ms \<subseteq> set np_mods \<Longrightarrow> CHR '']'' \<notin> set (concat ms)"
  by (auto simp: np_mods_def)

definition np_shape :: "string \<Rightarrow> np_link \<Rightarrow> string list \<Rightarrow> bool" where
  "np_shape s link ms \<longleftrightarrow>
     (\<exists>verb secure c d title. np_text_ok verb c d link title ms \<and> s = np_text verb secure c d link title ms)"

lemma np_match_iff: "np_match s = Some (link, ms) \<longleftrightarrow> np_shape s link ms"
  unfolding np_shape_def
proof
  assume h: "np_match s = Some (link, ms)"
  then obtain verb s1 s2 s3 title mods where "strip_one np_verbs s = Some (verb, s1)" "np_host s1 = Some s2"
    "np_link_of s2 = Some (link, s3)" "split_last (CHR '']'') s3 = Some (title, mods)" "list_all any_char title"
    "np_mods_of mods = Some ms"
    by (auto simp: np_match_def split: option.splits prod.splits if_splits)
  moreover then obtain secure c d where "any_char c" "any_char d"
    "s1 = '' [http'' @ (if secure then ''s'' else []) @ ''://osu'' @ c # ''ppy'' @ d # ''sh'' @ s2"
    unfolding np_host_iff by blast
  ultimately have "np_text_ok verb c d link title ms \<and> s = np_text verb secure c d link title ms"
    by (simp add: np_text_ok_def np_text_def strip_one_iff [OF words_apart(1)] np_link_of_iff split_last_iff
        np_mods_of_iff del: append_Cons link_text.simps)
  then show "\<exists>verb secure c d title. np_text_ok verb c d link title ms \<and> s = np_text verb secure c d link title ms"
    by blast
next
  assume "\<exists>verb secure c d title. np_text_ok verb c d link title ms \<and> s = np_text verb secure c d link title ms"
  then obtain verb secure c d title where ok: "np_text_ok verb c d link title ms"
    and s: "s = np_text verb secure c d link title ms" by blast
  define s3 where "s3 = title @ CHR '']'' # concat ms"
  define s2 where "s2 = link_text link @ s3"
  define s1 where "s1 = '' [http'' @ (if secure then ''s'' else []) @ ''://osu'' @ c # ''ppy'' @ d # ''sh'' @ s2"
  have "strip_one np_verbs s = Some (verb, s1)"
    unfolding strip_one_iff [OF words_apart(1)] using ok by (simp add: np_text_ok_def s np_text_def s1_def s2_def s3_def)
  moreover have "np_host s1 = Some s2"
    unfolding np_host_iff s1_def using ok by (auto simp: np_text_ok_def)
  moreover have "np_link_of s2 = Some (link, s3)"
    using ok by (simp add: np_link_of_iff s2_def s3_def np_text_ok_def)
  moreover have "split_last (CHR '']'') s3 = Some (title, concat ms)"
    using mods_no_bracket [of ms] ok by (auto simp: split_last_iff s3_def np_text_ok_def)
  moreover have "np_mods_of (concat ms) = Some ms" "list_all any_char title"
    using ok by (simp_all add: np_mods_of_iff np_text_ok_def)
  ultimately show "np_match s = Some (link, ms)" by (simp add: np_match_def)
qed

section \<open>What is read\<close>

text \<open>The number of the beatmap, in either style, for the mode osu.\<close>

fun np_beatmap :: "np_link \<Rightarrow> string option" where
  "np_beatmap (NewLink i mode slash n) = (if mode = [] \<or> mode = ''osu'' then Some n else None)"
| "np_beatmap (OldLink t n) = (if t = CHR ''b'' then Some n else None)"
| "np_beatmap (SetLink i) = None"

definition number_value :: "string \<Rightarrow> int" where
  "number_value n = int (digits_value 10 (digit_prefix 10 n))"

lemma np_number_iff: "np_number n = Inr i \<longleftrightarrow> i = number_value n \<and> i < 2 ^ 31"
  by (auto simp: np_number_def number_value_def Let_def)

lemma parseNP_none: "parseNP mm l s = Inr None \<longleftrightarrow> np_match s = None"
  by (auto simp: parseNP_def split: option.splits prod.splits sum.splits if_splits)

lemma parseNP_link:
  assumes "np_match s = Some (link, ms)" and "link_ok link r"
  shows "parseNP mm l s = Inr (Some (i, m)) \<longleftrightarrow>
    (\<exists>n. np_beatmap link = Some n \<and> i = number_value n \<and> i < 2 ^ 31 \<and> m = np_mods_mask mm ms)"
proof (cases "np_beatmap link")
  case None
  then show ?thesis using assms by (cases link) (auto simp: parseNP_def split: if_splits)
next
  case (Some n)
  then have "parseNP mm l s =
      (case np_number n of Inl e \<Rightarrow> Inl e | Inr j \<Rightarrow> Inr (Some (j, np_mods_mask mm ms)))"
    using assms(1) by (cases link) (auto simp: parseNP_def split: if_splits)
  then show ?thesis
    using np_number_iff [of n] Some by (cases "np_number n") auto
qed

text \<open>C12. The bot knows what is being played exactly when the message has the form that the game sends: what
  the player is doing, a link to a beatmap of the mode osu in the old or in the new style, a title, which may
  itself hold brackets and numbers, and the mods; then it has the number of the beatmap, if it is an \<open>int\<close>,
  and the effective mods. Exactly the messages of another form are not answered.\<close>

theorem now_playing_read:
  "(parseNP mm l s = Inr (Some (i, m)) \<longleftrightarrow>
      (\<exists>link ms n. np_shape s link ms \<and> np_beatmap link = Some n
         \<and> i = number_value n \<and> i < 2 ^ 31 \<and> m = np_mods_mask mm ms))
    \<and> (parseNP mm l s = Inr None \<longleftrightarrow> (\<nexists>link ms. np_shape s link ms))"
proof (cases "np_match s")
  case None
  then show ?thesis
    by (simp add: parseNP_none parseNP_def flip: np_match_iff)
next
  case (Some q)
  then obtain link ms where q: "np_match s = Some (link, ms)" by (cases q) auto
  then obtain r where r: "link_ok link r"
    unfolding np_match_iff np_shape_def np_text_ok_def by blast
  show ?thesis
    by (simp add: parseNP_none parseNP_link [OF q r] q flip: np_match_iff)
qed

text \<open>Decimal notation is read; a number that is not an \<open>int\<close> is an internal error of the bot.\<close>

lemma number_show_nat: "number (show_nat n) \<and> number_value (show_nat n) = int n"
proof -
  have "decimal c" if "c \<in> set (show_nat n)" for c
    unfolding decimal_def by (rule subsetD [OF show_nat_digits that])
  then show ?thesis
    by (simp add: number_def list_all_iff number_value_def digit_prefix_show_nat digits_value_show_nat)
qed

lemma played_beatmap:
  assumes "verb \<in> set np_verbs" and "list_all any_char title" and "set ms \<subseteq> set np_mods"
  shows "parseNP mm l (np_text verb True (CHR ''.'') (CHR ''.'') (OldLink (CHR ''b'') (show_nat n)) (CHR '' '' # title) ms) =
    (if int n < 2 ^ 31 then Inr (Some (int n, np_mods_mask mm ms)) else Inl RuntimeExn)"
proof -
  have "np_text_ok verb (CHR ''.'') (CHR ''.'') (OldLink (CHR ''b'') (show_nat n)) (CHR '' '' # title) ms"
    using assms number_show_nat [of n]
    by (simp add: np_text_ok_def any_char_def ends_number_def decimal_def)
  then have "np_match (np_text verb True (CHR ''.'') (CHR ''.'') (OldLink (CHR ''b'') (show_nat n)) (CHR '' '' # title) ms) =
      Some (OldLink (CHR ''b'') (show_nat n), ms)"
    unfolding np_match_iff np_shape_def by blast
  then show ?thesis
    using number_show_nat [of n] by (simp add: parseNP_def np_number_def number_value_def Let_def)
qed

end
