(* ===== verification/Accuracy.thy ===== *)
theory Accuracy
  imports Java_Double Java_Base
begin

text \<open>
  How many hits of which kind a play of a given accuracy has (\<open>diff/AccuracyDistribution\<close>). The accuracy is
  a \<open>double\<close>; the numbers of hits are of 32 bits. What the library counts as the accuracy of a play
  (\<open>OsuApiScore.getAccuracy\<close>) is a parameter.
\<close>

section \<open>The program\<close>

record accuracy_distribution =
  x300 :: int
  x100 :: int
  x50 :: int
  miss :: int

text \<open>\<open>Math.round\<close>, away from the bounds of \<open>long\<close>.\<close>

definition java_round :: "rat \<Rightarrow> int" where
  "java_round x = \<lfloor>x + 1 / 2\<rfloor>"

text \<open>The turn of the loop for \<open>i\<close>: the best numbers so far, and their error, which is infinite at first.\<close>

definition best_step :: "rat \<Rightarrow> int \<Rightarrow> int \<Rightarrow> int \<Rightarrow> (int \<times> int) \<times> rat option \<Rightarrow> (int \<times> int) \<times> rat option" where
  "best_step acc intAcc aomm i best =
     (let low = int32 (aomm + int32 (i * 5));
          localAcc = min (int32 (int32 (2 * aomm) + int32 (i * 4))) (max low intAcc);
          hits100 = int32 (localAcc - low);
          error = \<bar>dbl (acc - of_int localAcc)\<bar>
      in case snd best of
           None \<Rightarrow> ((i, hits100), Some error)
         | Some bestError \<Rightarrow> if error < bestError then ((i, hits100), Some error) else best)"

definition getBest300s :: "int \<Rightarrow> int \<Rightarrow> rat \<Rightarrow> int \<times> int" where
  "getBest300s allObjects misses acc0 =
     (let acc = dbl (dbl (acc0 * of_int allObjects) * 6);
          intAcc = int32 (java_round acc);
          aomm = int32 (allObjects - misses);
          guess300s = int32 (java_round (dbl (dbl (acc - of_int aomm) / 5)))
      in fst (fold (best_step acc intAcc aomm)
                [max 0 (int32 (guess300s - 1))..min aomm (int32 (guess300s + 1))] ((0, 0), None)))"

definition closest :: "int \<Rightarrow> int \<Rightarrow> rat \<Rightarrow> accuracy_distribution" where
  "closest allObjects misses acc =
     (let (best300s, best100s) = getBest300s allObjects misses acc
      in \<lparr>x300 = best300s, x100 = best100s,
          x50 = int32 (int32 (int32 (allObjects - best300s) - best100s) - misses), miss = misses\<rparr>)"

text \<open>The polynomial for the share of fifties. Its coefficients are the doubles next to the decimals.\<close>

definition model50s :: "rat \<Rightarrow> rat" where
  "model50s x =
     (let y = dbl (dbl (- 5845461042897 / 10 ^ 12) * x);
          y = dbl (dbl (y + dbl (241586850677877 / 10 ^ 13)) * x);
          y = dbl (dbl (y - dbl (38565985189941 / 10 ^ 12)) * x);
          y = dbl (dbl (y + dbl (303957245438448 / 10 ^ 13)) * x);
          y = dbl (dbl (y - dbl (125511536341837 / 10 ^ 13)) * x)
      in dbl (y + dbl (24081902553891 / 10 ^ 13)))"

text \<open>\<open>UserException.validateInclusiveBetween\<close>: the bounds, the value and what it is.\<close>

datatype out_of_range = OutOfRange string rat rat rat

definition validateInclusiveBetween :: "rat \<Rightarrow> rat \<Rightarrow> rat \<Rightarrow> string \<Rightarrow> out_of_range + unit" where
  "validateInclusiveBetween lower upper actual desc =
     (if actual < lower \<or> actual > upper then Inl (OutOfRange desc lower upper actual) else Inr ())"

text \<open>Without the three assertions. If all objects are missed, the accuracy is zero and the relative accuracy
  no number, so that all roundings give zero.\<close>

definition model_distribution :: "int \<Rightarrow> int \<Rightarrow> rat \<Rightarrow> accuracy_distribution" where
  "model_distribution allObjects misses acc =
     (if allObjects = misses then \<lparr>x300 = 0, x100 = 0, x50 = 0, miss = misses\<rparr>
      else
        let n = int32 (allObjects - misses);
            racc = dbl (acc * dbl (of_int allObjects / dbl (of_int allObjects - of_int misses)));
            f50 = model50s racc;
            h50 = int32 (java_round (dbl (f50 * of_int n)));
            share = dbl (dbl (dbl (dbl (3 * racc) / 2) + dbl (f50 / 4)) - 1 / 2);
            h300 = int32 (java_round (dbl (share * of_int n)))
        in \<lparr>x300 = h300, x100 = int32 (int32 (n - h300) - h50), x50 = h50, miss = misses\<rparr>)"

definition model ::
  "(int \<Rightarrow> int \<Rightarrow> int \<Rightarrow> int \<Rightarrow> rat) \<Rightarrow> int \<Rightarrow> int \<Rightarrow> rat \<Rightarrow> out_of_range + accuracy_distribution" where
  "model getAccuracy allObjects misses acc =
     (case validateInclusiveBetween 1 (2 ^ 31 - 1) (of_int allObjects) ''all object count'' of
        Inl e \<Rightarrow> Inl e
      | Inr _ \<Rightarrow>
          (case validateInclusiveBetween 0 (of_int allObjects) (of_int misses) ''number of misses'' of
             Inl e \<Rightarrow> Inl e
           | Inr _ \<Rightarrow>
               (case validateInclusiveBetween
                       (dbl (100 * getAccuracy 0 0 (int32 (allObjects - misses)) misses))
                       (dbl (100 * getAccuracy (int32 (allObjects - misses)) 0 0 misses))
                       (dbl (100 * acc)) ''accuracy'' of
                  Inl e \<Rightarrow> Inl e
                | Inr _ \<Rightarrow> Inr (model_distribution allObjects misses acc))))"

section \<open>Plays\<close>

text \<open>A play, and its points: the accuracy is their share of six per object.\<close>

definition play :: "int \<Rightarrow> int \<Rightarrow> accuracy_distribution \<Rightarrow> bool" where
  "play allObjects misses d \<longleftrightarrow> 0 \<le> x300 d \<and> 0 \<le> x100 d \<and> 0 \<le> x50 d \<and> miss d = misses
     \<and> x300 d + x100 d + x50 d + miss d = allObjects"

definition points :: "accuracy_distribution \<Rightarrow> int" where
  "points d = 6 * x300 d + 2 * x100 d + x50 d"

section \<open>The search for the closest distribution\<close>

text \<open>The points that \<open>i\<close> hits of 300 leave open, and the best of them.\<close>

definition clamped :: "int \<Rightarrow> int \<Rightarrow> int \<Rightarrow> int" where
  "clamped n t i = min (2 * n + 4 * i) (max (n + 5 * i) t)"

lemma best_step_exact:
  assumes "0 \<le> n" "6 * n < 2 ^ 31" "0 \<le> i" "i \<le> n" "- (2 ^ 31) \<le> t" "t < 2 ^ 31"
  shows "best_step a t n i best =
    (let p = ((i, clamped n t i - (n + 5 * i)), Some (\<bar>dbl (a - of_int (clamped n t i))\<bar>))
     in case snd best of None \<Rightarrow> p | Some e \<Rightarrow> if \<bar>dbl (a - of_int (clamped n t i))\<bar> < e then p else best)"
proof -
  have "int32 (i * 5) = i * 5" "int32 (n + i * 5) = n + i * 5" "int32 (2 * n) = 2 * n" "int32 (i * 4) = i * 4"
    "int32 (2 * n + i * 4) = 2 * n + i * 4"
    using assms by (simp_all add: int32_id)
  moreover have "int32 (clamped n t i - (n + 5 * i)) = clamped n t i - (n + 5 * i)"
    using assms by (intro int32_id) (simp_all add: clamped_def)
  ultimately show ?thesis
    by (simp add: best_step_def Let_def clamped_def mult.commute [of i] split: option.split)
qed

text \<open>What a fold over candidates ends with: the first with the least error.\<close>

lemma fold_best:
  assumes "\<And>i b. i \<in> set is \<Longrightarrow> f i b =
      (case snd b of None \<Rightarrow> ((i, g i), Some (err i)) | Some e \<Rightarrow> if err i < e then ((i, g i), Some (err i)) else b)"
    and "snd b = None \<or> (\<exists>j. b = ((j, g j), Some (err j)) \<and> P j)" and "\<And>i. i \<in> set is \<Longrightarrow> P i"
    and "is \<noteq> [] \<or> snd b \<noteq> None"
  shows "\<exists>j. P j \<and> fold f is b = ((j, g j), Some (err j)) \<and> (\<forall>i \<in> set is. err j \<le> err i)
    \<and> (\<forall>e. snd b = Some e \<longrightarrow> err j \<le> (e :: rat))"
  using assms
proof (induction "is" arbitrary: b)
  case (Cons i "is")
  let ?b = "f i b"
  have step: "?b = ((i, g i), Some (err i)) \<and> (\<forall>e. snd b = Some e \<longrightarrow> err i \<le> e)
      \<or> (\<exists>e. ?b = b \<and> snd b = Some e \<and> e \<le> err i)"
    using Cons.prems(1) [of i b] by (auto split: option.splits)
  then have "\<exists>j. P j \<and> fold f is ?b = ((j, g j), Some (err j)) \<and> (\<forall>i \<in> set is. err j \<le> err i)
      \<and> (\<forall>e. snd ?b = Some e \<longrightarrow> err j \<le> e)"
    by (intro Cons.IH) (use Cons.prems in auto)
  then show ?case using step by fastforce
qed auto

text \<open>No other number of points that \<open>i\<close> hits of 300 allow is closer than \<open>clamped\<close>.\<close>

lemma clamped_bounds: "i \<le> n \<Longrightarrow> n + 5 * i \<le> clamped n t i \<and> clamped n t i \<le> 2 * n + 4 * i"
  by (simp add: clamped_def)

lemma clamped_cases:
  assumes "i \<le> n"
  obtains "clamped n t i = t" | "clamped n t i = n + 5 * i" "t < n + 5 * i" | "clamped n t i = 2 * n + 4 * i" "2 * n + 4 * i < t"
  using assms by (cases "t < n + 5 * i"; cases "2 * n + 4 * i < t") (auto simp: clamped_def)

lemma nearest: "\<bar>a - of_int t\<bar> \<le> 1 / 2 \<Longrightarrow> \<bar>a - of_int t\<bar> \<le> \<bar>a - of_int s :: rat\<bar>"
proof (cases "s = t")
  case False
  assume "\<bar>a - of_int t\<bar> \<le> 1 / 2"
  moreover have "(1 :: rat) \<le> of_int \<bar>s - t\<bar>" using False by simp
  then have "1 \<le> \<bar>(of_int s :: rat) - of_int t\<bar>" by simp
  ultimately show ?thesis by linarith
qed simp

lemma clamped_best:
  assumes "i \<le> n" and "\<bar>a - of_int t\<bar> \<le> 1 / 2" and "n + 5 * i \<le> s" and "s \<le> 2 * n + 4 * i"
  shows "\<bar>a - of_int (clamped n t i)\<bar> \<le> \<bar>a - of_int s :: rat\<bar>"
  using assms(1)
proof (cases rule: clamped_cases [of i n t])
  case 1
  then show ?thesis using nearest [OF assms(2)] by simp
next
  case 2
  have "(of_int (t + 1) :: rat) \<le> of_int (n + 5 * i)" "(of_int (n + 5 * i) :: rat) \<le> of_int s"
    using 2 assms(3) by (simp_all only: of_int_le_iff)
  then show ?thesis using assms(2) unfolding 2(1) of_int_add by linarith
next
  case 3
  have "(of_int (2 * n + 4 * i + 1) :: rat) \<le> of_int t" "(of_int s :: rat) \<le> of_int (2 * n + 4 * i)"
    using 3 assms(4) by (simp_all only: of_int_le_iff)
  then show ?thesis using assms(2) unfolding 3(1) of_int_add by linarith
qed

text \<open>One of the candidates around the guess \<open>g\<close> is at least as close as any play.\<close>

lemma candidate_best:
  assumes "0 \<le> n" "- 1 \<le> g" "g \<le> n" and "\<bar>5 * of_int g - (a - of_int n)\<bar> \<le> 13 / 5" and "\<bar>a - of_int t\<bar> \<le> 1 / 2"
    and "0 \<le> j" "j \<le> n" "n + 5 * j \<le> s" "s \<le> 2 * n + 4 * j"
  shows "\<exists>i \<in> {max 0 (g - 1)..min n (g + 1)}. \<bar>a - of_int (clamped n t i)\<bar> \<le> \<bar>a - of_int s :: rat\<bar>"
proof -
  consider "g - 1 \<le> j" "j \<le> g + 1" | "g + 2 \<le> j" | "j \<le> g - 2" by linarith
  then show ?thesis
  proof cases
    case 1
    then show ?thesis using assms(6,7) clamped_best [OF assms(7,5,8,9)] by (intro bexI [of _ j]) auto
  next
    case 2
    have "n + 5 * (g + 2) \<le> s" using 2 assms(8) by presburger
    then have "(of_int (n + 5 * (g + 2)) :: rat) \<le> of_int s" by (simp only: of_int_le_iff)
    then have "\<bar>a - of_int (n + 5 * (g + 1))\<bar> \<le> \<bar>a - of_int s\<bar>"
      using assms(4) unfolding of_int_add of_int_mult of_int_numeral of_int_1 distrib_left by linarith
    moreover have "\<bar>a - of_int (clamped n t (g + 1))\<bar> \<le> \<bar>a - of_int (n + 5 * (g + 1))\<bar>"
      by (rule clamped_best [OF _ assms(5)]) (use 2 assms(7) in presburger)+
    ultimately show ?thesis using 2 assms(2,7) by (intro bexI [of _ "g + 1"]) auto
  next
    case 3
    have "\<bar>a - of_int (clamped n t (g - 1))\<bar> \<le> \<bar>a - of_int s\<bar>"
    proof (cases "n + 5 * (g - 1) \<le> s")
      case True
      then show ?thesis by (intro clamped_best [OF _ assms(5)]) (use 3 True assms(3,9) in presburger)+
    next
      case False
      have "(of_int s :: rat) \<le> of_int (n + 5 * (g - 1))" using False by (simp only: of_int_le_iff)
      then have "\<bar>a - of_int (n + 5 * (g - 1))\<bar> \<le> \<bar>a - of_int s\<bar>"
        using assms(4) unfolding of_int_add of_int_diff of_int_mult of_int_numeral of_int_1 right_diff_distrib by linarith
      moreover have "\<bar>a - of_int (clamped n t (g - 1))\<bar> \<le> \<bar>a - of_int (n + 5 * (g - 1))\<bar>"
        by (rule clamped_best [OF _ assms(5)]) (use 3 assms(3) in presburger)+
      ultimately show ?thesis by linarith
    qed
    then show ?thesis using 3 assms(3,6) by (intro bexI [of _ "g - 1"]) auto
  qed
qed

lemma dbl_abs: "\<bar>dbl x\<bar> = dbl \<bar>x\<bar>"
  using dbl_nonneg [of x] dbl_nonneg [of "- x"] by (cases "0 \<le> x") (auto simp: dbl_minus)

lemma dbl_abs_mono: "\<bar>x\<bar> \<le> \<bar>y\<bar> \<Longrightarrow> \<bar>dbl x\<bar> \<le> \<bar>dbl y\<bar>"
  by (simp add: dbl_abs dbl_mono)

lemma dbl_small: "\<bar>x\<bar> \<le> 4294967296 \<Longrightarrow> \<bar>dbl x - x\<bar> \<le> 1 / 1000"
proof -
  assume "\<bar>x\<bar> \<le> 4294967296"
  then have "\<bar>x\<bar> / 2 ^ 53 \<le> 4294967296 / 2 ^ 53" by (rule divide_right_mono) simp
  also have "\<dots> \<le> (1 / 1000 :: rat)" by simp
  finally show ?thesis using dbl_error [of x] by linarith
qed

lemma java_round_error: "\<bar>of_int (java_round x) - x\<bar> \<le> 1 / 2"
  unfolding java_round_def by linarith

lemma java_round_int32: "- 2147483648 < x \<Longrightarrow> x < 2147483647 \<Longrightarrow> int32 (java_round x) = java_round x"
proof (rule int32_id)
  assume "- 2147483648 < x" "x < 2147483647"
  then have "- 2147483648 \<le> java_round x" "java_round x < 2147483648"
    using java_round_error [of x] by linarith+
  then show "- (2 ^ 31) \<le> java_round x" "java_round x < 2 ^ 31" by simp_all
qed

text \<open>The scaled accuracy \<open>a\<close> and the guess \<open>g\<close> of the search, for an accuracy of about \<open>p\<close> points of \<open>n\<close> hits.\<close>

lemma search_numbers:
  assumes "0 \<le> n" "n \<le> all" "all < 2 ^ 28" "0 \<le> acc" "acc * of_int all * 6 \<le> of_int (6 * n + 1)"
  defines "a \<equiv> dbl (dbl (acc * of_int all) * 6)"
  defines "g \<equiv> int32 (java_round (dbl (dbl (a - of_int n) / 5)))"
  shows "\<bar>a - acc * of_int all * 6\<bar> \<le> 1 / 100" "0 \<le> a" "a < 2147483646"
    "\<bar>5 * of_int g - (a - of_int n)\<bar> \<le> 13 / 5" "g \<le> n" "- 536870912 < g"
proof -
  define p where "p = acc * of_int all"
  have "0 \<le> n" "n < 268435456" using assms(1-3) by simp_all
  then have n: "(0 :: rat) \<le> of_int n" "of_int n < (268435456 :: rat)" by linarith+
  have p: "0 \<le> p" "6 * p \<le> 6 * of_int n + 1" using assms by (simp_all add: p_def)
  have 1: "\<bar>dbl p - p\<bar> \<le> 1 / 1000" by (rule dbl_small) (use p n in linarith)
  have "\<bar>dbl p * 6\<bar> \<le> 4294967296" using 1 p n by linarith
  then have 2: "\<bar>a - dbl p * 6\<bar> \<le> 1 / 1000" unfolding a_def p_def [symmetric] by (rule dbl_small)
  show a: "\<bar>a - acc * of_int all * 6\<bar> \<le> 1 / 100" using 1 2 unfolding p_def [symmetric] by linarith
  show pos: "0 \<le> a" unfolding a_def p_def [symmetric] by (intro dbl_nonneg mult_nonneg_nonneg p) simp
  have top: "a \<le> 6 * of_int n + 101 / 100" using 1 2 p by linarith
  then show "a < 2147483646" using n by linarith
  define y where "y = dbl (a - of_int n)"
  have small: "\<bar>a - of_int n\<bar> \<le> 2147483648" using top pos n by linarith
  then have y: "\<bar>y - (a - of_int n)\<bar> \<le> 1 / 1000" unfolding y_def by (intro dbl_small) linarith
  have z: "\<bar>dbl (y / 5) - y / 5\<bar> \<le> 1 / 1000" by (rule dbl_small) (use y small in linarith)
  have g: "g = java_round (dbl (y / 5))"
    unfolding g_def y_def [symmetric] by (rule java_round_int32) (use z y small in linarith)+
  note r = java_round_error [of "dbl (y / 5)", folded g]
  show "\<bar>5 * of_int g - (a - of_int n)\<bar> \<le> 13 / 5" using r z y by linarith
  have "of_int g < (of_int n :: rat) + 1" using r z y top by linarith
  then show "g \<le> n" by linarith
  have "(- 536870912 :: rat) < of_int g" using r z y pos n by linarith
  then show "- 536870912 < g" by linarith
qed

text \<open>How far the points of a distribution are from the accuracy, as the program measures it.\<close>

definition points_error :: "int \<Rightarrow> rat \<Rightarrow> accuracy_distribution \<Rightarrow> rat" where
  "points_error allObjects acc d =
     \<bar>dbl (dbl (dbl (acc * of_int allObjects) * 6) - of_int (points d))\<bar>"

lemma play_points:
  assumes "play all misses d"
  shows "0 \<le> x300 d" "x300 d \<le> all - misses" "all - misses + 5 * x300 d \<le> points d"
    "points d \<le> 2 * (all - misses) + 4 * x300 d"
  using assms by (auto simp: play_def points_def)

lemma search_result:
  assumes "0 \<le> misses" "misses \<le> all" "all < 2 ^ 28" "0 \<le> acc"
    and "acc * of_int all * 6 \<le> of_int (6 * (all - misses) + 1)"
  obtains j h where "getBest300s all misses acc = (j, h)" "0 \<le> j" "j \<le> all - misses" "0 \<le> h" "h \<le> all - misses - j"
    and "\<And>d. play all misses d \<Longrightarrow>
      \<bar>dbl (dbl (dbl (acc * of_int all) * 6) - of_int (all - misses + 5 * j + h))\<bar> \<le> points_error all acc d"
proof -
  define n where "n = all - misses"
  define a where "a = dbl (dbl (acc * of_int all) * 6)"
  define t where "t = int32 (java_round a)"
  define g where "g = int32 (java_round (dbl (dbl (a - of_int n) / 5)))"
  define cands where "cands = [max 0 (g - 1)..min n (g + 1)]"
  let ?err = "\<lambda>i. \<bar>dbl (a - of_int (clamped n t i))\<bar>"
  have n: "0 \<le> n" "n \<le> all" "6 * n < 2 ^ 31" "int32 (all - misses) = n"
    using assms(1-3) by (simp_all add: n_def int32_id)
  note nums = search_numbers [OF n(1,2) assms(3,4), folded n_def, OF assms(5) [folded n_def], folded a_def, folded g_def]
  have t: "t = java_round a" "\<bar>a - of_int t\<bar> \<le> 1 / 2"
    using java_round_int32 [of a] java_round_error [of a] nums(2,3) unfolding t_def by (simp, linarith)
  have "- 2147483648 \<le> t" "t < 2147483648" using t(2) nums(2,3) by linarith+
  then have step: "best_step a t n i b =
      (case snd b of None \<Rightarrow> ((i, clamped n t i - (n + 5 * i)), Some (?err i))
       | Some e \<Rightarrow> if ?err i < e then ((i, clamped n t i - (n + 5 * i)), Some (?err i)) else b)"
    if "i \<in> set cands" for i b
    using that n by (subst best_step_exact) (auto simp: cands_def Let_def)
  have "n < 268435456" using assms(3) n(2) by simp
  then have g: "int32 (g - 1) = g - 1" "int32 (g + 1) = g + 1"
    using nums(5,6) by (simp_all add: int32_id)
  have run: "getBest300s all misses acc = fst (fold (best_step a t n) cands ((0, 0), None))"
    by (simp add: getBest300s_def Let_def n(4) a_def [symmetric] t_def [symmetric] g_def [symmetric] g cands_def)
  show thesis
  proof (cases "- 1 \<le> g")
    case True
    then have "cands \<noteq> []" using n(1) nums(5) by (simp add: cands_def)
    then obtain j where j: "j \<in> set cands" "fold (best_step a t n) cands ((0, 0), None) =
        ((j, clamped n t j - (n + 5 * j)), Some (?err j))" "\<forall>i \<in> set cands. ?err j \<le> ?err i"
      using fold_best [of cands "best_step a t n" "\<lambda>i. clamped n t i - (n + 5 * i)" ?err "((0, 0), None)"
          "\<lambda>j. j \<in> set cands"] step by auto
    have best: "?err j \<le> points_error all acc d" if d: "play all misses d" for d
    proof -
      obtain i where "i \<in> set cands" "\<bar>a - of_int (clamped n t i)\<bar> \<le> \<bar>a - of_int (points d)\<bar>"
        using candidate_best [OF n(1) True nums(5,4) t(2) play_points [OF d, folded n_def]] by (auto simp: cands_def)
      then show ?thesis
        using j(3) dbl_abs_mono [of "a - of_int (clamped n t i)" "a - of_int (points d)"]
        by (fastforce simp: points_error_def a_def)
    qed
    have range: "0 \<le> j" "j \<le> n" using j(1) by (auto simp: cands_def)
    show thesis
      by (rule that [of j "clamped n t j - (n + 5 * j)"])
        (use run j(2) range clamped_bounds [OF range(2), of t] best in \<open>simp_all add: n_def [symmetric] a_def [symmetric]\<close>)
  next
    case False
    then have low: "a \<le> of_int n" using nums(4) by linarith
    have "cands = []" using False by (simp add: cands_def)
    then have "getBest300s all misses acc = (0, 0)" using run by simp
    moreover have "\<bar>dbl (a - of_int n)\<bar> \<le> points_error all acc d" if d: "play all misses d" for d
    proof -
      have "n \<le> points d" using play_points [OF d] by (simp add: n_def)
      then have "(of_int n :: rat) \<le> of_int (points d)" by (simp only: of_int_le_iff)
      then have "\<bar>a - of_int n\<bar> \<le> \<bar>a - of_int (points d)\<bar>" using low by linarith
      then show ?thesis unfolding points_error_def a_def [symmetric] by (rule dbl_abs_mono)
    qed
    ultimately show thesis using that [of 0 0] n(1) by (simp add: n_def [symmetric] a_def [symmetric])
  qed
qed

text \<open>The search is right: for an accuracy that a play can have (up to a sixth of a hit) the result is a play
  with the given misses, and none with these misses is closer to the accuracy, as doubles measure it. So
  an accuracy that belongs to a play up to an eighth of a point gives a play of exactly the same points, and
  thereby of the same accuracy.\<close>

theorem closest_optimal:
  assumes "0 \<le> misses" "misses \<le> all" "all < 2 ^ 28" "0 \<le> acc"
    and "acc * of_int all * 6 \<le> of_int (6 * (all - misses) + 1)"
  shows "play all misses (closest all misses acc)
    \<and> (play all misses d \<longrightarrow> points_error all acc (closest all misses acc) \<le> points_error all acc d)
    \<and> (play all misses d \<and> \<bar>acc * of_int all * 6 - of_int (points d)\<bar> \<le> 1 / 8 \<longrightarrow>
         points (closest all misses acc) = points d)"
proof -
  obtain j h where search: "getBest300s all misses acc = (j, h)" "0 \<le> j" "j \<le> all - misses" "0 \<le> h" "h \<le> all - misses - j"
    and best: "\<And>d. play all misses d \<Longrightarrow>
      \<bar>dbl (dbl (dbl (acc * of_int all) * 6) - of_int (all - misses + 5 * j + h))\<bar> \<le> points_error all acc d"
    by (rule search_result [OF assms]) blast
  let ?c = "closest all misses acc" and ?a = "dbl (dbl (acc * of_int all) * 6)"
  have c: "?c = \<lparr>x300 = j, x100 = h, x50 = all - j - h - misses, miss = misses\<rparr>"
    using search assms(1-3) by (simp add: closest_def int32_id)
  then have "points ?c = all - misses + 5 * j + h" by (simp add: points_def)
  then have opt: "points_error all acc ?c \<le> points_error all acc d" if "play all misses d" for d
    using best [OF that] by (simp add: points_error_def)
  have ok: "play all misses ?c" using c search by (simp add: play_def)
  have same: "points ?c = points d" if d: "play all misses d" "\<bar>acc * of_int all * 6 - of_int (points d)\<bar> \<le> 1 / 8"
  proof -
    have n: "0 \<le> all - misses" "all - misses \<le> all" using assms(1,2) by auto
    note a = search_numbers [OF n assms(3-5)]
    have "\<bar>?a - of_int (points d)\<bar> \<le> 14 / 100" using a(1) d(2) by linarith
    moreover from this have "\<bar>dbl (?a - of_int (points d)) - (?a - of_int (points d))\<bar> \<le> 1 / 1000"
      by (intro dbl_small) linarith
    moreover have "points_error all acc ?c \<le> \<bar>dbl (?a - of_int (points d))\<bar>"
      using opt [OF d(1)] by (simp add: points_error_def)
    moreover have "\<bar>dbl (?a - of_int (points ?c)) - (?a - of_int (points ?c))\<bar> \<le> 1 / 1000"
    proof (rule dbl_small)
      have all: "all < 268435456" using assms(3) by simp
      have "0 \<le> points ?c" "points ?c \<le> 6 * all" using ok assms(1) by (auto simp: play_def points_def)
      then have "(0 :: rat) \<le> of_int (points ?c)" "(of_int (points ?c) :: rat) < 2147483647"
        using all by linarith+
      then show "\<bar>?a - of_int (points ?c)\<bar> \<le> 4294967296" using a(2,3) by linarith
    qed
    ultimately have "\<bar>(of_int (points ?c) :: rat) - of_int (points d)\<bar> < 1"
      unfolding points_error_def by linarith
    then show ?thesis by linarith
  qed
  show ?thesis using ok opt same by blast
qed

lemma closest_optimal_witness:
  "points (closest 10 2 (9 / 20)) = 27 \<and> play 10 2 \<lparr>x300 = 3, x100 = 4, x50 = 1, miss = 2\<rparr>"
  using closest_optimal [of 2 10 "9 / 20" "\<lparr>x300 = 3, x100 = 4, x50 = 1, miss = 2\<rparr>"]
  by (simp add: play_def points_def)

text \<open>An accuracy that no play can have is another matter: the loop has no turn, and the result is the play
  with the least accuracy instead of the greatest.\<close>

lemma closest_unattainable: "closest 100 50 (3 / 5) = \<lparr>x300 = 0, x100 = 0, x50 = 50, miss = 50\<rparr>"
  by code_simp

end
