(* ===== verification/Acc_Argument.thy ===== *)
theory Acc_Argument
  imports Now_Playing Accuracy Predicates
begin

text \<open>
  The argument of \<open>!acc\<close> (\<open>handlers/AccHandler\<close>): two regular expressions, an accuracy in percent, and
  what is made of them.
\<close>

section \<open>The regular expressions\<close>

definition blank :: "char \<Rightarrow> bool" where
  "blank c \<longleftrightarrow> (of_char c :: nat) \<in> {9, 10, 11, 12, 13, 32}"

text \<open>\<open>\s+\<close>, \<open>\d+\<close>, and a text in any case.\<close>

definition blanks :: "string \<Rightarrow> string option" where
  "blanks s = (if takeWhile blank s = [] then None else Some (dropWhile blank s))"

definition digits :: "string \<Rightarrow> (string \<times> string) option" where
  "digits s = (if takeWhile decimal s = [] then None else Some (takeWhile decimal s, dropWhile decimal s))"

definition any_case :: "string \<Rightarrow> string \<Rightarrow> string option" where
  "any_case p s = (if to_lower (take (length p) s) = p then Some (drop (length p) s) else None)"

text \<open>\<open>\d+(?:\.\d+)?\<close>\<close>

definition fraction :: "string \<Rightarrow> (string \<times> string) option" where
  "fraction s =
     (case digits s of
        Some (d, c # r) \<Rightarrow>
          if c \<noteq> CHR ''.'' then Some (d, c # r)
          else (case digits r of None \<Rightarrow> Some (d, c # r) | Some (f, r') \<Rightarrow> Some (d @ c # f, r'))
      | x \<Rightarrow> x)"

text \<open>\<open>(\d+)x\s+(\d+)m\<close> to the end.\<close>

definition combo_misses :: "string \<Rightarrow> (string \<times> string) option" where
  "combo_misses s =
     Option.bind (digits s) (\<lambda>(combo, s).
       Option.bind (any_case ''x'' s) (\<lambda>s.
         Option.bind (blanks s) (\<lambda>s.
           Option.bind (digits s) (\<lambda>(misses, s).
             if any_case ''m'' s = Some [] then Some (combo, misses) else None))))"

definition extended :: "string \<Rightarrow> (string \<times> string \<times> string) option" where
  "extended s =
     Option.bind (fraction s) (\<lambda>(acc, s).
       Option.bind (blanks (if startsWith s ''%'' then drop 1 s else s)) (\<lambda>s.
         map_option (Pair acc) (combo_misses s)))"

text \<open>\<open>(?:(\d+)x50\s+)?\<close>, if it is there.\<close>

definition read_fifties :: "string \<Rightarrow> (string \<times> string) option" where
  "read_fifties s = Option.bind (digits s) (\<lambda>(h50, s).
     Option.bind (any_case ''x50'' s) (\<lambda>s. map_option (Pair h50) (blanks s)))"

definition superExtended :: "string \<Rightarrow> (string \<times> string option \<times> string \<times> string) option" where
  "superExtended s =
     Option.bind (digits s) (\<lambda>(h100, s).
       Option.bind (any_case ''x100'' s) (\<lambda>s.
         Option.bind (blanks s) (\<lambda>s.
           (case read_fifties s of
              None \<Rightarrow> map_option (\<lambda>r. (h100, None, r)) (combo_misses s)
            | Some (h50, s) \<Rightarrow> map_option (\<lambda>r. (h100, Some h50, r)) (combo_misses s)))))"

section \<open>Numbers\<close>

text \<open>The texts of the language that the commands on songs need.\<close>

record song_texts =
  noLastSongInfo :: string
  excuseForError :: string
  invalidAccuracy :: "string \<Rightarrow> string"
  malformattedMods :: "string \<Rightarrow> string"
  noInformationForMods :: string
  noInformationForModsShort :: string
  noRecentPlays :: string
  unknownBeatmap :: string

definition parseAcc :: "(string \<Rightarrow> number option) \<Rightarrow> song_texts \<Rightarrow> string \<Rightarrow> throwable + rat" where
  "parseAcc parseDouble texts s =
     (case parseDouble s of
        Some (Finite acc) \<Rightarrow>
          if dbl (acc * 6) > 100 \<and> acc \<le> 100 then Inr (dbl (of_int (java_round (dbl (acc * 100))) / 10000))
          else Inl (UserExn (invalidAccuracy texts s))
      | _ \<Rightarrow> Inl (UserExn (invalidAccuracy texts s)))"

text \<open>\<open>AccHandler.parseInt\<close>, of digits.\<close>

definition acc_int :: "lang \<Rightarrow> string \<Rightarrow> throwable + int" where
  "acc_int l s = (case np_number s of Inr i \<Rightarrow> Inr i | Inl _ \<Rightarrow> Inl (UserExn (invalidChoice l s ''1, 2, 3, ...'')))"

definition sum_bind :: "'e + 'a \<Rightarrow> ('a \<Rightarrow> 'e + 'b) \<Rightarrow> 'e + 'b" where
  "sum_bind r f = (case r of Inl e \<Rightarrow> Inl e | Inr x \<Rightarrow> f x)"

text \<open>What the performance is wanted for: an accuracy, with combo and misses or without; numbers of hits of 100
  and 50, combo and misses; or the usual accuracies.\<close>

datatype hits =
    UsualHits | AccHits rat | AccComboMisses rat int int | HitCounts int int int int

definition acc_hits :: "(string \<Rightarrow> number option) \<Rightarrow> song_texts \<Rightarrow> lang \<Rightarrow> string \<Rightarrow> throwable + hits" where
  "acc_hits parseDouble texts l message =
     (case extended message of
        Some (a, c, m) \<Rightarrow>
          sum_bind (parseAcc parseDouble texts a) (\<lambda>acc.
            sum_bind (acc_int l c) (\<lambda>combo.
              sum_bind (acc_int l m) (\<lambda>misses. Inr (AccComboMisses acc combo misses))))
      | None \<Rightarrow>
          (case superExtended message of
             Some (h100, h50, c, m) \<Rightarrow>
               sum_bind (acc_int l h100) (\<lambda>n100.
                 sum_bind (case h50 of None \<Rightarrow> Inr 0 | Some h \<Rightarrow> acc_int l h) (\<lambda>n50.
                   sum_bind (acc_int l c) (\<lambda>combo.
                     sum_bind (acc_int l m) (\<lambda>misses. Inr (HitCounts n100 n50 combo misses)))))
           | None \<Rightarrow>
               sum_bind
                 (parseAcc parseDouble texts
                   (if message \<noteq> [] \<and> last message = CHR ''%'' then butlast message else message))
                 (\<lambda>acc. Inr (AccHits acc))))"

section \<open>The language of the expressions\<close>

definition blank_text :: "string \<Rightarrow> bool" where
  "blank_text w \<longleftrightarrow> w \<noteq> [] \<and> list_all blank w"

definition starts :: "(char \<Rightarrow> bool) \<Rightarrow> string \<Rightarrow> bool" where
  "starts P s \<longleftrightarrow> s \<noteq> [] \<and> P (hd s)"

lemma starts_number: "ends_number r \<longleftrightarrow> \<not> starts decimal r"
  by (auto simp: ends_number_def starts_def)

lemma digits_iff: "digits s = Some (d, r) \<longleftrightarrow> s = d @ r \<and> number d \<and> \<not> starts decimal r"
proof
  assume "digits s = Some (d, r)"
  then have "takeWhile decimal s \<noteq> []" "d = takeWhile decimal s" "r = dropWhile decimal s"
    by (auto simp: digits_def split: if_splits)
  then show "s = d @ r \<and> number d \<and> \<not> starts decimal r"
    using number_split [of s] by (simp add: starts_number)
next
  assume "s = d @ r \<and> number d \<and> \<not> starts decimal r"
  then show "digits s = Some (d, r)"
    using number_span [of d r] by (auto simp: digits_def starts_number number_def)
qed

lemma blanks_iff: "blanks s = Some r \<longleftrightarrow> (\<exists>w. s = w @ r \<and> blank_text w) \<and> \<not> starts blank r"
proof
  assume "blanks s = Some r"
  then have "takeWhile blank s \<noteq> []" and r: "r = dropWhile blank s" by (auto simp: blanks_def split: if_splits)
  then have "s = takeWhile blank s @ r \<and> blank_text (takeWhile blank s)"
    using span_split [of s blank] by (auto simp: blank_text_def)
  moreover have "\<not> starts blank r" using span_split [of s blank] by (auto simp: r starts_def)
  ultimately show "(\<exists>w. s = w @ r \<and> blank_text w) \<and> \<not> starts blank r" by blast
next
  assume "(\<exists>w. s = w @ r \<and> blank_text w) \<and> \<not> starts blank r"
  then obtain w where w: "s = w @ r" "blank_text w" "\<not> starts blank r" by blast
  then have "takeWhile blank s = w" "dropWhile blank s = r"
    using span [of blank w r] by (auto simp: blank_text_def starts_def)
  then show "blanks s = Some r" using w(2) by (simp add: blanks_def blank_text_def)
qed

lemma any_case_iff: "any_case p s = Some r \<longleftrightarrow> (\<exists>q. s = q @ r \<and> to_lower q = p)"
proof
  assume "any_case p s = Some r"
  then have "to_lower (take (length p) s) = p" "s = take (length p) s @ r"
    by (auto simp: any_case_def split: if_splits)
  then show "\<exists>q. s = q @ r \<and> to_lower q = p" by blast
next
  assume "\<exists>q. s = q @ r \<and> to_lower q = p"
  then obtain q where "s = q @ r" "to_lower q = p" by blast
  moreover from this have "length q = length p" using length_to_lower [of q] by simp
  ultimately show "any_case p s = Some r" by (simp add: any_case_def)
qed

text \<open>A letter of a unit follows a number and precedes blanks.\<close>

lemma decimal_chars: "decimal c \<Longrightarrow> \<not> blank c \<and> c \<noteq> CHR ''.'' \<and> c \<noteq> CHR ''%''"
  by (auto simp: decimal_def blank_def)

lemma blank_chars: "blank c \<Longrightarrow> \<not> decimal c \<and> c \<noteq> CHR ''.'' \<and> c \<noteq> CHR ''%''"
  by (auto simp: decimal_def blank_def)

lemma lower_x: "to_lower q = CHR ''x'' # p \<Longrightarrow> \<not> starts decimal (q @ r)"
  by (cases q) (auto simp: starts_def decimal_def to_lower_def)

lemma lower_m: "to_lower q = CHR ''m'' # p \<Longrightarrow> \<not> starts decimal (q @ r)"
  by (cases q) (auto simp: starts_def decimal_def to_lower_def)

lemma number_start: "number d \<Longrightarrow> starts decimal (d @ r) \<and> \<not> starts blank (d @ r)"
  using decimal_chars by (cases d) (auto simp: number_def starts_def)

lemma blank_start: "blank_text w \<Longrightarrow> starts blank (w @ r) \<and> \<not> starts decimal (w @ r)"
  using blank_chars by (cases w) (auto simp: blank_text_def starts_def)

text \<open>The text of \<open>combo_misses\<close>.\<close>

definition combo_text :: "string \<Rightarrow> string \<Rightarrow> string \<Rightarrow> bool" where
  "combo_text c m s \<longleftrightarrow> (\<exists>x w k. s = c @ x @ w @ m @ k \<and> number c \<and> to_lower x = ''x'' \<and> blank_text w
     \<and> number m \<and> to_lower k = ''m'')"

lemma combo_misses_iff: "combo_misses s = Some (c, m) \<longleftrightarrow> combo_text c m s"
proof
  assume "combo_misses s = Some (c, m)"
  then show "combo_text c m s"
    by (fastforce simp: combo_misses_def combo_text_def Option.bind_eq_Some_conv digits_iff blanks_iff any_case_iff
        split: if_splits)
next
  assume "combo_text c m s"
  then obtain x w k where t: "s = c @ x @ w @ m @ k" "number c" "to_lower x = ''x''" "blank_text w" "number m" "to_lower k = ''m''"
    by (auto simp: combo_text_def)
  have "digits s = Some (c, x @ w @ m @ k)" using t lower_x [of x "[]"] by (simp add: digits_iff)
  moreover have "any_case ''x'' (x @ w @ m @ k) = Some (w @ m @ k)" using t(3) any_case_iff by blast
  moreover have "blanks (w @ m @ k) = Some (m @ k)" using t(4) number_start [OF t(5)] blanks_iff by blast
  moreover have "digits (m @ k) = Some (m, k)" using t(5,6) lower_m [of k "[]" "[]"] by (simp add: digits_iff)
  moreover have "any_case ''m'' k = Some []" using t(6) any_case_iff [of "''m''" k "[]"] by simp
  ultimately show "combo_misses s = Some (c, m)" by (simp add: combo_misses_def)
qed

lemma combo_start: "combo_text c m s \<Longrightarrow> starts decimal s \<and> \<not> starts blank s"
  using number_start by (auto simp: combo_text_def)

definition fraction_text :: "string \<Rightarrow> bool" where
  "fraction_text a \<longleftrightarrow> number a \<or> (\<exists>d f. a = d @ CHR ''.'' # f \<and> number d \<and> number f)"

lemma fraction_text_read: "fraction s = Some (a, r) \<Longrightarrow> s = a @ r \<and> fraction_text a"
  by (auto simp: fraction_def fraction_text_def digits_iff split: option.splits list.splits if_splits prod.splits)

lemma fraction_read:
  assumes "fraction_text a" and "\<not> starts decimal r" and "\<not> starts (\<lambda>c. c = CHR ''.'') r"
  shows "fraction (a @ r) = Some (a, r)"
  using assms(1) unfolding fraction_text_def
proof (elim disjE exE conjE)
  assume "number a"
  then have "digits (a @ r) = Some (a, r)" using assms(2) by (simp add: digits_iff)
  then show ?thesis using assms(3) by (cases r) (simp_all add: fraction_def starts_def)
next
  fix d f
  assume a: "a = d @ CHR ''.'' # f" "number d" "number f"
  have "digits (a @ r) = Some (d, CHR ''.'' # f @ r)" using a by (simp add: digits_iff starts_def decimal_def)
  moreover have "digits (f @ r) = Some (f, r)" using a(3) assms(2) by (simp add: digits_iff)
  ultimately show ?thesis using a(1) by (simp add: fraction_def)
qed

lemma extended_iff:
  "extended s = Some (a, c, m) \<longleftrightarrow>
     (\<exists>pct w t. s = a @ pct @ w @ t \<and> fraction_text a \<and> pct \<in> {[], ''%''} \<and> blank_text w \<and> combo_text c m t)"
proof
  assume "extended s = Some (a, c, m)"
  then obtain r t where r: "fraction s = Some (a, r)" "blanks (if startsWith r ''%'' then drop 1 r else r) = Some t"
    "combo_misses t = Some (c, m)"
    by (auto simp: extended_def Option.bind_eq_Some_conv)
  from r(2) obtain w where w: "(if startsWith r ''%'' then drop 1 r else r) = w @ t" "blank_text w"
    using blanks_iff by blast
  have "\<exists>pct. pct \<in> {[], ''%''} \<and> r = pct @ w @ t"
    using w(1) by (cases r) (auto simp: startsWith_def split: if_splits)
  then show "\<exists>pct w t. s = a @ pct @ w @ t \<and> fraction_text a \<and> pct \<in> {[], ''%''} \<and> blank_text w \<and> combo_text c m t"
    using fraction_text_read [OF r(1)] w(2) r(3) combo_misses_iff by metis
next
  assume "\<exists>pct w t. s = a @ pct @ w @ t \<and> fraction_text a \<and> pct \<in> {[], ''%''} \<and> blank_text w \<and> combo_text c m t"
  then obtain pct w t where t: "s = a @ pct @ w @ t" "fraction_text a" "pct \<in> {[], ''%''}" "blank_text w" "combo_text c m t"
    by blast
  obtain b w' where b: "w = b # w'" "blank b" using t(4) by (cases w) (auto simp: blank_text_def)
  have "\<not> starts decimal (pct @ w @ t)" "\<not> starts (\<lambda>c. c = CHR ''.'') (pct @ w @ t)"
    using t(3) b blank_chars [OF b(2)] by (auto simp: starts_def decimal_def)
  then have "fraction s = Some (a, pct @ w @ t)" unfolding t(1) by (rule fraction_read [OF t(2)])
  moreover have "(if startsWith (pct @ w @ t) ''%'' then drop 1 (pct @ w @ t) else pct @ w @ t) = w @ t"
    using t(3) b blank_chars [OF b(2)] by (auto simp: startsWith_def)
  moreover have "blanks (w @ t) = Some t" using t(4) combo_start [OF t(5)] blanks_iff by blast
  moreover have "combo_misses t = Some (c, m)" using t(5) combo_misses_iff by blast
  ultimately show "extended s = Some (a, c, m)" by (simp add: extended_def)
qed

text \<open>The part of the second expression between the hits of 100 and the combo.\<close>

definition fifties_text :: "string option \<Rightarrow> string \<Rightarrow> string \<Rightarrow> bool" where
  "fifties_text f t u \<longleftrightarrow>
     (case f of None \<Rightarrow> t = u
      | Some h \<Rightarrow> \<exists>y v. t = h @ y @ v @ u \<and> number h \<and> to_lower y = ''x50'' \<and> blank_text v)"

lemma read_fifties_some: "read_fifties t = Some (h, u) \<Longrightarrow> fifties_text (Some h) t u"
  by (fastforce simp: read_fifties_def fifties_text_def Option.bind_eq_Some_conv digits_iff any_case_iff blanks_iff)

lemma read_fifties_text:
  assumes "fifties_text f t u" and "combo_text c m u"
  shows "read_fifties t = (case f of None \<Rightarrow> None | Some h \<Rightarrow> Some (h, u))"
proof (cases f)
  case None
  obtain x w r where u: "t = c @ x @ w @ r" "number c" "to_lower x = ''x''" "blank_text w"
    using assms None by (auto simp: combo_text_def fifties_text_def)
  obtain b w' where b: "w = b # w'" "blank b" using u(4) by (cases w) (auto simp: blank_text_def)
  obtain x' where x: "x = [x']" using u(3) by (cases x) (auto simp: to_lower_def)
  have "digits t = Some (c, x @ w @ r)" using u lower_x [of x "[]"] by (simp add: digits_iff)
  moreover have "any_case ''x50'' (x @ w @ r) = None"
    using b blank_chars [OF b(2)] by (auto simp: any_case_def x to_lower_def Let_def decimal_def blank_def split: if_splits)
  ultimately show ?thesis using None by (simp add: read_fifties_def)
next
  case (Some h)
  then obtain y v where t: "t = h @ y @ v @ u" "number h" "to_lower y = ''x50''" "blank_text v"
    using assms(1) by (auto simp: fifties_text_def)
  have "digits t = Some (h, y @ v @ u)" using t lower_x [of y "''50''"] by (simp add: digits_iff)
  moreover have "any_case ''x50'' (y @ v @ u) = Some (v @ u)" using t(3) any_case_iff by blast
  moreover have "blanks (v @ u) = Some u" using t(4) combo_start [OF assms(2)] blanks_iff by blast
  ultimately show ?thesis using Some by (simp add: read_fifties_def)
qed

lemma superExtended_iff:
  "superExtended s = Some (h, f, c, m) \<longleftrightarrow>
     (\<exists>x w t u. s = h @ x @ w @ t \<and> number h \<and> to_lower x = ''x100'' \<and> blank_text w \<and> fifties_text f t u
        \<and> combo_text c m u)" (is "_ \<longleftrightarrow> ?text")
proof
  assume "superExtended s = Some (h, f, c, m)"
  then obtain h' r r' t where r: "digits s = Some (h', r)" "any_case ''x100'' r = Some r'" "blanks r' = Some t"
    and t: "(case read_fifties t of None \<Rightarrow> map_option (\<lambda>r. (h', None, r)) (combo_misses t)
            | Some (h50, s) \<Rightarrow> map_option (\<lambda>r. (h', Some h50, r)) (combo_misses s)) = Some (h, f, c, m)"
    by (auto simp: superExtended_def Option.bind_eq_Some_conv)
  have "h' = h" using t by (auto split: option.splits)
  have "\<exists>u. fifties_text f t u \<and> combo_text c m u"
    using t read_fifties_some [of t] by (auto simp: combo_misses_iff fifties_text_def split: option.splits)
  then show ?text using r \<open>h' = h\<close> by (fastforce simp: digits_iff any_case_iff blanks_iff)
next
  assume ?text
  then obtain x w t u where t: "s = h @ x @ w @ t" "number h" "to_lower x = ''x100''" "blank_text w" "fifties_text f t u"
    "combo_text c m u"
    by blast
  have "digits s = Some (h, x @ w @ t)" using t lower_x [of x "''100''"] by (simp add: digits_iff)
  moreover have "any_case ''x100'' (x @ w @ t) = Some (w @ t)" using t(3) any_case_iff by blast
  moreover have "\<not> starts blank t"
    using t(5) combo_start [OF t(6)] number_start by (auto simp: fifties_text_def split: option.splits)
  then have "blanks (w @ t) = Some t" using t(4) blanks_iff by blast
  moreover have "combo_misses u = Some (c, m)" using t(6) combo_misses_iff by blast
  ultimately show "superExtended s = Some (h, f, c, m)"
    using read_fifties_text [OF t(5,6)] t(5)
    by (auto simp: superExtended_def fifties_text_def split: option.splits)
qed

section \<open>What is read\<close>

text \<open>An accuracy that is typed with two decimals, from 16.67 to 100 percent, is the share that was typed.\<close>

lemma parse_hundredths:
  assumes "parseDouble s = Some (Finite (dbl (of_int k / 100)))" and "1667 \<le> k" and "k \<le> 10000"
  shows "parseAcc parseDouble texts s = Inr (dbl (of_int k / 10000))"
proof -
  let ?d = "dbl (of_int k / 100)"
  have k: "(1667 :: rat) \<le> of_int k" "of_int k \<le> (10000 :: rat)" using assms(2,3) by linarith+
  have d: "\<bar>?d - of_int k / 100\<bar> \<le> 1 / 1000" by (rule dbl_small) (use k in linarith)
  have "dbl (of_int k / 100) \<le> dbl (of_int 100)" by (rule dbl_mono) (use k in linarith)+
  then have "?d \<le> 100" using dbl_int [of 100] by simp
  moreover have "\<bar>dbl (?d * 6) - ?d * 6\<bar> \<le> 1 / 1000" by (rule dbl_small) (use d k in linarith)
  then have "100 < dbl (?d * 6)" using d k by linarith
  moreover have "\<bar>dbl (?d * 100) - ?d * 100\<bar> \<le> 1 / 1000" by (rule dbl_small) (use d k in linarith)
  then have "java_round (dbl (?d * 100)) = k" unfolding java_round_def using d by linarith
  ultimately show ?thesis using assms(1) by (simp add: parseAcc_def)
qed

text \<open>An accuracy alone is neither of the two expressions, which have blanks.\<close>

lemma fraction_text_chars: "fraction_text a \<Longrightarrow> \<forall>c \<in> set a. decimal c \<or> c = CHR ''.''"
  by (auto simp: fraction_text_def number_def list_all_iff)

lemma accuracy_no_blank:
  assumes "c \<in> set (a @ pct)" and "fraction_text a" and "pct \<in> {[], ''%''}"
  shows "\<not> blank c"
proof -
  have "decimal c \<or> c = CHR ''.'' \<or> c = CHR ''%''" using assms fraction_text_chars [OF assms(2)] by auto
  then show ?thesis using decimal_chars [of c] by (elim disjE) (blast, simp_all add: blank_def)
qed

lemma accuracy_alone:
  assumes "fraction_text a" and "pct \<in> {[], ''%''}"
  shows "extended (a @ pct) = None" "superExtended (a @ pct) = None"
proof -
  have blank_in: "\<exists>c \<in> set w. blank c" if "blank_text w" for w
    using that by (cases w) (auto simp: blank_text_def)
  have no: "\<nexists>c. c \<in> set (a @ pct) \<and> blank c" using accuracy_no_blank assms by blast
  show "extended (a @ pct) = None"
  proof (rule ccontr)
    assume "extended (a @ pct) \<noteq> None"
    then obtain x c m where "extended (a @ pct) = Some (x, c, m)" by auto
    then obtain p w t where "a @ pct = x @ p @ w @ t" "blank_text w" unfolding extended_iff by blast
    then show False using blank_in [of w] no by (metis Un_iff set_append)
  qed
  show "superExtended (a @ pct) = None"
  proof (rule ccontr)
    assume "superExtended (a @ pct) \<noteq> None"
    then obtain h f c m where "superExtended (a @ pct) = Some (h, f, c, m)" by auto
    then obtain x w t where "a @ pct = h @ x @ w @ t" "blank_text w" unfolding superExtended_iff by blast
    then show False using blank_in [of w] no by (metis Un_iff set_append)
  qed
qed

lemma no_percent:
  assumes "fraction_text a"
  shows "a \<noteq> [] \<and> last a \<noteq> CHR ''%''"
proof -
  have a: "a \<noteq> []" using assms by (auto simp: fraction_text_def number_def)
  then have "decimal (last a) \<or> last a = CHR ''.''" using fraction_text_chars [OF assms] last_in_set by blast
  then show ?thesis using a decimal_chars [of "last a"] by (elim disjE) (blast, simp)
qed

text \<open>The two expressions exclude each other: after the first number, one has a unit and the other has not.\<close>

lemma super_not_extended:
  assumes "superExtended s = Some q"
  shows "extended s = None"
proof (rule ccontr)
  assume "extended s \<noteq> None"
  then obtain a c m where "extended s = Some (a, c, m)" by auto
  then obtain p w t where e: "s = a @ p @ w @ t" "fraction_text a" "p \<in> {[], ''%''}" "blank_text w"
    unfolding extended_iff by blast
  obtain h f c' m' where "superExtended s = Some (h, f, c', m')" using assms by (cases q) auto
  then obtain x v u where x: "s = h @ x @ v @ u" "number h" "to_lower x = ''x100''"
    unfolding superExtended_iff by blast
  obtain x0 xs where x0: "x = x0 # xs" "to_lower [x0] = ''x''" using x(3) by (cases x) (auto simp: to_lower_def)
  have h: "takeWhile (\<lambda>c. decimal c) s = h" "dropWhile decimal s = x @ v @ u"
    using number_span [of h "x @ v @ u"] x lower_x [of x "''100''" "v @ u"] by (auto simp: starts_number)
  obtain b w' where b: "w = b # w'" "blank b" using e(4) by (cases w) (auto simp: blank_text_def)
  have rest: "\<not> starts decimal (p @ w @ t)" using e(3) b blank_chars [OF b(2)] by (auto simp: starts_def decimal_def)
  have x0': "x0 \<noteq> CHR ''.''" "x0 \<noteq> CHR ''%''" "\<not> blank x0"
    using x0(2) by (auto simp: to_lower_def blank_def)
  have x0_hd: "hd (dropWhile decimal s) = x0" by (simp add: h x0)
  from e(2) show False unfolding fraction_text_def
  proof (elim disjE exE conjE)
    assume "number a"
    then have "dropWhile decimal s = p @ w @ t" using number_span [of a "p @ w @ t"] rest by (simp add: starts_number e(1))
    then show False using x0_hd x0' e(3) b by auto
  next
    fix d f assume "a = d @ CHR ''.'' # f" "number d"
    then have "dropWhile decimal s = CHR ''.'' # f @ p @ w @ t"
      using number_span [of d "CHR ''.'' # f @ p @ w @ t"] by (simp add: starts_number e(1) starts_def decimal_def)
    then show False using x0_hd x0' by simp
  qed
qed

lemma acc_int_number: "np_number s = Inr i \<Longrightarrow> acc_int l s = Inr i"
  by (simp add: acc_int_def)

lemma hits_accuracy:
  assumes "parseDouble a = Some (Finite (dbl (of_int k / 100)))" and "1667 \<le> k" and "k \<le> 10000"
    and "fraction_text a" and "pct \<in> {[], ''%''}"
  shows "acc_hits parseDouble texts l (a @ pct) = Inr (AccHits (dbl (of_int k / 10000)))"
proof -
  have "parseAcc parseDouble texts a = Inr (dbl (of_int k / 10000))"
    using assms(1-3) by (rule parse_hundredths)
  moreover have "(if a @ pct \<noteq> [] \<and> last (a @ pct) = CHR ''%'' then butlast (a @ pct) else a @ pct) = a"
    using no_percent [OF assms(4)] assms(5) by auto
  ultimately show ?thesis
    using accuracy_alone [OF assms(4,5)] by (simp add: acc_hits_def sum_bind_def)
qed

lemma hits_combo:
  assumes "parseDouble a = Some (Finite (dbl (of_int k / 100)))" and "1667 \<le> k" and "k \<le> 10000"
    and "fraction_text a" and "pct \<in> {[], ''%''}" and "blank_text w"
    and "combo_text c m t" and "np_number c = Inr combo" and "np_number m = Inr misses"
  shows "acc_hits parseDouble texts l (a @ pct @ w @ t) = Inr (AccComboMisses (dbl (of_int k / 10000)) combo misses)"
proof -
  have "parseAcc parseDouble texts a = Inr (dbl (of_int k / 10000))"
    using assms(1-3) by (rule parse_hundredths)
  moreover have "extended (a @ pct @ w @ t) = Some (a, c, m)"
    unfolding extended_iff using assms(4-7) by blast
  ultimately show ?thesis
    using acc_int_number [OF assms(8)] acc_int_number [OF assms(9)] by (simp add: acc_hits_def sum_bind_def)
qed

lemma hits_counts:
  assumes "number h" and "np_number h = Inr n100" and "to_lower x = ''x100''" and "blank_text w" and "fifties_text f u t"
    and "(case f of None \<Rightarrow> Inr 0 | Some x \<Rightarrow> np_number x) = Inr n50"
    and "combo_text c m t" and "np_number c = Inr combo" and "np_number m = Inr misses"
  shows "acc_hits parseDouble texts l (h @ x @ w @ u) = Inr (HitCounts n100 n50 combo misses)"
proof -
  have s: "superExtended (h @ x @ w @ u) = Some (h, f, c, m)"
    unfolding superExtended_iff using assms(1,3,4,5,7) by blast
  have "(case f of None \<Rightarrow> Inr 0 | Some x \<Rightarrow> acc_int l x) = Inr n50"
    using assms(6) acc_int_number by (cases f) auto
  then show ?thesis
    using super_not_extended [OF s] s acc_int_number [OF assms(2)] acc_int_number [OF assms(8)] acc_int_number [OF assms(9)]
    by (cases f) (simp_all add: acc_hits_def sum_bind_def)
qed

text \<open>C22. The argument of \<open>!acc\<close> is read in all its forms: an accuracy of two decimals, with or without the
  sign of percent, is taken exactly as it was typed, alone or with a combo and misses; the numbers of hits
  of 100 and 50, the combo and the misses, with units in any case, are taken as they are. The greedy
  expressions accept exactly these texts.\<close>

theorem acc_argument_read:
  assumes "parseDouble a = Some (Finite (dbl (of_int k / 100)))" and "1667 \<le> k" and "k \<le> 10000"
    and "fraction_text a" and "pct \<in> {[], ''%''}"
    and "combo_text c m t" and "np_number c = Inr combo" and "np_number m = Inr misses"
    and "number h" and "np_number h = Inr n100" and "fifties_text f u t"
    and "(case f of None \<Rightarrow> Inr 0 | Some x \<Rightarrow> np_number x) = Inr n50"
    and "blank_text w" and "to_lower x = ''x100''"
  shows "acc_hits parseDouble texts l (a @ pct) = Inr (AccHits (dbl (of_int k / 10000)))
    \<and> acc_hits parseDouble texts l (a @ pct @ w @ t) = Inr (AccComboMisses (dbl (of_int k / 10000)) combo misses)
    \<and> acc_hits parseDouble texts l (h @ x @ w @ u) = Inr (HitCounts n100 n50 combo misses)
    \<and> (extended s \<noteq> None \<longleftrightarrow> (\<exists>a pct w c m t. s = a @ pct @ w @ t \<and> fraction_text a \<and> pct \<in> {[], ''%''}
         \<and> blank_text w \<and> combo_text c m t))
    \<and> (superExtended s \<noteq> None \<longleftrightarrow> (\<exists>h x w f u c m t. s = h @ x @ w @ u \<and> number h \<and> to_lower x = ''x100''
         \<and> blank_text w \<and> fifties_text f u t \<and> combo_text c m t))"
proof (intro conjI)
  show "acc_hits parseDouble texts l (a @ pct) = Inr (AccHits (dbl (of_int k / 10000)))"
    by (rule hits_accuracy) (rule assms)+
  show "acc_hits parseDouble texts l (a @ pct @ w @ t) = Inr (AccComboMisses (dbl (of_int k / 10000)) combo misses)"
    by (rule hits_combo) (rule assms)+
  show "acc_hits parseDouble texts l (h @ x @ w @ u) = Inr (HitCounts n100 n50 combo misses)"
    by (rule hits_counts) (rule assms)+
  show "extended s \<noteq> None \<longleftrightarrow> (\<exists>a pct w c m t. s = a @ pct @ w @ t \<and> fraction_text a \<and> pct \<in> {[], ''%''}
         \<and> blank_text w \<and> combo_text c m t)"
  proof -
    have "extended s \<noteq> None \<longleftrightarrow> (\<exists>a c m. extended s = Some (a, c, m))" by auto
    then show ?thesis unfolding extended_iff by blast
  qed
  show "superExtended s \<noteq> None \<longleftrightarrow> (\<exists>h x w f u c m t. s = h @ x @ w @ u \<and> number h \<and> to_lower x = ''x100''
         \<and> blank_text w \<and> fifties_text f u t \<and> combo_text c m t)"
  proof -
    have "superExtended s \<noteq> None \<longleftrightarrow> (\<exists>h f c m. superExtended s = Some (h, f, c, m))" by auto
    then show ?thesis unfolding superExtended_iff by blast
  qed
qed


section \<open>Example\<close>

definition example_texts :: song_texts where
  "example_texts = \<lparr>noLastSongInfo = ''no song'', excuseForError = ''sorry'', invalidAccuracy = (\<lambda>s. s),
     malformattedMods = (\<lambda>s. s), noInformationForMods = ''no mods'', noInformationForModsShort = ''no mods'',
     noRecentPlays = ''no plays'', unknownBeatmap = ''unknown''\<rparr>"

definition example_double :: "string \<Rightarrow> number option" where
  "example_double s = (if s = ''98.5'' then Some (Finite (dbl (9850 / 100))) else None)"

lemma acc_argument_read_witness:
  "\<forall>l. acc_hits example_double example_texts l ''98.5% 300x  2M'' = Inr (AccComboMisses (dbl (9850 / 10000)) 300 2)
    \<and> acc_hits example_double example_texts l ''8x100 300x  2M'' = Inr (HitCounts 8 0 300 2)"
proof
  fix l
  have low: "to_lower ''M'' = ''m''" by code_simp
  have "combo_text ''300'' ''2'' ''300x  2M''"
    unfolding combo_text_def
    by (rule exI [of _ "''x''"], rule exI [of _ "''  ''"], rule exI [of _ "''M''"])
      (simp add: low, simp add: number_def decimal_def to_lower_def blank_text_def blank_def)
  moreover have "np_number ''300'' = Inr 300" "np_number ''2'' = Inr 2" "np_number ''8'' = Inr 8" by code_simp+
  moreover have "fraction_text ''98.5''"
    unfolding fraction_text_def
    by (rule disjI2, rule exI [of _ "''98''"], rule exI [of _ "''5''"]) (simp add: number_def decimal_def)
  ultimately show "acc_hits example_double example_texts l ''98.5% 300x  2M'' = Inr (AccComboMisses (dbl (9850 / 10000)) 300 2)
    \<and> acc_hits example_double example_texts l ''8x100 300x  2M'' = Inr (HitCounts 8 0 300 2)"
    using acc_argument_read [of example_double "''98.5''" 9850 "''%''" "''300''" "''2''" "''300x  2M''" 300 2
        "''8''" 8 None "''300x  2M''" 0 "'' ''" "''x100''" example_texts l "[]"]
    by (simp add: example_double_def number_def decimal_def fifties_text_def blank_text_def blank_def to_lower_def)
qed

end
