(* ===== verification/Accuracy_Model.thy ===== *)
theory Accuracy_Model
  imports Accuracy
begin

text \<open>
  The fitted model of \<open>AccuracyDistribution\<close> has the accuracy that it promises. The polynomial is bounded by
  its coefficients in the basis of Bernstein, and rounding moves it by less than can be seen.
\<close>

section \<open>The polynomial\<close>

definition fifties :: "rat \<Rightarrow> rat" where
  "fifties x = ((((- 5845461042897 / 10 ^ 12 * x + 241586850677877 / 10 ^ 13) * x - 38565985189941 / 10 ^ 12) * x
     + 303957245438448 / 10 ^ 13) * x - 125511536341837 / 10 ^ 13) * x + 24081902553891 / 10 ^ 13"

text \<open>The basis on the interval from a sixth to one, for \<open>t\<close> from zero to one and \<open>u = 1 - t\<close>.\<close>

lemma fifties_bernstein:
  assumes "u = 1 - t"
  shows "fifties (1 / 6 + 5 / 6 * t) =
    2159999999999999 / 2160000000000000 * u ^ 5
    + 63340285736893 / 480000000000000 * (5 * t * u ^ 4)
    + 71149556799257 / 240000000000000 * (10 * t ^ 2 * u ^ 3)
    + 398985899473 / 4000000000000 * (10 * t ^ 3 * u ^ 2)
    + 502250596507 / 60000000000000 * (5 * t ^ 4 * u)
    - 1 / 10000000000000 * t ^ 5"
  unfolding assms fifties_def by algebra

lemma bernstein_parts:
  assumes "u = (1 - t :: rat)"
  shows "u ^ 5 + 5 * t * u ^ 4 + 10 * t ^ 2 * u ^ 3 + 10 * t ^ 3 * u ^ 2 + 5 * t ^ 4 * u + t ^ 5 = 1"
    and "5 * t * u ^ 4 + 2 * (10 * t ^ 2 * u ^ 3) + 3 * (10 * t ^ 3 * u ^ 2) + 4 * (5 * t ^ 4 * u) + 5 * t ^ 5 = 5 * t"
    and "2 * (5 * t * u ^ 4) + 3 * (10 * t ^ 2 * u ^ 3) + 3 * (10 * t ^ 3 * u ^ 2) + 2 * (5 * t ^ 4 * u) = 10 * (t * u)"
  unfolding assms by algebra+

lemma fifties_bounds:
  assumes "0 \<le> t" "t \<le> 1"
  defines "f \<equiv> fifties (1 / 6 + 5 / 6 * t)"
  shows "- 1 / 1000000000000 \<le> f" "f \<le> 1 - t + 1 / 1000000000000"
    "- 1 / 1000000000000 \<le> 5 / 4 * t + f / 4 - 1 / 4"
    "5 / 4 * t + f / 4 - 1 / 4 \<le> t + 1 / 1000000000000"
    "t * (1 - t) - 1 / 1000000000000 \<le> 5 / 4 - 5 / 4 * t - 5 / 4 * f"
proof -
  define u where "u = 1 - t"
  note eqs = fifties_bernstein [OF u_def] bernstein_parts [OF u_def]
  define b0 b1 b2 b3 b4 b5 where b: "b0 = u ^ 5" "b1 = 5 * t * u ^ 4" "b2 = 10 * t ^ 2 * u ^ 3"
    "b3 = 10 * t ^ 3 * u ^ 2" "b4 = 5 * t ^ 4 * u" "b5 = t ^ 5"
  have "0 \<le> t" "0 \<le> u" using assms(1,2) by (simp_all add: u_def)
  then have pos: "0 \<le> b0" "0 \<le> b1" "0 \<le> b2" "0 \<le> b3" "0 \<le> b4" "0 \<le> b5" by (simp_all add: b)
  have tu: "t * (1 - t) = t * u" by (simp add: u_def)
  note eqs = eqs [folded b, folded f_def] pos
  show "- 1 / 1000000000000 \<le> f" using eqs by linarith
  show "f \<le> 1 - t + 1 / 1000000000000" using eqs by linarith
  show "- 1 / 1000000000000 \<le> 5 / 4 * t + f / 4 - 1 / 4" using eqs by linarith
  show "5 / 4 * t + f / 4 - 1 / 4 \<le> t + 1 / 1000000000000" using eqs by linarith
  show "t * (1 - t) - 1 / 1000000000000 \<le> 5 / 4 - 5 / 4 * t - 5 / 4 * f" unfolding tu using eqs by linarith
qed

section \<open>Rounding\<close>

lemma dbl_tiny: "\<bar>x\<bar> \<le> 200 \<Longrightarrow> \<bar>dbl x - x\<bar> \<le> 1 / 10000000000000"
proof -
  assume "\<bar>x\<bar> \<le> 200"
  then have "\<bar>x\<bar> / 2 ^ 53 \<le> 200 / 2 ^ 53" by (rule divide_right_mono) simp
  also have "\<dots> \<le> (1 / 10000000000000 :: rat)" by simp
  finally show ?thesis using dbl_error [of x] by linarith
qed

text \<open>A step of Horner's scheme: \<open>w\<close> and \<open>x\<close> as computed, \<open>v\<close> and \<open>y\<close> as they should be.\<close>

lemma dbl_times:
  assumes "0 \<le> x" "x \<le> 101 / 100" "\<bar>x - y\<bar> \<le> e" "\<bar>w - v\<bar> \<le> d" "d \<le> 1" "\<bar>v\<bar> \<le> 118"
  shows "\<bar>dbl (w * x) - v * y\<bar> \<le> 101 / 100 * d + 1 / 10000000000000 + 118 * e"
proof -
  have x: "\<bar>x\<bar> \<le> 101 / 100" using assms(1,2) by linarith
  have "\<bar>(w - v) * x\<bar> \<le> d * (101 / 100)"
    unfolding abs_mult by (rule mult_mono [OF assms(4) x]) (use assms(4) in linarith)+
  moreover have "\<bar>v * (x - y)\<bar> \<le> 118 * e"
    unfolding abs_mult by (rule mult_mono [OF assms(6,3)]) simp_all
  moreover have "w * x - v * y = (w - v) * x + v * (x - y)" by (simp add: algebra_simps)
  ultimately have prod: "\<bar>w * x - v * y\<bar> \<le> 101 / 100 * d + 118 * e" by linarith
  have "\<bar>w\<bar> \<le> 119" using assms(4-6) by linarith
  then have "\<bar>w * x\<bar> \<le> 119 * (101 / 100)" unfolding abs_mult by (rule mult_mono [OF _ x]) simp_all
  then have "\<bar>dbl (w * x) - w * x\<bar> \<le> 1 / 10000000000000" by (intro dbl_tiny) linarith
  then show ?thesis using prod by linarith
qed

lemma dbl_plus:
  assumes "\<bar>u - v\<bar> \<le> d" "d \<le> 1" "\<bar>v + c\<bar> \<le> 118" "\<bar>c\<bar> \<le> 40"
  shows "\<bar>dbl (u + dbl c) - (v + c)\<bar> \<le> d + 2 / 10000000000000"
proof -
  have "\<bar>dbl c - c\<bar> \<le> 1 / 10000000000000" by (rule dbl_tiny) (use assms(4) in linarith)
  moreover from this have "\<bar>dbl (u + dbl c) - (u + dbl c)\<bar> \<le> 1 / 10000000000000"
    by (intro dbl_tiny) (use assms in linarith)
  ultimately show ?thesis using assms(1) by linarith
qed

lemma abs_prod: "\<bar>a\<bar> \<le> b \<Longrightarrow> 0 \<le> y \<Longrightarrow> y \<le> 1 \<Longrightarrow> \<bar>a * y\<bar> \<le> (b :: rat)"
  unfolding abs_mult using mult_mono [of "\<bar>a\<bar>" b "\<bar>y\<bar>" 1] by simp

lemma horner_step:
  assumes "0 \<le> x" "x \<le> 101 / 100" "\<bar>x - y\<bar> \<le> e" "0 \<le> y" "y \<le> 1" "e \<le> 1 / 1000"
    and "\<bar>u - v\<bar> \<le> a + b * e" "\<bar>v\<bar> \<le> m" "\<bar>c\<bar> \<le> k" "0 \<le> b" "a \<le> 1 / 100" "b \<le> 800" "k \<le> 40" "m + k \<le> 118"
  shows "101 / 100 * a + 4 / 10000000000000 \<le> a' \<Longrightarrow> 101 / 100 * b + 118 \<le> b' \<Longrightarrow>
      \<bar>dbl (dbl (u + dbl c) * x) - (v + c) * y\<bar> \<le> a' + b' * e" and "m + k \<le> m' \<Longrightarrow> \<bar>(v + c) * y\<bar> \<le> m'"
proof -
  have vc: "\<bar>v + c\<bar> \<le> m + k" using assms(8,9) by linarith
  then show "\<bar>(v + c) * y\<bar> \<le> m'" if "m + k \<le> m'" using abs_prod [OF vc assms(4,5)] that by linarith
  have vc: "\<bar>v + c\<bar> \<le> 118" using vc assms(14) by linarith
  have e: "0 \<le> e" using assms(3) by linarith
  have "b * e \<le> 800 * (1 / 1000)" by (rule mult_mono [OF assms(12,6) _ e]) simp
  then have d: "a + b * e \<le> 81 / 100" using assms(11) by linarith
  have "\<bar>dbl (u + dbl c) - (v + c)\<bar> \<le> a + b * e + 2 / 10000000000000"
    by (rule dbl_plus) (use assms(7,9,13) d vc in linarith)+
  then have "\<bar>dbl (dbl (u + dbl c) * x) - (v + c) * y\<bar> \<le> 101 / 100 * (a + b * e + 2 / 10000000000000) + 1 / 10000000000000 + 118 * e"
    using d vc by (intro dbl_times [OF assms(1-3)]) linarith+
  also have "\<dots> = 101 / 100 * a + 302 / 100 / 10000000000000 + (101 / 100 * b + 118) * e"
    by (simp add: field_simps)
  finally show "\<bar>dbl (dbl (u + dbl c) * x) - (v + c) * y\<bar> \<le> a' + b' * e"
    if "101 / 100 * a + 4 / 10000000000000 \<le> a'" "101 / 100 * b + 118 \<le> b'"
    using that(1) mult_right_mono [OF that(2) e] by linarith
qed

lemma model50s_error:
  assumes "0 \<le> y" "y \<le> 1" "0 \<le> x" "\<bar>x - y\<bar> \<le> e" "e \<le> 1 / 1000"
  shows "\<bar>model50s x - fifties y\<bar> \<le> 3 / 1000000000000 + 604 * e"
proof -
  have x: "x \<le> 101 / 100" and e: "0 \<le> e" using assms by linarith+
  define c5 c4 c3 c2 c1 c0 :: rat where c: "c5 = - 5845461042897 / 10 ^ 12" "c4 = 241586850677877 / 10 ^ 13"
    "c3 = 38565985189941 / 10 ^ 12" "c2 = 303957245438448 / 10 ^ 13" "c1 = 125511536341837 / 10 ^ 13" "c0 = 24081902553891 / 10 ^ 13"
  have bounds: "\<bar>c5\<bar> \<le> 6" "\<bar>c4\<bar> \<le> 25" "\<bar>- c3\<bar> \<le> 39" "\<bar>c2\<bar> \<le> 31" "\<bar>- c1\<bar> \<le> 13" "\<bar>c0\<bar> \<le> 3"
    by (simp_all add: c)
  define v1 v2 v3 v4 v5 where v: "v1 = c5 * y" "v2 = (v1 + c4) * y" "v3 = (v2 + - c3) * y" "v4 = (v3 + c2) * y" "v5 = (v4 + - c1) * y"
  define u1 u2 u3 u4 u5 where u: "u1 = dbl (dbl c5 * x)" "u2 = dbl (dbl (u1 + dbl c4) * x)" "u3 = dbl (dbl (u2 + dbl (- c3)) * x)"
    "u4 = dbl (dbl (u3 + dbl c2) * x)" "u5 = dbl (dbl (u4 + dbl (- c1)) * x)"
  note step = horner_step [OF assms(3) x assms(4,1,2,5)]
  have "\<bar>dbl c5 - c5\<bar> \<le> 1 / 10000000000000" by (rule dbl_tiny) (use bounds in linarith)
  then have e1: "\<bar>u1 - v1\<bar> \<le> 3 / 10000000000000 + 118 * e"
    using dbl_times [OF assms(3) x assms(4), of "dbl c5" c5] bounds(1) unfolding u v by fastforce
  have m1: "\<bar>v1\<bar> \<le> 6" unfolding v by (rule abs_prod [OF bounds(1) assms(1,2)])
  have "\<bar>u2 - v2\<bar> \<le> 8 / 10000000000000 + 238 * e" "\<bar>v2\<bar> \<le> 31"
    unfolding u(2) v(2) by (rule step [OF e1 m1 bounds(2)]; simp)+
  note 3 = step [OF this bounds(3)]
  have "\<bar>u3 - v3\<bar> \<le> 13 / 10000000000000 + 359 * e" "\<bar>v3\<bar> \<le> 70"
    unfolding u(3) v(3) by (rule 3; simp)+
  note 4 = step [OF this bounds(4)]
  have "\<bar>u4 - v4\<bar> \<le> 18 / 10000000000000 + 481 * e" "\<bar>v4\<bar> \<le> 101"
    unfolding u(4) v(4) by (rule 4; simp)+
  note 5 = step [OF this bounds(5)]
  have 6: "\<bar>u5 - v5\<bar> \<le> 23 / 10000000000000 + 604 * e" "\<bar>v5\<bar> \<le> 114"
    unfolding u(5) v(5) by (rule 5; simp)+
  have "\<bar>dbl (u5 + dbl c0) - (v5 + c0)\<bar> \<le> 23 / 10000000000000 + 604 * e + 2 / 10000000000000"
    by (rule dbl_plus [OF 6(1)]) (use 6 bounds assms(5) in linarith)+
  moreover have "model50s x = dbl (u5 + dbl c0)"
    unfolding model50s_def Let_def c [symmetric] u dbl_minus diff_conv_add_uminus by (rule refl)
  moreover have "fifties y = v5 + c0"
    unfolding fifties_def v diff_conv_add_uminus add_0 c [symmetric] by (simp add: c)
  ultimately show ?thesis by linarith
qed

section \<open>The accuracy of the model\<close>

lemma java_round_bounds: "x - 1 / 2 < of_int (java_round x)" "of_int (java_round x) \<le> x + 1 / 2"
  unfolding java_round_def by linarith+

text \<open>The roundings of the fifties and of the hits of 300 do not exceed the number of hits: where both could
  be rounded up together, there is none of one kind.\<close>

lemma rounded_counts:
  fixes n :: int and t F S X Z :: rat
  assumes "0 < n" "n < 268435456" "0 \<le> t" "t \<le> 1" "S = 5 / 4 * t + F / 4 - 1 / 4"
    and "- 1 / 1000000000000 \<le> F" "F \<le> 1 - t + 1 / 1000000000000"
    and "- 1 / 1000000000000 \<le> S" "S \<le> t + 1 / 1000000000000"
    and "t * (1 - t) - 1 / 1000000000000 \<le> 5 / 4 - 5 / 4 * t - 5 / 4 * F"
    and "\<bar>X - F * of_int n\<bar> \<le> 1 / 500" "\<bar>Z - S * of_int n\<bar> \<le> 1 / 500"
  shows "0 \<le> java_round X" "0 \<le> java_round Z" "java_round X + java_round Z \<le> n"
    and "\<bar>of_int (4 * java_round Z + 2 * n - java_round X) - 6 * (1 / 6 + 5 / 6 * t) * of_int n\<bar> \<le> 251 / 100"
proof -
  let ?N = "of_int n :: rat"
  note r = java_round_bounds [of X] java_round_bounds [of Z]
  have N: "0 < ?N" "?N < 268435456" using assms(1,2) by linarith+
  define T where "T = t * ?N"
  have scale: "a * ?N \<le> b * ?N" if "a \<le> b" for a b :: rat using that N(1) by (simp add: mult_right_mono)
  have F: "- 1 / 1000 \<le> F * ?N" "F * ?N \<le> ?N - T + 1 / 1000"
    using scale [OF assms(6)] scale [OF assms(7)] N unfolding T_def distrib_right left_diff_distrib by linarith+
  have S: "- 1 / 1000 \<le> S * ?N" "S * ?N \<le> T + 1 / 1000"
    using scale [OF assms(8)] scale [OF assms(9)] N unfolding T_def distrib_right by linarith+
  have SF: "4 * (S * ?N) = 5 * T + F * ?N - ?N" by (simp add: assms(5) T_def field_simps)
  have G: "t * (1 - t) * ?N - 1 / 1000 \<le> 5 / 4 * ?N - 5 / 4 * T - 5 / 4 * (F * ?N)"
    using scale [OF assms(10)] N unfolding T_def left_diff_distrib mult.assoc by linarith
  have tT: "t * (1 - t) * ?N = T * (1 - t)" by (simp add: T_def)
  have T: "0 \<le> T" "T \<le> ?N" using assms(3,4) N scale [of 0 t] scale [of t 1] by (simp_all add: T_def)
  show "0 \<le> java_round X" "0 \<le> java_round Z" using r F(1) S(1) assms(11,12) by linarith+
  show "java_round X + java_round Z \<le> n"
  proof (rule ccontr)
    assume "\<not> ?thesis"
    then have "n + 1 \<le> java_round X + java_round Z" by linarith
    then have "?N + 1 \<le> of_int (java_round X) + of_int (java_round Z)" by linarith
    then have "?N \<le> F * ?N + S * ?N + 1 / 250" using r assms(11,12) by linarith
    then have small: "T * (1 - t) \<le> 1 / 150" using G SF unfolding tT by linarith
    show False
    proof (cases "t \<le> 1 / 2")
      case True
      then have "T * (1 / 2) \<le> T * (1 - t)" using T(1) by (intro mult_left_mono) linarith+
      then have "java_round Z < 1" using small S(2) assms(12) r(4) by linarith
      moreover have "java_round X < n + 1" using F(2) T(1) assms(11) r(2) by linarith
      ultimately show False using \<open>n + 1 \<le> java_round X + java_round Z\<close> by linarith
    next
      case False
      have "(1 / 2) * ((1 - t) * ?N) \<le> t * ((1 - t) * ?N)"
        using False assms(4) N by (intro mult_right_mono mult_nonneg_nonneg) linarith+
      moreover have "T * (1 - t) = t * ((1 - t) * ?N)" "(1 - t) * ?N = ?N - T" by (simp_all add: T_def algebra_simps)
      ultimately have "?N - T \<le> 1 / 75" using small by linarith
      then have "java_round X < 1" using F(2) assms(11) r(2) by linarith
      moreover have "java_round Z < n + 1" using S(2) T(2) assms(12) r(4) by linarith
      ultimately show False using \<open>n + 1 \<le> java_round X + java_round Z\<close> by linarith
    qed
  qed
  have "6 * (1 / 6 + 5 / 6 * t) * ?N = ?N + 5 * T" by (simp add: T_def algebra_simps)
  then show "\<bar>of_int (4 * java_round Z + 2 * n - java_round X) - 6 * (1 / 6 + 5 / 6 * t) * ?N\<bar> \<le> 251 / 100"
    using r SF assms(11,12) unfolding of_int_add of_int_diff of_int_mult of_int_numeral by linarith
qed

text \<open>The relative accuracy, and the numbers of hits before they are rounded.\<close>

lemma relative_accuracy:
  assumes "0 < n" "n \<le> all" "all < 268435456" "0 \<le> acc" "acc * of_int all \<le> of_int n + 1 / 1000000"
  defines "r \<equiv> dbl (acc * dbl (of_int all / of_int n))"
  shows "\<bar>r * of_int n - acc * of_int all\<bar> \<le> 1 / 10000000" "0 \<le> r"
proof -
  let ?N = "of_int n :: rat" and ?A = "of_int all :: rat"
  have N: "0 < ?N" "?N < 268435456" "0 \<le> ?A" using assms(1-3) by linarith+
  define d where "d = dbl (?A / ?N)"
  have "0 \<le> ?A / ?N" using N by simp
  then have d0: "0 \<le> d" unfolding d_def by (rule dbl_nonneg)
  then show "0 \<le> r" unfolding r_def d_def [symmetric] using assms(4) by (intro dbl_nonneg mult_nonneg_nonneg)
  have p: "0 \<le> acc * ?A" using assms(4) N by simp
  have top: "acc * ?A \<le> 268435457" using assms(5) N by linarith
  have half: "x / 2 ^ 53 \<le> 1 / 25000000" if "x \<le> 268435460" for x :: rat
  proof -
    have "x / 2 ^ 53 \<le> 268435460 / 2 ^ 53" using that by (rule divide_right_mono) simp
    then show ?thesis by simp
  qed
  have "\<bar>d - ?A / ?N\<bar> \<le> \<bar>?A / ?N\<bar> / 2 ^ 53" unfolding d_def by (rule dbl_error)
  then have "\<bar>d - ?A / ?N\<bar> * (acc * ?N) \<le> \<bar>?A / ?N\<bar> / 2 ^ 53 * (acc * ?N)"
    using assms(4) N by (intro mult_right_mono) simp_all
  also have "\<dots> = acc * ?A / 2 ^ 53" using N by simp
  also have "\<dots> \<le> 1 / 25000000" using half top by simp
  finally have "\<bar>(d - ?A / ?N) * (acc * ?N)\<bar> \<le> 1 / 25000000"
    using assms(4) N by (simp add: abs_mult)
  moreover have "(d - ?A / ?N) * (acc * ?N) = acc * d * ?N - acc * ?A" using N by (simp add: field_simps)
  ultimately have 1: "\<bar>acc * d * ?N - acc * ?A\<bar> \<le> 1 / 25000000" by simp
  have q: "0 \<le> acc * d" using assms(4) d0 by simp
  have "\<bar>r - acc * d\<bar> \<le> \<bar>acc * d\<bar> / 2 ^ 53" unfolding r_def d_def [symmetric] by (rule dbl_error)
  then have "\<bar>r - acc * d\<bar> * ?N \<le> \<bar>acc * d\<bar> / 2 ^ 53 * ?N" using N by (intro mult_right_mono) simp_all
  also have "\<dots> = acc * d * ?N / 2 ^ 53" using q by simp
  also have "\<dots> \<le> 1 / 25000000" by (rule half) (use 1 top in linarith)
  finally have "\<bar>(r - acc * d) * ?N\<bar> \<le> 1 / 25000000" using N by (simp add: abs_mult)
  then have "\<bar>r * ?N - acc * d * ?N\<bar> \<le> 1 / 25000000" by (simp add: left_diff_distrib)
  then show "\<bar>r * ?N - acc * ?A\<bar> \<le> 1 / 10000000" using 1 by linarith
qed

lemma scaled_rounding:
  assumes "0 < n" "n < 268435456" "\<bar>x - y\<bar> * of_int n \<le> d" "\<bar>y\<bar> \<le> 2" "d \<le> 1"
  shows "\<bar>dbl (x * of_int n) - y * of_int n\<bar> \<le> d + 1 / 1000000"
proof -
  let ?N = "of_int n :: rat"
  have N: "0 < ?N" "?N < 268435456" using assms(1,2) by linarith+
  have 1: "\<bar>x * ?N - y * ?N\<bar> \<le> d"
    using assms(3) N by (simp add: abs_mult left_diff_distrib [symmetric])
  have "\<bar>y * ?N\<bar> \<le> 2 * 268435456" unfolding abs_mult by (rule mult_mono [OF assms(4)]) (use N in simp_all)
  then have "\<bar>x * ?N\<bar> \<le> 536870913" using 1 assms(5) by linarith
  then have "\<bar>x * ?N\<bar> / 2 ^ 53 \<le> 536870913 / 2 ^ 53" by (rule divide_right_mono) simp
  then have "\<bar>x * ?N\<bar> / 2 ^ 53 \<le> 1 / 1000000" by simp
  then show ?thesis using 1 dbl_error [of "x * ?N"] by linarith
qed

lemma model_hits:
  assumes "0 < n" "n \<le> all" "all < 268435456" "0 \<le> acc"
    and "of_int n / 6 - 1 / 2000000 \<le> acc * of_int all" "acc * of_int all \<le> of_int n + 1 / 2000000"
  defines "r \<equiv> dbl (acc * dbl (of_int all / of_int n))"
  defines "X \<equiv> dbl (model50s r * of_int n)"
    and "Z \<equiv> dbl (dbl (dbl (dbl (dbl (3 * r) / 2) + dbl (model50s r / 4)) - 1 / 2) * of_int n)"
  shows "0 \<le> java_round X" "0 \<le> java_round Z" "java_round X + java_round Z \<le> n"
    and "\<bar>of_int (4 * java_round Z + 2 * n - java_round X) - acc * of_int all * 6\<bar> \<le> 252 / 100"
proof -
  let ?N = "of_int n :: rat"
  have nn: "n < 268435456" using assms(2,3) by simp
  then have N: "1 \<le> ?N" "?N < 268435456" using assms(1) by linarith+
  have r: "\<bar>r * ?N - acc * of_int all\<bar> \<le> 1 / 10000000" "0 \<le> r"
    unfolding r_def by (rule relative_accuracy; use assms in linarith)+
  define y where "y = max (1 / 6) (min 1 r)"
  define t where "t = 6 / 5 * (y - 1 / 6)"
  define e where "e = \<bar>r - y\<bar>"
  have y: "1 / 6 \<le> y" "y \<le> 1" "y = 1 / 6 + 5 / 6 * t"
    by (simp_all add: y_def) (simp add: t_def y_def [symmetric] right_diff_distrib diff_divide_distrib)
  have t: "0 \<le> t" "t \<le> 1" using y(1,2) by (simp_all add: t_def)
  have eN: "e * ?N \<le> 6 / 10000000"
  proof -
    consider "1 / 6 \<le> r" "r \<le> 1" | "r < 1 / 6" | "1 < r" by linarith
    then show ?thesis
    proof cases
      case 1
      then show ?thesis by (simp add: e_def y_def)
    next
      case 2
      then have "e * ?N = ?N / 6 - r * ?N" by (simp add: e_def y_def left_diff_distrib)
      then show ?thesis using r(1) assms(5) by linarith
    next
      case 3
      then have "e * ?N = r * ?N - ?N" by (simp add: e_def y_def left_diff_distrib)
      then show ?thesis using r(1) assms(6) by linarith
    qed
  qed
  have e0: "0 \<le> e" by (simp add: e_def)
  then have "e * 1 \<le> e * ?N" using N by (intro mult_left_mono) simp_all
  then have e: "e \<le> 1 / 1000000" using eN by linarith
  define f where "f = model50s r"
  define F where "F = fifties y"
  note bounds = fifties_bounds [OF t, folded y(3), folded F_def]
  have f: "\<bar>f - F\<bar> \<le> 3 / 1000000000000 + 604 * e"
    unfolding f_def F_def by (rule model50s_error) (use y r(2) e in \<open>simp_all add: e_def\<close>)
  define s where "s = dbl (dbl (dbl (dbl (3 * r) / 2) + dbl (f / 4)) - 1 / 2)"
  define S where "S = 5 / 4 * t + F / 4 - 1 / 4"
  have F2: "\<bar>F\<bar> \<le> 2" and S2: "\<bar>S\<bar> \<le> 2" using bounds t unfolding S_def by linarith+
  have s: "\<bar>s - S\<bar> \<le> 2 / 1000000000000 + 153 * e"
  proof -
    have rr: "r \<le> 2" using e y(2) unfolding e_def by linarith
    have 1: "\<bar>dbl (3 * r) - 3 * r\<bar> \<le> 1 / 10000000000000" by (rule dbl_tiny) (use r(2) rr in linarith)
    have 2: "\<bar>dbl (3 * r) / 2 - 3 * r / 2\<bar> \<le> 1 / 10000000000000" using 1 by linarith
    have 3: "\<bar>dbl (dbl (3 * r) / 2) - dbl (3 * r) / 2\<bar> \<le> 1 / 10000000000000"
      by (rule dbl_tiny) (use 2 r(2) rr in linarith)
    have 4: "\<bar>dbl (f / 4) - f / 4\<bar> \<le> 1 / 10000000000000"
      by (rule dbl_tiny) (use f F2 e in linarith)
    have 5: "\<bar>dbl (dbl (dbl (3 * r) / 2) + dbl (f / 4)) - (dbl (dbl (3 * r) / 2) + dbl (f / 4))\<bar> \<le> 1 / 10000000000000"
      by (rule dbl_tiny) (use 2 3 4 f F2 e r(2) rr in linarith)
    have 6: "\<bar>s - (dbl (dbl (dbl (3 * r) / 2) + dbl (f / 4)) - 1 / 2)\<bar> \<le> 1 / 10000000000000"
      unfolding s_def by (rule dbl_tiny) (use 2 3 4 5 f F2 e r(2) rr in linarith)
    have 7: "\<bar>r - y\<bar> \<le> e" by (simp add: e_def)
    have "S = 3 / 2 * y + F / 4 - 1 / 2" unfolding S_def y(3) by (simp add: field_simps)
    then show ?thesis using 2 3 4 5 6 7 f by linarith
  qed
  have scaled: "(a / 1000000000000 + b * e) * ?N \<le> c"
    if "a / 1000000000000 * 268435456 + b * (6 / 10000000) \<le> c" "0 \<le> a" "0 \<le> b" for a b c :: rat
  proof -
    have "a / 1000000000000 * ?N \<le> a / 1000000000000 * 268435456" using that(2) N by (intro mult_left_mono) simp_all
    moreover have "b * (e * ?N) \<le> b * (6 / 10000000)" using that(3) eN by (intro mult_left_mono)
    ultimately show ?thesis using that(1) by (simp add: distrib_right mult.assoc)
  qed
  have "\<bar>f - F\<bar> * ?N \<le> (3 / 1000000000000 + 604 * e) * ?N" using f N by (intro mult_right_mono) simp_all
  also have "\<dots> \<le> 199 / 100000" by (rule scaled) simp_all
  finally have "\<bar>X - F * ?N\<bar> \<le> 199 / 100000 + 1 / 1000000"
    unfolding X_def f_def [symmetric] by (rule scaled_rounding [OF assms(1) nn _ F2]) simp
  then have X: "\<bar>X - F * ?N\<bar> \<le> 1 / 500" by linarith
  have "\<bar>s - S\<bar> * ?N \<le> (2 / 1000000000000 + 153 * e) * ?N" using s N by (intro mult_right_mono) simp_all
  also have "\<dots> \<le> 199 / 100000" by (rule scaled) simp_all
  finally have "\<bar>Z - S * ?N\<bar> \<le> 199 / 100000 + 1 / 1000000"
    unfolding Z_def f_def [symmetric] s_def [symmetric] by (rule scaled_rounding [OF assms(1) nn _ S2]) simp
  then have Z: "\<bar>Z - S * ?N\<bar> \<le> 1 / 500" by linarith
  note counts = rounded_counts [OF assms(1) nn t S_def bounds(1,2) bounds(3,4) [folded S_def] bounds(5) X Z]
  show "0 \<le> java_round X" "0 \<le> java_round Z" "java_round X + java_round Z \<le> n" using counts(1-3) .
  have "\<bar>(r - y) * ?N\<bar> \<le> 6 / 10000000" using eN N by (simp add: abs_mult e_def)
  then have "\<bar>6 * y * ?N - acc * of_int all * 6\<bar> \<le> 1 / 100" using r(1) unfolding left_diff_distrib by linarith
  then show "\<bar>of_int (4 * java_round Z + 2 * n - java_round X) - acc * of_int all * 6\<bar> \<le> 252 / 100"
    using counts(4) unfolding y(3) [symmetric] by linarith
qed

text \<open>What the range check lets through.\<close>

lemma accepted_range:
  assumes "dbl (100 * lo) \<le> dbl (100 * acc)" "dbl (100 * acc) \<le> dbl (100 * hi)"
    and "- 1 / 100 \<le> lo" "lo \<le> 2" "- 1 / 100 \<le> hi" "hi \<le> 2"
  shows "lo - 6 / 10000000000000000 \<le> acc" "acc \<le> hi + 6 / 10000000000000000"
proof -
  have tiny: "\<bar>dbl x - x\<bar> \<le> 3 / 100000000000000" if "\<bar>x\<bar> \<le> 250" for x
  proof -
    have "\<bar>x\<bar> / 2 ^ 53 \<le> 250 / 2 ^ 53" using that by (rule divide_right_mono) simp
    also have "\<dots> \<le> (3 / 100000000000000 :: rat)" by simp
    finally show ?thesis using dbl_error [of x] by linarith
  qed
  have big: "\<bar>dbl x\<bar> \<ge> 249" if "\<bar>x\<bar> > 250" for x
  proof -
    have "\<bar>x\<bar> / 2 ^ 53 \<le> \<bar>x\<bar> / 1000" by (rule divide_left_mono) simp_all
    then show ?thesis using dbl_error [of x] that by linarith
  qed
  have lo: "\<bar>dbl (100 * lo) - 100 * lo\<bar> \<le> 3 / 100000000000000" by (rule tiny) (use assms(3,4) in linarith)
  have hi: "\<bar>dbl (100 * hi) - 100 * hi\<bar> \<le> 3 / 100000000000000" by (rule tiny) (use assms(5,6) in linarith)
  have "\<bar>dbl (100 * acc)\<bar> < 249" using lo hi assms by linarith
  then have "\<bar>dbl (100 * acc) - 100 * acc\<bar> \<le> 3 / 100000000000000"
    using big [of "100 * acc"] by (intro tiny) linarith
  then show "lo - 6 / 10000000000000000 \<le> acc" "acc \<le> hi + 6 / 10000000000000000"
    using lo hi assms(1,2) by linarith+
qed

text \<open>The library's accuracy of a play is its share of points, up to fifteen digits.\<close>

definition accuracy_library :: "(int \<Rightarrow> int \<Rightarrow> int \<Rightarrow> int \<Rightarrow> rat) \<Rightarrow> bool" where
  "accuracy_library getAccuracy \<longleftrightarrow>
     (\<forall>a b c m. 0 \<le> a \<and> 0 \<le> b \<and> 0 \<le> c \<and> 0 \<le> m \<and> 0 < a + b + c + m \<longrightarrow>
        \<bar>getAccuracy a b c m - of_int (6 * a + 2 * b + c) / of_int (6 * (a + b + c + m))\<bar> \<le> 1 / 10 ^ 15)"

lemma accepted_points:
  assumes "accuracy_library getAccuracy" and "all < 2 ^ 28" and "model getAccuracy all misses acc = Inr d"
  shows "d = model_distribution all misses acc" "0 \<le> misses" "misses \<le> all" "1 \<le> all"
    "of_int (all - misses) / 6 - 1 / 2000000 \<le> acc * of_int all" "acc * of_int all \<le> of_int (all - misses) + 1 / 2000000"
proof -
  have in_range: "validateInclusiveBetween l h a s = Inr () \<longleftrightarrow> l \<le> a \<and> a \<le> h" for l h a s
    by (auto simp: validateInclusiveBetween_def)
  have unit: "(case v of Inl e \<Rightarrow> Inl e | Inr (_ :: unit) \<Rightarrow> w) = Inr d \<longleftrightarrow> v = Inr () \<and> w = Inr d"
    for v :: "out_of_range + unit" and w
    by (cases v) auto
  have valid: "1 \<le> (of_int all :: rat)" "0 \<le> (of_int misses :: rat)" "(of_int misses :: rat) \<le> of_int all"
    and d: "d = model_distribution all misses acc"
    and range: "dbl (100 * getAccuracy 0 0 (int32 (all - misses)) misses) \<le> dbl (100 * acc)"
      "dbl (100 * acc) \<le> dbl (100 * getAccuracy (int32 (all - misses)) 0 0 misses)"
    using assms(3) unfolding model_def unit in_range by simp_all
  show "d = model_distribution all misses acc" "0 \<le> misses" "misses \<le> all" "1 \<le> all" using valid d by simp_all
  let ?n = "all - misses" and ?A = "of_int all :: rat"
  have all: "all < 268435456" using assms(2) by simp
  have n: "0 \<le> ?n" "?n \<le> all" "int32 ?n = ?n" using valid all by (simp_all add: int32_id)
  define lo hi where "lo = getAccuracy 0 0 ?n misses" and "hi = getAccuracy ?n 0 0 misses"
  have A: "0 < ?A" "?A < 268435456" using valid(1) all by linarith+
  have lib: "\<bar>lo - of_int ?n / (6 * ?A)\<bar> \<le> 1 / 1000000000000000" "\<bar>hi - of_int ?n / ?A\<bar> \<le> 1 / 1000000000000000"
  proof -
    show "\<bar>lo - of_int ?n / (6 * ?A)\<bar> \<le> 1 / 1000000000000000"
      using assms(1) [unfolded accuracy_library_def, rule_format, of 0 0 ?n misses] valid n by (simp add: lo_def)
    have "of_int (6 * ?n) / of_int (6 * all) = of_int ?n / ?A"
      unfolding of_int_mult of_int_numeral by (rule mult_divide_mult_cancel_left) simp
    then show "\<bar>hi - of_int ?n / ?A\<bar> \<le> 1 / 1000000000000000"
      using assms(1) [unfolded accuracy_library_def, rule_format, of ?n 0 0 misses] valid n by (simp add: hi_def)
  qed
  have share: "0 \<le> of_int ?n / ?A" "of_int ?n / ?A \<le> 1" "0 \<le> of_int ?n / (6 * ?A)" "of_int ?n / (6 * ?A) \<le> 1"
    using A n valid by (simp_all add: divide_le_eq)
  have times: "(N / (6 * B) - k) * B = N / 6 - k * B" "(N / B + k) * B = N + k * B" if "B \<noteq> 0" for N B k :: rat
    using that by (simp_all add: field_simps)
  have range': "dbl (100 * lo) \<le> dbl (100 * acc)" "dbl (100 * acc) \<le> dbl (100 * hi)"
    using range unfolding n(3) lo_def hi_def by simp_all
  have acc: "lo - 6 / 10000000000000000 \<le> acc" "acc \<le> hi + 6 / 10000000000000000"
    by (rule accepted_range [OF range']; use lib share in linarith)+
  have "(of_int ?n / (6 * ?A) - 16 / 10000000000000000) * ?A \<le> acc * ?A"
    using acc(1) lib(1) A by (intro mult_right_mono) linarith+
  moreover have "acc * ?A \<le> (of_int ?n / ?A + 16 / 10000000000000000) * ?A"
    using acc(2) lib(2) A by (intro mult_right_mono) linarith+
  moreover have "(of_int ?n / (6 * ?A) - 16 / 10000000000000000) * ?A = of_int ?n / 6 - 16 / 10000000000000000 * ?A"
    "(of_int ?n / ?A + 16 / 10000000000000000) * ?A = of_int ?n + 16 / 10000000000000000 * ?A"
    using times [OF less_imp_neq [OF A(1), symmetric]] by blast+
  ultimately show "of_int ?n / 6 - 1 / 2000000 \<le> acc * of_int all" "acc * of_int all \<le> of_int ?n + 1 / 2000000"
    using A by linarith+
qed

text \<open>What the model accepts is turned into a play of about that accuracy.\<close>

lemma model_play:
  assumes "accuracy_library getAccuracy" and "all < 2 ^ 28" and "model getAccuracy all misses acc = Inr d"
  shows "play all misses d \<and> \<bar>of_int (points d) - acc * of_int all * 6\<bar> \<le> 252 / 100
    \<and> (play all misses p \<and> \<bar>acc * of_int all * 6 - of_int (points p)\<bar> \<le> 1 / 8 \<longrightarrow> \<bar>points d - points p\<bar> \<le> 2)"
proof -
  note ok = accepted_points [OF assms]
  have all: "all < 268435456" using assms(2) by simp
  have main: "play all misses d \<and> \<bar>of_int (points d) - acc * of_int all * 6\<bar> \<le> 252 / 100"
  proof (cases "all = misses")
    case True
    then have "d = \<lparr>x300 = 0, x100 = 0, x50 = 0, miss = misses\<rparr>" using ok(1) by (simp add: model_distribution_def)
    then show ?thesis using True ok(4-6) by (simp add: play_def points_def)
  next
    case False
    let ?n = "all - misses"
    have n: "0 < ?n" "?n \<le> all" "int32 ?n = ?n" using False ok(2,3) all by (simp_all add: int32_id)
    have "1 \<le> ?n" using n(1) by simp
    then have "(of_int 1 :: rat) \<le> of_int ?n" by (simp only: of_int_le_iff)
    then have "(1 :: rat) \<le> of_int ?n" by (simp only: of_int_1)
    then have "(1 / 2000000 :: rat) < of_int ?n / 6" by simp
    then have "0 < of_int ?n / 6 - (1 / 2000000 :: rat)" by simp
    then have "0 < acc * of_int all" using ok(5) by (rule less_le_trans)
    then have acc: "0 \<le> acc" using ok(4) by (simp add: zero_less_mult_iff)
    define r where "r = dbl (acc * dbl (of_int all / of_int ?n))"
    define h50 where "h50 = java_round (dbl (model50s r * of_int ?n))"
    define h300 where "h300 = java_round (dbl (dbl (dbl (dbl (dbl (3 * r) / 2) + dbl (model50s r / 4)) - 1 / 2) * of_int ?n))"
    note hits = model_hits [OF n(1,2) all acc ok(5,6), folded r_def, folded h50_def h300_def]
    have "dbl (of_int all - of_int misses) = of_int ?n"
      using dbl_int [of ?n] n(1,2) all by simp
    then have "d = \<lparr>x300 = int32 h300, x100 = int32 (int32 (?n - int32 h300) - int32 h50), x50 = int32 h50, miss = misses\<rparr>"
      using False by (simp add: ok(1) model_distribution_def Let_def n(3) r_def h50_def h300_def)
    then have d: "d = \<lparr>x300 = h300, x100 = ?n - h300 - h50, x50 = h50, miss = misses\<rparr>"
      using hits(1-3) n(2) all by (simp add: int32_id)
    have "points d = 4 * h300 + 2 * ?n - h50" by (simp add: d points_def)
    then show ?thesis using hits d by (simp add: play_def)
  qed
  moreover have "\<bar>points d - points p\<bar> \<le> 2" if "\<bar>acc * of_int all * 6 - of_int (points p)\<bar> \<le> 1 / 8"
  proof -
    have "\<bar>(of_int (points d) :: rat) - of_int (points p)\<bar> < 3" using main that by linarith
    then show ?thesis by linarith
  qed
  ultimately show ?thesis by blast
qed

text \<open>C23. The model keeps its promise: if it accepts an accuracy, its numbers of hits are not negative (its
  assertions never fail) and add up, with the misses, to all objects, and their accuracy is the one that was
  asked for up to 2.52 points of the six per object. If the accuracy is that of a play, it is met up to two
  points, the third of an object that the documentation guarantees; for other accuracies that guarantee
  is not given.\<close>

theorem model_accuracy:
  assumes "accuracy_library getAccuracy" and "all < 2 ^ 28" and "model getAccuracy all misses acc = Inr d"
  shows "play all misses d \<and> \<bar>of_int (points d) - acc * of_int all * 6\<bar> \<le> 252 / 100
    \<and> (play all misses p \<and> \<bar>acc * of_int all * 6 - of_int (points p)\<bar> \<le> 1 / 8 \<longrightarrow> \<bar>points d - points p\<bar> \<le> 2)"
  using assms by (rule model_play)

text \<open>For an accuracy between those of plays, the guarantee of the documentation, a third of an object, is
  not given.\<close>

lemma guarantee_missed:
  "model_distribution 20 0 (346 / 1000) = \<lparr>x300 = 3, x100 = 9, x50 = 8, miss = 0\<rparr>"
  "\<bar>of_int (points \<lparr>x300 = 3, x100 = 9, x50 = 8, miss = 0\<rparr>) - 346 / 1000 * 20 * 6\<bar> > (2 :: rat)"
proof -
  define r where "r = dbl (346 / 1000 * dbl (of_int 20 / of_int 20))"
  have "\<bar>r * of_int 20 - 346 / 1000 * of_int 20\<bar> \<le> 1 / 10000000" "0 \<le> r"
    unfolding r_def by (rule relative_accuracy; simp)+
  then have "\<bar>r * 20 - 346 / 1000 * 20\<bar> \<le> 1 / 10000000" and r0: "0 \<le> r" by simp_all
  then have r: "\<bar>r - 346 / 1000\<bar> \<le> 1 / 100000000" by linarith
  define m where "m = model50s r"
  have "\<bar>m - fifties (346 / 1000)\<bar> \<le> 3 / 1000000000000 + 604 * (1 / 100000000)"
    unfolding m_def by (rule model50s_error [OF _ _ r0 r]) simp_all
  moreover have "\<bar>fifties (346 / 1000) - 4241292 / 10000000\<bar> \<le> 1 / 1000000" by (simp add: fifties_def)
  ultimately have m: "\<bar>m - 4241292 / 10000000\<bar> \<le> 1 / 100000" by linarith
  have 1: "\<bar>dbl (3 * r) - 3 * r\<bar> \<le> 1 / 10000000000000" by (rule dbl_tiny) (use r in linarith)
  have 2: "\<bar>dbl (dbl (3 * r) / 2) - dbl (3 * r) / 2\<bar> \<le> 1 / 10000000000000" by (rule dbl_tiny) (use r 1 in linarith)
  have 3: "\<bar>dbl (m / 4) - m / 4\<bar> \<le> 1 / 10000000000000" by (rule dbl_tiny) (use m in linarith)
  define s where "s = dbl (dbl (dbl (dbl (3 * r) / 2) + dbl (m / 4)) - 1 / 2)"
  have 4: "\<bar>dbl (dbl (dbl (3 * r) / 2) + dbl (m / 4)) - (dbl (dbl (3 * r) / 2) + dbl (m / 4))\<bar> \<le> 1 / 10000000000000"
    by (rule dbl_tiny) (use r m 1 2 3 in linarith)
  have "\<bar>s - (dbl (dbl (dbl (3 * r) / 2) + dbl (m / 4)) - 1 / 2)\<bar> \<le> 1 / 10000000000000"
    unfolding s_def by (rule dbl_tiny) (use r m 1 2 3 4 in linarith)
  then have s: "\<bar>s - (3 / 2 * (346 / 1000) + 4241292 / 10000000 / 4 - 1 / 2)\<bar> \<le> 3 / 1000000"
    using r m 1 2 3 4 by linarith
  have "\<bar>dbl (m * 20) - m * 20\<bar> \<le> 1 / 10000000000000" "\<bar>dbl (s * 20) - s * 20\<bar> \<le> 1 / 10000000000000"
    by (rule dbl_tiny; use m s in linarith)+
  then have "java_round (dbl (m * 20)) = 8" "java_round (dbl (s * 20)) = 3"
    unfolding java_round_def using m s by linarith+
  then show "model_distribution 20 0 (346 / 1000) = \<lparr>x300 = 3, x100 = 9, x50 = 8, miss = 0\<rparr>"
    using dbl_int [of 20] by (simp add: model_distribution_def Let_def int32_id r_def [simplified] m_def s_def)
qed (simp add: points_def)

definition exact_accuracy :: "int \<Rightarrow> int \<Rightarrow> int \<Rightarrow> int \<Rightarrow> rat" where
  "exact_accuracy a b c m = of_int (6 * a + 2 * b + c) / of_int (6 * (a + b + c + m))"

lemma model_accuracy_witness:
  "\<exists>d. model exact_accuracy 10 2 (9 / 20) = Inr d \<and> play 10 2 d \<and> \<bar>points d - 27\<bar> \<le> 2"
proof -
  let ?p = "\<lparr>x300 = 3, x100 = 4, x50 = 1, miss = 2\<rparr>"
  have "int32 8 = 8" by code_simp
  moreover have "dbl (100 * exact_accuracy 0 0 8 2) \<le> dbl (100 * (9 / 20))" by code_simp
  moreover have "dbl (100 * (9 / 20)) \<le> dbl (100 * exact_accuracy 8 0 0 2)" by code_simp
  ultimately have m: "model exact_accuracy 10 2 (9 / 20) = Inr (model_distribution 10 2 (9 / 20))"
    by (simp add: model_def validateInclusiveBetween_def)
  have "accuracy_library exact_accuracy" by (simp add: accuracy_library_def exact_accuracy_def)
  then show ?thesis
    using model_accuracy [OF _ _ m, of ?p] m by (simp add: play_def points_def)
qed

end
