(* ===== verification/Song_Info.thy ===== *)
theory Song_Info
  imports Acc_Argument Accuracy_Model "HOL-Library.Signed_Division"
begin

text \<open>
  What the bot says of a beatmap: the performance for an accuracy or for numbers of hits
  (\<open>diff/PercentageEstimatesImpl\<close>), and the message (\<open>BeatmapMeta\<close>).

  The formulas of the performance (\<open>OsuPerformanceCalculator\<close>) and what the library of osu! knows of mods and
  difficulties are parameters.
\<close>

section \<open>Data\<close>

record fake_score =
  score_maxCombo :: int
  count300 :: int
  count100 :: int
  count50 :: int
  countMiss :: int
  score_mods :: int

text \<open>\<open>BeatmapImpl\<close>\<close>

record impl =
  modsUsed :: int
  impl_overallDifficulty :: rat
  impl_approachRate :: rat
  hitCircleCount :: int
  sliderCount :: int
  spinnerCount :: int
  impl_starDiff :: rat
  impl_maxCombo :: int
  aimDifficulty :: rat
  aimDifficultSliderCount :: rat
  speedDifficulty :: rat
  speedNoteCount :: rat
  sliderFactor :: rat
  aimDifficultStrainCount :: rat
  speedDifficultStrainCount :: rat
  flashlightDifficulty :: rat

definition getObjectCount :: "impl \<Rightarrow> int" where
  "getObjectCount i = int32 (int32 (hitCircleCount i + sliderCount i) + spinnerCount i)"

text \<open>What is used of \<open>ApiBeatmap\<close>.\<close>

record api_beatmap =
  api_beatmapId :: int
  artist :: string
  title :: string
  version :: string
  mode :: int
  maxCombo :: int
  starDifficulty :: rat
  bpm :: rat
  approachRate :: rat
  overallDifficulty :: rat
  totalLength :: int

text \<open>\<open>total\<close> is \<open>OsuPerformanceCalculator.CreatePerformanceAttributes(\<dots>).total()\<close>; \<open>range_message\<close> formats the
  message of \<open>validateInclusiveBetween\<close>.\<close>

record song_lib =
  getMods_of :: "int \<Rightarrow> string list"
  getMask_of :: "string list \<Rightarrow> int"
  is_mod :: "string \<Rightarrow> int \<Rightarrow> bool"
  isEffective :: "string \<Rightarrow> bool"
  getShortName :: "string \<Rightarrow> string"
  calcTotalLength :: "int \<Rightarrow> int \<Rightarrow> int"
  calcBpm :: "rat \<Rightarrow> int \<Rightarrow> rat"
  calcAR :: "rat \<Rightarrow> int \<Rightarrow> rat"
  calcOd :: "rat \<Rightarrow> int \<Rightarrow> rat"
  getAccuracy :: "int \<Rightarrow> int \<Rightarrow> int \<Rightarrow> int \<Rightarrow> rat"
  total :: "fake_score \<Rightarrow> impl \<Rightarrow> rat"
  range_message :: "out_of_range \<Rightarrow> string"

section \<open>\<open>PercentageEstimatesImpl\<close>\<close>

record estimates =
  est_beatmap :: "impl"
  est_mods :: int

definition getPP_hits :: "song_lib \<Rightarrow> estimates \<Rightarrow> int \<Rightarrow> int \<Rightarrow> int \<Rightarrow> int \<Rightarrow> rat" where
  "getPP_hits lib e n100 n50 combo misses =
     (let n300 = int32 (int32 (int32 (getObjectCount (est_beatmap e) - n50) - n100) - misses)
      in total lib \<lparr>score_maxCombo = combo, count300 = n300, count100 = n100, count50 = n50, countMiss = misses,
           score_mods = est_mods e\<rparr> (est_beatmap e))"

definition getPP_misses :: "song_lib \<Rightarrow> estimates \<Rightarrow> rat \<Rightarrow> int \<Rightarrow> int \<Rightarrow> throwable + rat" where
  "getPP_misses lib e acc combo misses =
     (case model (getAccuracy lib) (getObjectCount (est_beatmap e)) misses acc of
        Inl x \<Rightarrow> Inl (UserExn (range_message lib x))
      | Inr d \<Rightarrow> Inr (getPP_hits lib e (x100 d) (x50 d) combo (miss d)))"

definition getPP :: "song_lib \<Rightarrow> estimates \<Rightarrow> rat \<Rightarrow> throwable + rat" where
  "getPP lib e acc =
     (case getPP_misses lib e acc (impl_maxCombo (est_beatmap e)) 0 of
        Inl (UserExn m) \<Rightarrow> Inl RuntimeExn
      | r \<Rightarrow> r)"

section \<open>Numbers in messages\<close>

text \<open>\<open>DecimalFormat\<close> with the patterns \<open>#\<close> and \<open>#.##\<close>: rounded half to even, without zeros at the end, and
  with the sign of what is rounded.\<close>

definition format0 :: "rat \<Rightarrow> string" where
  "format0 x = (if x < 0 then ''-'' else []) @ show_int (round_half_even \<bar>x\<bar>)"

definition format2 :: "rat \<Rightarrow> string" where
  "format2 x =
     (let n = round_half_even (\<bar>x\<bar> * 100);
          r = n mod 100
      in (if x < 0 then ''-'' else []) @ show_int (n div 100) @
         (if r = 0 then [] else if r mod 10 = 0 then ''.'' @ show_int (r div 10)
          else ''.'' @ show_int (r div 10) @ show_int (r mod 10)))"

definition secondsToMinuteColonSecond :: "int \<Rightarrow> string" where
  "secondsToMinuteColonSecond l =
     (let s = show_int (l smod 60)
      in show_int (l sdiv 60) @ '':'' @ (if length s < 2 then CHR ''0'' # s else s))"

section \<open>\<open>BeatmapMeta\<close>\<close>

record beatmap_meta =
  beatmap :: api_beatmap
  personalPP :: "int option"
  estimates :: "estimates"

abbreviation meta_mods :: "beatmap_meta \<Rightarrow> int" where
  "meta_mods m \<equiv> est_mods (estimates m)"

text \<open>The four \<open>PpMessageBuilder\<close>s.\<close>

fun buildMessage :: "song_lib \<Rightarrow> estimates \<Rightarrow> hits \<Rightarrow> throwable + string" where
  "buildMessage lib e UsualHits =
     sum_bind (getPP lib e (dbl (95 / 100))) (\<lambda>p95.
       sum_bind (getPP lib e (dbl (98 / 100))) (\<lambda>p98.
         sum_bind (getPP lib e (dbl (99 / 100))) (\<lambda>p99.
           sum_bind (getPP lib e 1) (\<lambda>p100.
             Inr (''95%: '' @ format0 p95 @ ''pp | 98%: '' @ format0 p98 @ ''pp | 99%: '' @ format0 p99
                  @ ''pp | 100%: '' @ format0 p100 @ ''pp'')))))"
| "buildMessage lib e (AccHits acc) =
     sum_bind (getPP lib e acc) (\<lambda>p. Inr (format2 (dbl (acc * 100)) @ ''%: '' @ format0 p @ ''pp''))"
| "buildMessage lib e (AccComboMisses acc combo misses) =
     sum_bind (getPP_misses lib e acc combo misses) (\<lambda>p.
       Inr (format2 (dbl (acc * 100)) @ ''% '' @ show_int combo @ ''x '' @ show_int misses @ ''miss: ''
            @ format0 p @ ''pp''))"
| "buildMessage lib e (HitCounts n100 n50 combo misses) =
     Inr (show_int n100 @ ''x100 '' @ show_int n50 @ ''x50 '' @ show_int combo @ ''x '' @ show_int misses
          @ ''miss: '' @ format0 (getPP_hits lib e n100 n50 combo misses) @ ''pp'')"

definition formModsSuffix :: "song_lib \<Rightarrow> beatmap_meta \<Rightarrow> string" where
  "formModsSuffix lib m =
     (if meta_mods m = 0 then []
      else '' '' @ concat (map (getShortName lib) (filter (isEffective lib) (getMods_of lib (meta_mods m)))))"

text \<open>The performance that the user may expect is only shown between that for 90 percent and that for all.\<close>

definition future_you :: "song_lib \<Rightarrow> beatmap_meta \<Rightarrow> throwable + string" where
  "future_you lib m =
     (case personalPP m of
        None \<Rightarrow> Inr []
      | Some future \<Rightarrow>
          sum_bind (getPP lib (estimates m) (dbl (9 / 10))) (\<lambda>p90.
            if of_int future < p90 then Inr []
            else
              sum_bind (getPP lib (estimates m) 1) (\<lambda>p100.
                if of_int future < dbl (p100 * dbl (105 / 100))
                then Inr (''future you: '' @ show_int \<lfloor>min (of_int future) p100\<rfloor> @ ''pp | '')
                else Inr [])))"

text \<open>The signs before the stars and the tempo, and the heart, in UTF-8.\<close>

definition star_sign :: string where "star_sign = map char_of [0xE2, 0x98, 0x85 :: nat]"
definition note_sign :: string where "note_sign = map char_of [0xE2, 0x99, 0xAB :: nat]"
definition heart_sign :: string where "heart_sign = map char_of [0xE2, 0x99, 0xA5 :: nat]"

definition broken_beatmap :: "int \<Rightarrow> string" where
  "broken_beatmap i =
     ''Encountered a [https://osu.ppy.sh/b/'' @ show_int i @
     '' broken beatmap], see [https://github.com/ppy/osu-api/issues/130 this issue]''"

definition estimateMessage :: "song_lib \<Rightarrow> beatmap_meta \<Rightarrow> hits \<Rightarrow> throwable + string" where
  "estimateMessage lib m pp =
     (let b = beatmap m;
          stars = (if meta_mods m = 0 then starDifficulty b else impl_starDiff (est_beatmap (estimates m)))
      in sum_bind (future_you lib m) (\<lambda>future.
           sum_bind (buildMessage lib (estimates m) pp) (\<lambda>t.
             Inr (''   '' @ future @ t @ '' | '' @ secondsToMinuteColonSecond (calcTotalLength lib (totalLength b) (meta_mods m))
                  @ '' '' @ star_sign @ '' '' @ format2 stars
                  @ '' '' @ note_sign @ '' '' @ format2 (calcBpm lib (bpm b) (meta_mods m))
                  @ '' AR'' @ format2 (calcAR lib (approachRate b) (meta_mods m))
                  @ '' OD'' @ format2 (calcOd lib (overallDifficulty b) (meta_mods m))))))"

definition formInfoMessage ::
  "song_lib \<Rightarrow> beatmap_meta \<Rightarrow> bool \<Rightarrow> bool \<Rightarrow> string option \<Rightarrow> int \<Rightarrow> hits \<Rightarrow> throwable + string" where
  "formInfoMessage lib m formLink includeEstimateMessage addition hearts pp =
     (let b = beatmap m;
          name = artist b @ '' - '' @ title b @ '' ['' @ version b @ '']'';
          name = (if formLink then ''[http://osu.ppy.sh/b/'' @ show_int (api_beatmapId b) @ '' '' @ name @ '']'' else name)
      in if maxCombo b \<le> 0 then Inl (UserExn (broken_beatmap (api_beatmapId b)))
         else
           sum_bind (if includeEstimateMessage then estimateMessage lib m pp else Inr []) (\<lambda>e.
             Inr (name @ formModsSuffix lib m @ e @ (case addition of None \<Rightarrow> [] | Some a \<Rightarrow> ''   '' @ a)
                  @ (if hearts > 0 then '' '' @ concat (replicate (nat hearts) heart_sign) else []))))"


section \<open>What the performance is that of\<close>

text \<open>The performance for an accuracy and misses is that of a play of the beatmap, of about that accuracy.\<close>

lemma performance_of_play:
  assumes "accuracy_library (getAccuracy lib)" and "getObjectCount (est_beatmap e) < 2 ^ 28"
    and "getPP_misses lib e acc combo misses = Inr p"
  shows "\<exists>d. play (getObjectCount (est_beatmap e)) misses d
    \<and> \<bar>of_int (points d) - acc * of_int (getObjectCount (est_beatmap e)) * 6\<bar> \<le> 252 / 100
    \<and> p = total lib \<lparr>score_maxCombo = combo, count300 = x300 d, count100 = x100 d, count50 = x50 d,
        countMiss = misses, score_mods = est_mods e\<rparr> (est_beatmap e)"
proof -
  let ?n = "getObjectCount (est_beatmap e)"
  obtain d where d: "model (getAccuracy lib) ?n misses acc = Inr d" "p = getPP_hits lib e (x100 d) (x50 d) combo (miss d)"
    using assms(3) by (auto simp: getPP_misses_def split: sum.splits)
  note ok = model_play [OF assms(1,2) d(1)]
  have n: "?n < 268435456" using assms(2) by simp
  have "0 \<le> ?n" "0 \<le> x300 d" "0 \<le> x100 d" "0 \<le> x50 d" "0 \<le> miss d" "x300 d + x100 d + x50 d + miss d = ?n" "miss d = misses"
    using ok [THEN conjunct1] accepted_points(2-4) [OF assms(1,2) d(1)] unfolding play_def by linarith+
  then have "int32 (?n - x50 d) = ?n - x50 d" "int32 (?n - x50 d - x100 d) = ?n - x50 d - x100 d"
    "int32 (?n - x50 d - x100 d - miss d) = x300 d" "miss d = misses"
    using n by (simp_all add: int32_id)
  then have "p = total lib \<lparr>score_maxCombo = combo, count300 = x300 d, count100 = x100 d, count50 = x50 d,
        countMiss = misses, score_mods = est_mods e\<rparr> (est_beatmap e)"
    by (simp add: d(2) getPP_hits_def)
  then show ?thesis using ok [THEN conjunct1] ok [THEN conjunct2, THEN conjunct1] by blast
qed

text \<open>Numbers of hits are not checked: more than the beatmap has objects leave a negative number of hits of 300.\<close>

lemma unchecked_hits:
  "getObjectCount (est_beatmap e) = 100 \<Longrightarrow> getPP_hits lib e 300 0 combo 0 =
     total lib \<lparr>score_maxCombo = combo, count300 = - 200, count100 = 300, count50 = 0, countMiss = 0,
        score_mods = est_mods e\<rparr> (est_beatmap e)"
  by (simp add: getPP_hits_def int32_def)

text \<open>An accuracy that was typed with two decimals is shown as it was typed.\<close>

lemma accuracy_shown:
  assumes "1667 \<le> k" and "k \<le> 10000"
  shows "format2 (dbl (dbl (of_int k / 10000) * 100)) = show_int (k div 100) @
    (if k mod 100 = 0 then [] else if k mod 10 = 0 then ''.'' @ show_int (k mod 100 div 10)
     else ''.'' @ show_int (k mod 100 div 10) @ show_int (k mod 10))"
proof -
  let ?d = "dbl (of_int k / 10000)" and ?e = "dbl (dbl (of_int k / 10000) * 100)"
  have k: "(1667 :: rat) \<le> of_int k" "of_int k \<le> (10000 :: rat)" using assms by linarith+
  have "\<bar>?d - of_int k / 10000\<bar> \<le> \<bar>of_int k / 10000\<bar> / 2 ^ 53" by (rule dbl_error)
  also have "\<dots> \<le> 1 / 2 ^ 53" by (rule divide_right_mono) (use k in simp_all)
  also have "\<dots> \<le> 1 / 100000" by simp
  finally have d: "\<bar>?d - of_int k / 10000\<bar> \<le> 1 / 100000" .
  have "\<bar>?e - ?d * 100\<bar> \<le> \<bar>?d * 100\<bar> / 2 ^ 53" by (rule dbl_error)
  also have "\<dots> \<le> 101 / 2 ^ 53" by (rule divide_right_mono) (use k d in linarith, simp)
  also have "\<dots> \<le> 1 / 1000" by simp
  finally have e: "\<bar>?e - of_int k / 100\<bar> \<le> 1 / 500" using d by linarith
  then have pos: "0 < ?e" using k by linarith
  have "round_half_even (\<bar>?e\<bar> * 100) = k"
  proof -
    have "\<bar>of_int (round_half_even (\<bar>?e\<bar> * 100)) - \<bar>?e\<bar> * 100\<bar> \<le> 1 / 2" by (rule round_half_even_error)
    then have "\<bar>(of_int (round_half_even (\<bar>?e\<bar> * 100)) :: rat) - of_int k\<bar> < 1" using e pos by linarith
    then show ?thesis by linarith
  qed
  then show ?thesis using pos by (simp add: format2_def Let_def mod_mod_cancel)
qed

end
