(* ===== verification/User_Data.thy ===== *)
theory User_Data
  imports Bot Prelude
begin

text \<open>
  The settings of the users of the bot (\<open>tillerinobot/UserDataManager\<close> and its class \<open>UserData\<close>): they are
  loaded when a message is handled and saved when it has been, if they were changed. The language of the
  user is an object that is created or read when it is first used, and that may have a state of its own.

  Jackson, which writes and reads the settings and the languages, and the classes of the languages are
  parameters.
\<close>

section \<open>Settings\<close>

text \<open>The fields that are written.\<close>

record ('i, 'j) settings =
  allowedToDebug :: bool
  languageIdentifier :: 'i
  lastSongInfo :: "(int \<times> int) option"
  defaultRecommendationOptions :: "string option"
  serializedLanguage :: "'j option"
  showWelcomeMessage :: bool
  osuTrackWelcomeEnabled :: bool
  showMapMetaDataOnRecommendation :: bool
  v2 :: bool

text \<open>The transient ones.\<close>

record ('i, 'j, 'l) user_data = "('i, 'j) settings" +
  changed :: bool
  language :: "'l option"
  userid :: int

text \<open>A language that is not \<open>IsMutable\<close> is never modified. \<open>newLanguage\<close> is the constructor of the class of
  an identifier, \<open>treeToValue\<close> may fail, and so may \<open>readValue\<close>.\<close>

record ('i, 'j, 'l) jackson =
  Default_id :: 'i
  newLanguage :: "'i \<Rightarrow> 'l"
  isModified :: "'l \<Rightarrow> bool"
  clearModified :: "'l \<Rightarrow> 'l"
  valueToTree :: "'l \<Rightarrow> 'j"
  treeToValue :: "'i \<Rightarrow> 'j \<Rightarrow> 'l option"
  json_null :: 'j
  writeValueAsString :: "('i, 'j) settings \<Rightarrow> string"
  readValue :: "string \<Rightarrow> ('i, 'j) settings option"

text \<open>The table \<open>userdata\<close> and the object of the message that is being handled.\<close>

record ('i, 'j, 'l) data_state = bot_state +
  rows :: "int \<rightharpoonup> string"
  current :: "('i, 'j, 'l) user_data"

type_synonym ('i, 'j, 'l, 'z, 'a) data_bot = "(('i, 'j, 'l, 'z) data_state_scheme, 'a) bot"

section \<open>Setters\<close>

definition setAllowedToDebug :: "bool \<Rightarrow> ('i, 'j, 'l) user_data \<Rightarrow> ('i, 'j, 'l) user_data" where
  "setAllowedToDebug b d = d\<lparr>changed := changed d \<or> b \<noteq> allowedToDebug d, allowedToDebug := b\<rparr>"

definition setLanguage :: "'i \<Rightarrow> ('i, 'j, 'l) user_data \<Rightarrow> ('i, 'j, 'l) user_data" where
  "setLanguage i d =
     (if languageIdentifier d \<noteq> i
      then d\<lparr>changed := True, languageIdentifier := i, language := None, serializedLanguage := None\<rparr> else d)"

definition setLastSongInfo :: "(int \<times> int) option \<Rightarrow> ('i, 'j, 'l) user_data \<Rightarrow> ('i, 'j, 'l) user_data" where
  "setLastSongInfo x d = d\<lparr>changed := changed d \<or> lastSongInfo d \<noteq> x, lastSongInfo := x\<rparr>"

definition setDefaultRecommendationOptions ::
  "string option \<Rightarrow> ('i, 'j, 'l) user_data \<Rightarrow> ('i, 'j, 'l) user_data" where
  "setDefaultRecommendationOptions x d =
     d\<lparr>changed := changed d \<or> defaultRecommendationOptions d \<noteq> x, defaultRecommendationOptions := x\<rparr>"

definition setShowWelcomeMessage :: "bool \<Rightarrow> ('i, 'j, 'l) user_data \<Rightarrow> ('i, 'j, 'l) user_data" where
  "setShowWelcomeMessage b d = d\<lparr>changed := changed d \<or> b \<noteq> showWelcomeMessage d, showWelcomeMessage := b\<rparr>"

definition setOsuTrackWelcomeEnabled :: "bool \<Rightarrow> ('i, 'j, 'l) user_data \<Rightarrow> ('i, 'j, 'l) user_data" where
  "setOsuTrackWelcomeEnabled b d =
     d\<lparr>changed := changed d \<or> b \<noteq> osuTrackWelcomeEnabled d, osuTrackWelcomeEnabled := b\<rparr>"

definition setShowMapMetaData :: "bool \<Rightarrow> ('i, 'j, 'l) user_data \<Rightarrow> ('i, 'j, 'l) user_data" where
  "setShowMapMetaData b d =
     d\<lparr>changed := changed d \<or> b \<noteq> showMapMetaDataOnRecommendation d, showMapMetaDataOnRecommendation := b\<rparr>"

definition setV2 :: "bool \<Rightarrow> ('i, 'j, 'l) user_data \<Rightarrow> ('i, 'j, 'l) user_data" where
  "setV2 b d = d\<lparr>changed := changed d \<or> b \<noteq> v2 d, v2 := b\<rparr>"

definition isChanged :: "('i, 'j, 'l) jackson \<Rightarrow> ('i, 'j, 'l) user_data \<Rightarrow> bool" where
  "isChanged jk d \<longleftrightarrow> changed d \<or> (case language d of None \<Rightarrow> False | Some l \<Rightarrow> isModified jk l)"

definition setChanged :: "('i, 'j, 'l) jackson \<Rightarrow> bool \<Rightarrow> ('i, 'j, 'l) user_data \<Rightarrow> ('i, 'j, 'l) user_data" where
  "setChanged jk b d =
     d\<lparr>changed := b, language := (if b then language d else map_option (clearModified jk) (language d))\<rparr>"

section \<open>The language\<close>

text \<open>What \<open>usingLanguage\<close> does before it runs its task; \<open>None\<close> when the language cannot be read.\<close>

definition read_language :: "('i, 'j, 'l) jackson \<Rightarrow> 'i \<Rightarrow> 'j option \<Rightarrow> 'l option" where
  "read_language jk i tree =
     (case tree of
        None \<Rightarrow> Some (newLanguage jk i)
      | Some j \<Rightarrow> if j = json_null jk then Some (newLanguage jk i) else treeToValue jk i j)"

definition load_language :: "('i, 'j, 'l) jackson \<Rightarrow> ('i, 'j, 'l) user_data \<Rightarrow> 'l option" where
  "load_language jk d =
     (case language d of
        Some l \<Rightarrow> Some l
      | None \<Rightarrow> read_language jk (languageIdentifier d) (serializedLanguage d))"

text \<open>A task that does not touch the other settings.\<close>

definition using_language ::
  "('i, 'j, 'l) jackson \<Rightarrow> ('l \<Rightarrow> 'a \<times> 'l) \<Rightarrow> ('i, 'j, 'l, 'z, 'a) data_bot" where
  "using_language jk task s =
     (case load_language jk (current s) of
        None \<Rightarrow> (Inl RuntimeExn, s)
      | Some l \<Rightarrow> (let (x, l') = task l in (Inr x, s\<lparr>current := (current s)\<lparr>language := Some l'\<rparr>\<rparr>)))"

section \<open>Loading and saving\<close>

definition new_user_data :: "('i, 'j, 'l) jackson \<Rightarrow> int \<Rightarrow> ('i, 'j, 'l) user_data" where
  "new_user_data jk i =
     \<lparr>allowedToDebug = False, languageIdentifier = Default_id jk, lastSongInfo = None,
      defaultRecommendationOptions = None, serializedLanguage = None, showWelcomeMessage = True,
      osuTrackWelcomeEnabled = False, showMapMetaDataOnRecommendation = True, v2 = False,
      changed = False, language = None, userid = i\<rparr>"

definition written_settings :: "('i, 'j, 'l) user_data \<Rightarrow> ('i, 'j) settings" where
  "written_settings d =
     \<lparr>allowedToDebug = allowedToDebug d, languageIdentifier = languageIdentifier d,
      lastSongInfo = lastSongInfo d, defaultRecommendationOptions = defaultRecommendationOptions d,
      serializedLanguage = serializedLanguage d, showWelcomeMessage = showWelcomeMessage d,
      osuTrackWelcomeEnabled = osuTrackWelcomeEnabled d,
      showMapMetaDataOnRecommendation = showMapMetaDataOnRecommendation d, v2 = v2 d\<rparr>"

definition read_settings :: "int \<Rightarrow> ('i, 'j) settings \<Rightarrow> ('i, 'j, 'l) user_data" where
  "read_settings i f =
     \<lparr>allowedToDebug = allowedToDebug f, languageIdentifier = languageIdentifier f,
      lastSongInfo = lastSongInfo f, defaultRecommendationOptions = defaultRecommendationOptions f,
      serializedLanguage = serializedLanguage f, showWelcomeMessage = showWelcomeMessage f,
      osuTrackWelcomeEnabled = osuTrackWelcomeEnabled f,
      showMapMetaDataOnRecommendation = showMapMetaDataOnRecommendation f, v2 = v2 f,
      changed = False, language = None, userid = i\<rparr>"

text \<open>What the row of a user is read as; \<open>None\<close> when it cannot be read.\<close>

definition read_row :: "('i, 'j, 'l) jackson \<Rightarrow> int \<Rightarrow> string option \<Rightarrow> ('i, 'j, 'l) user_data option" where
  "read_row jk i r =
     (case r of
        None \<Rightarrow> Some (new_user_data jk i)
      | Some t \<Rightarrow> if t = [] then Some (new_user_data jk i) else map_option (read_settings i) (readValue jk t))"

definition sql_failure :: "database \<Rightarrow> throwable option" where
  "sql_failure db = (case db of Working \<Rightarrow> None | Recoverable \<Rightarrow> Some SqlRecoverable | Failing \<Rightarrow> Some SqlExn)"

definition load_user_data :: "('i, 'j, 'l) jackson \<Rightarrow> int \<Rightarrow> ('i, 'j, 'l, 'z, unit) data_bot" where
  "load_user_data jk i s =
     (case sql_failure (database s) of
        Some e \<Rightarrow> (Inl e, s)
      | None \<Rightarrow>
          (case read_row jk i (rows s i) of
             None \<Rightarrow> (Inl RuntimeExn, s)
           | Some d \<Rightarrow> (Inr (), s\<lparr>current := d\<rparr>)))"

text \<open>The language is loaded if it is not, and written into the settings if it was modified; the settings
  are written whole.\<close>

definition save_user_data :: "('i, 'j, 'l) jackson \<Rightarrow> ('i, 'j, 'l, 'z, unit) data_bot" where
  "save_user_data jk s =
     (if \<not> isChanged jk (current s) then (Inr (), s)
      else
        bot_bind (using_language jk (\<lambda>l. (l, l))) (\<lambda>l s.
          let d = current s;
              d = (if isModified jk l then d\<lparr>serializedLanguage := Some (valueToTree jk l)\<rparr> else d);
              s = s\<lparr>current := d\<rparr>
          in case sql_failure (database s) of
               Some e \<Rightarrow> (Inl e, s)
             | None \<Rightarrow>
                 (Inr (), s\<lparr>rows := (rows s)(userid d \<mapsto> writeValueAsString jk (written_settings d)),
                            current := setChanged jk False d\<rparr>)) s)"

text \<open>\<open>close\<close> keeps failures of the database to itself.\<close>

definition close_user_data :: "('i, 'j, 'l) jackson \<Rightarrow> ('i, 'j, 'l, 'z, unit) data_bot" where
  "close_user_data jk =
     bot_catch (save_user_data jk) (\<lambda>e. e = SqlExn \<or> e = SqlRecoverable) (\<lambda>_. bot_return ())"

end
