(* ===== verification/Commands.thy ===== *)
theory Commands
  imports Bot
begin

text \<open>
  How the handlers of commands recognise their command (\<open>CommandHandler.WithShorthand\<close>, \<open>ResetHandler\<close>,
  \<open>HelpHandler\<close>, \<open>ComplaintHandler\<close>). The distance of Levenshtein comes from a library and is a parameter
  \<open>lev\<close>; \<open>edit_distance\<close> states what it is documented to compute.
\<close>

section \<open>The handlers\<close>

type_synonym 's handler = "string \<Rightarrow> user \<Rightarrow> lang \<Rightarrow> ('s, response option) bot"

text \<open>What \<open>WithShorthand.handle\<close> passes to \<open>handleArgument\<close>; \<open>None\<close> when the command is not handled. The
  second \<open>if\<close> does not look for the end of the word.\<close>

definition shorthand_argument :: "(string \<Rightarrow> string \<Rightarrow> nat) \<Rightarrow> string \<Rightarrow> string \<Rightarrow> string option" where
  "shorthand_argument lev command originalCommand =
     (let lowerCase = to_lower originalCommand;
          pos = indexOf lowerCase (CHR '' '') 0
      in if lowerCase = [hd command] then Some []
         else if lev lowerCase command \<le> 2 then Some []
         else if startsWith lowerCase [hd command, CHR '' ''] then Some (drop 2 originalCommand)
         else if pos > 0 \<and> lev (take (nat pos) lowerCase) command \<le> 2
           then Some (drop (nat pos + 1) originalCommand)
         else None)"

definition with_shorthand ::
  "(string \<Rightarrow> string \<Rightarrow> nat) \<Rightarrow> string \<Rightarrow> (string \<Rightarrow> 's handler) \<Rightarrow> 's handler" where
  "with_shorthand lev command handleArgument originalCommand u l =
     (case shorthand_argument lev command originalCommand of
        None \<Rightarrow> bot_return None
      | Some remaining \<Rightarrow> handleArgument originalCommand remaining u l)"

definition reset_handler :: "(int \<Rightarrow> ('s, unit) bot) \<Rightarrow> 's handler" where
  "reset_handler forget command u l =
     (if to_lower command \<noteq> ''reset'' then bot_return None
      else bot_bind (forget (user_id u)) (\<lambda>_. bot_return (Some NoResponse)))"

definition help_handler :: "(string \<Rightarrow> string \<Rightarrow> nat) \<Rightarrow> 's handler" where
  "help_handler lev command u l =
     (if lev (to_lower command) ''help'' \<le> 1 then bot_return (Some (Success (help_message l)))
      else if lev (to_lower command) ''faq'' \<le> 1 then bot_return (Some (Success (faq l)))
      else bot_return None)"

text \<open>\<open>last_given u s\<close> says whether the last recommendation of the user is still known.\<close>

definition complaint_handler :: "(string \<Rightarrow> string \<Rightarrow> nat) \<Rightarrow> (int \<Rightarrow> 's \<Rightarrow> bool) \<Rightarrow> 's handler" where
  "complaint_handler lev last_given command u l s =
     ((if lev (take (length ''complain'') (to_lower command)) ''complain'' \<le> 2 \<and> last_given (user_id u) s
       then bot_return (Some (Success (complaint l))) else bot_return None) s)"

section \<open>Edit distance\<close>

text \<open>\<open>edits s t n\<close>: \<open>n\<close> insertions, deletions and substitutions of single characters lead from \<open>s\<close> to
  \<open>t\<close>. The distance is the least such number.\<close>

inductive edits :: "string \<Rightarrow> string \<Rightarrow> nat \<Rightarrow> bool" where
  edits_nil: "edits [] [] 0"
| edits_keep: "edits s t n \<Longrightarrow> edits (c # s) (c # t) n"
| edits_substitute: "edits s t n \<Longrightarrow> edits (c # s) (d # t) (Suc n)"
| edits_delete: "edits s t n \<Longrightarrow> edits (c # s) t (Suc n)"
| edits_insert: "edits s t n \<Longrightarrow> edits s (d # t) (Suc n)"

definition edit_distance :: "(string \<Rightarrow> string \<Rightarrow> nat) \<Rightarrow> bool" where
  "edit_distance lev \<longleftrightarrow> (\<forall>s t. edits s t (lev s t) \<and> (\<forall>n. edits s t n \<longrightarrow> lev s t \<le> n))"

lemma edits_length: "edits s t n \<Longrightarrow> length s \<le> length t + n \<and> length t \<le> length s + n"
  by (induction rule: edits.induct) auto

lemma edits_all: "edits [] t (length t)" "edits s [] (length s)"
  by (induction t, auto intro: edits.intros) (induction s, auto intro: edits.intros)

lemma edits_append: "edits s t m \<Longrightarrow> edits s' t' n \<Longrightarrow> edits (s @ s') (t @ t') (m + n)"
  by (induction rule: edits.induct) (auto intro: edits.intros)

lemma edits_same: "edits s s 0"
  by (induction s) (auto intro: edits.intros)

lemma lev_length:
  "edit_distance lev \<Longrightarrow> length s \<le> length t + lev s t \<and> length t \<le> length s + lev s t"
  using edits_length unfolding edit_distance_def by blast

lemma lev_least: "edit_distance lev \<Longrightarrow> edits s t n \<Longrightarrow> lev s t \<le> n"
  unfolding edit_distance_def by blast

lemma lev_more: "edit_distance lev \<Longrightarrow> lev (s @ r) s \<le> length r"
  using edits_append [OF edits_same edits_all(2)] unfolding edit_distance_def by fastforce

lemma lev_same: "edit_distance lev \<Longrightarrow> lev s s = 0"
  using edits_same unfolding edit_distance_def by (metis le_zero_eq)

text \<open>The recursion that computes it.\<close>

fun edit_cost :: "string \<Rightarrow> string \<Rightarrow> nat" where
  "edit_cost [] t = length t"
| "edit_cost s [] = length s"
| "edit_cost (c # s) (d # t) =
     min (edit_cost s t + (if c = d then 0 else 1))
       (min (edit_cost s (d # t) + 1) (edit_cost (c # s) t + 1))"

lemma edit_cost_nil [simp]: "edit_cost s [] = length s"
  by (cases s) auto

lemma edit_cost_edits: "edits s t (edit_cost s t)"
proof (induction s t rule: edit_cost.induct)
  case (3 c s d t)
  then show ?case
    using edits_keep edits_substitute edits_delete edits_insert by (simp add: min_def)
next
  case (2 c s)
  show ?case using edits_all(2) [of "c # s"] by simp
qed (use edits_all in auto)

lemma edit_cost_delete: "edit_cost (c # s) t \<le> Suc (edit_cost s t)"
  by (cases t) auto

lemma edit_cost_insert: "edit_cost s (d # t) \<le> Suc (edit_cost s t)"
  by (cases s) auto

lemma edit_cost_least: "edits s t n \<Longrightarrow> edit_cost s t \<le> n"
proof (induction rule: edits.induct)
  case (edits_delete s t n c)
  then show ?case using edit_cost_delete [of c s t] by linarith
next
  case (edits_insert s t n d)
  then show ?case using edit_cost_insert [of s d t] by linarith
qed auto

lemma edit_cost_distance: "edit_distance edit_cost"
  using edit_cost_edits edit_cost_least by (simp add: edit_distance_def)

section \<open>The argument of a command\<close>

text \<open>A word that names the command.\<close>

definition names :: "(string \<Rightarrow> string \<Rightarrow> nat) \<Rightarrow> string \<Rightarrow> string \<Rightarrow> bool" where
  "names lev command w \<longleftrightarrow> w \<noteq> [] \<and> CHR '' '' \<notin> set w \<and> (to_lower w = [hd command] \<or> lev (to_lower w) command \<le> 2)"

lemma shorthand_word:
  assumes "CHR '' '' \<notin> set w" and "w \<noteq> []" and "lev (to_lower (w @ CHR '' '' # r)) command > 2"
  shows "shorthand_argument lev command (w @ CHR '' '' # r) = (if names lev command w then Some r else None)"
proof -
  let ?l = "to_lower w @ CHR '' '' # to_lower r"
  have l: "to_lower (w @ CHR '' '' # r) = ?l" by (simp add: to_lower_append to_lower_blank)
  have pos: "indexOf ?l (CHR '' '') 0 = int (length w)"
    using indexOf_append [OF to_lower_no_blank [OF assms(1)], of "to_lower r"] by simp
  have long: "?l \<noteq> [hd command]" using assms(2) by (cases w) (auto simp: to_lower_def)
  have one: "drop 2 (w @ CHR '' '' # r) = r" if "to_lower w = [hd command]"
    using that by (cases w; cases "tl w") (auto simp: to_lower_def)
  have ne: "to_lower w \<noteq> []" using assms(2) by (simp add: to_lower_def)
  have short: "startsWith ?l [hd command, CHR '' ''] \<longleftrightarrow> to_lower w = [hd command]"
    using ne to_lower_no_blank [OF assms(1)]
    by (cases "to_lower w"; cases "tl (to_lower w)") (auto simp: startsWith_def)
  show ?thesis
    using assms pos long short one
    by (auto simp: shorthand_argument_def Let_def l names_def)
qed

lemma no_blank: "CHR '' '' \<notin> set s \<Longrightarrow> indexOf s (CHR '' '') 0 = -1 \<and> \<not> startsWith s [c, CHR '' '']"
proof -
  have "index_of (CHR '' '') s = None" if "CHR '' '' \<notin> set s" for s
    using that by (induction s) auto
  moreover have "CHR '' '' \<in> set s" if "startsWith s [c, CHR '' '']"
    using that set_take_subset [of 2 s] by (auto simp: startsWith_def numeral_2_eq_2)
  ultimately show "CHR '' '' \<notin> set s \<Longrightarrow> ?thesis" by (auto simp: indexOf_def)
qed

lemma shorthand_other:
  assumes "lev (to_lower s) command > 2" and "to_lower s \<noteq> [hd command]" and "hd command \<noteq> CHR '' ''"
    and "CHR '' '' \<notin> set s \<or> hd s = CHR '' '' \<and> s \<noteq> []"
  shows "shorthand_argument lev command s = None"
  using assms(4)
proof
  assume "CHR '' '' \<notin> set s"
  then show ?thesis
    using no_blank [OF to_lower_no_blank] assms(1,2) by (simp add: shorthand_argument_def Let_def)
next
  assume "hd s = CHR '' '' \<and> s \<noteq> []"
  then obtain t where "to_lower s = CHR '' '' # to_lower t" by (cases s) (auto simp: to_lower_blank)
  then show ?thesis
    using assms(1-3) by (simp add: shorthand_argument_def Let_def indexOf_def startsWith_def)
qed

text \<open>C37. A command is read in all its forms. Its word, in any case and with up to two typing errors, or its
  first letter, followed by a space and an argument, passes exactly the argument on, provided the message
  is so much longer than the command that it cannot be taken for the command with typing errors. The word
  alone passes the empty argument. And whatever is passed on is what stands behind the first space of the
  message, after such a word, or nothing, for a message within two typing errors.\<close>

theorem shorthand_reads_argument:
  assumes "edit_distance lev"
  shows "(names lev command w \<longrightarrow> shorthand_argument lev command w = Some [])
    \<and> (names lev command w \<and> length command + 1 < length w + length r \<longrightarrow>
        shorthand_argument lev command (w @ CHR '' '' # r) = Some r)
    \<and> (hd command \<noteq> CHR '' '' \<and> shorthand_argument lev command s = Some r \<longrightarrow>
        (\<exists>w. names lev command w \<and> s = w @ CHR '' '' # r)
        \<or> r = [] \<and> (to_lower s = [hd command] \<or> lev (to_lower s) command \<le> 2))"
proof (intro conjI impI; (elim conjE)?)
  assume "names lev command w"
  then show "shorthand_argument lev command w = Some []"
    by (auto simp: names_def shorthand_argument_def Let_def)
next
  assume w: "names lev command w" and "length command + 1 < length w + length r"
  then have "lev (to_lower (w @ CHR '' '' # r)) command > 2"
    using lev_length [OF assms, of "to_lower (w @ CHR '' '' # r)" command] by simp
  then show "shorthand_argument lev command (w @ CHR '' '' # r) = Some r"
    using shorthand_word w by (simp add: names_def)
next
  assume c: "hd command \<noteq> CHR '' ''" and s: "shorthand_argument lev command s = Some r"
  show "(\<exists>w. names lev command w \<and> s = w @ CHR '' '' # r)
        \<or> r = [] \<and> (to_lower s = [hd command] \<or> lev (to_lower s) command \<le> 2)"
  proof (cases "to_lower s = [hd command] \<or> lev (to_lower s) command \<le> 2")
    case True
    then show ?thesis using s by (auto simp: shorthand_argument_def Let_def split: if_splits)
  next
    case False
    then have far: "lev (to_lower s) command > 2" "to_lower s \<noteq> [hd command]" by auto
    have blank: "CHR '' '' \<in> set s" "hd s \<noteq> CHR '' ''"
      using shorthand_other [of lev s command, OF far c] s by force+
    then obtain w r' where w: "s = w @ CHR '' '' # r'" "CHR '' '' \<notin> set w"
      using split_list_first by metis
    then have "w \<noteq> []" using blank(2) by auto
    then show ?thesis
      using shorthand_word [OF w(2), of lev r' command] far(1) s w(1) by (auto split: if_splits)
  qed
qed

lemma shorthand_reads_argument_witness:
  "shorthand_argument edit_cost ''recommend'' ''Recomend nap hd'' = Some ''nap hd''"
proof -
  have "edits (''recom'' @ ''end'') (''recom'' @ ''mend'') (0 + 1)"
    by (rule edits_append) (auto intro: edits_same edits_insert)
  then have "edit_cost ''recomend'' ''recommend'' \<le> 2"
    using lev_least [OF edit_cost_distance] by (fastforce simp del: edit_cost.simps)
  moreover have "to_lower ''Recomend'' = ''recomend''" by code_simp
  ultimately have "names edit_cost ''recommend'' ''Recomend''" by (simp add: names_def del: edit_cost.simps)
  then show ?thesis
    using shorthand_reads_argument [OF edit_cost_distance, of "''recommend''" "''Recomend''" "''nap hd''"]
    by (simp del: edit_cost.simps)
qed

text \<open>A short argument is taken for typing errors and dropped: one of a single character, always, behind the
  full word, and a longer one behind a misspelled word (the mods \<open>hd\<close> behind \<open>recommen\<close>).\<close>

lemma short_argument_dropped:
  assumes "edit_distance lev" and "to_lower command = command"
  shows "shorthand_argument lev command (command @ [CHR '' '', c]) = Some []"
proof -
  have "to_lower (command @ [CHR '' '', c]) = command @ to_lower [CHR '' '', c]"
    using assms(2) by (simp add: to_lower_append)
  then have "lev (to_lower (command @ [CHR '' '', c])) command \<le> 2"
    using lev_more [OF assms(1), of command "to_lower [CHR '' '', c]"] by simp
  then show ?thesis by (simp add: shorthand_argument_def Let_def)
qed

lemma mods_dropped:
  assumes "edit_distance lev"
  shows "shorthand_argument lev ''recommend'' ''recommen hd'' = Some []"
proof -
  have "edits (''recommen'' @ '' hd'') (''recommen'' @ ''d'') (0 + 2)"
    unfolding numeral_2_eq_2
    by (rule edits_append, rule edits_same, rule edits_delete, rule edits_delete, rule edits_keep, rule edits_nil)
  moreover have "to_lower ''recommen hd'' = ''recommen hd''" by code_simp
  ultimately show ?thesis
    using lev_least [OF assms] by (fastforce simp: shorthand_argument_def Let_def)
qed

end
