(* ===== verification/Options.thy ===== *)
theory Options
  imports User_Data Commands Request_Parser
begin

text \<open>
  The commands that show and set the options of a user (\<open>handlers/OptionsHandler\<close> and \<open>handlers/options\<close>),
  on the settings of \<open>User_Data\<close>.
\<close>

section \<open>Options\<close>

datatype option_kind =
    LangOption | WelcomeOption | OsutrackWelcomeOption | DefaultOption | MapMetaDataOption | V2ApiOption

text \<open>In the order in which the handlers are asked.\<close>

definition option_kinds :: "option_kind list" where
  "option_kinds =
     [LangOption, WelcomeOption, OsutrackWelcomeOption, DefaultOption, MapMetaDataOption, V2ApiOption]"

fun option_description :: "option_kind \<Rightarrow> string" where
  "option_description LangOption = ''Language''"
| "option_description WelcomeOption = ''Welcome Message''"
| "option_description OsutrackWelcomeOption = ''osu!track on welcome''"
| "option_description DefaultOption = ''Default recommendation settings''"
| "option_description MapMetaDataOption = ''Show map metadata on recommendations''"
| "option_description V2ApiOption = ''v2 API''"

fun optionName :: "option_kind \<Rightarrow> string" where
  "optionName LangOption = ''language''"
| "optionName WelcomeOption = ''welcome''"
| "optionName OsutrackWelcomeOption = ''osutrack-welcome''"
| "optionName DefaultOption = ''default''"
| "optionName MapMetaDataOption = ''r-metadata''"
| "optionName V2ApiOption = ''v2''"

fun shortOptionName :: "option_kind \<Rightarrow> string option" where
  "shortOptionName LangOption = Some ''lang''"
| "shortOptionName k = None"

fun minHearts :: "option_kind \<Rightarrow> int" where
  "minHearts WelcomeOption = 1"
| "minHearts OsutrackWelcomeOption = 1"
| "minHearts k = 0"

definition shouldHandle :: "(string \<Rightarrow> string \<Rightarrow> nat) \<Rightarrow> option_kind \<Rightarrow> string \<Rightarrow> int \<Rightarrow> bool" where
  "shouldHandle lev k opt hearts \<longleftrightarrow>
     \<not> hearts < minHearts k \<and> (shortOptionName k = Some opt \<or> lev opt (optionName k) \<le> 1)"

text \<open>What the options need: Jackson, the hearts of a user, the parser of requests, the identifiers of
  languages with their names, the comment of a language on itself, and the download of the top scores.\<close>

record ('i, 'j, 'l, 'm, 'z) option_env =
  option_jackson :: "('i, 'j, 'l) jackson"
  option_lev :: "string \<Rightarrow> string \<Rightarrow> nat"
  option_hearts :: "int \<Rightarrow> int"
  option_parser :: "'m parser_env"
  language_values :: "'i list"
  language_token :: "'i \<Rightarrow> string"
  optionalCommentOnLanguage :: "'l \<Rightarrow> response \<times> 'l"
  forceUpdateTopScores :: "int \<Rightarrow> ('i, 'j, 'l, 'z, unit) data_bot"

text \<open>\<open>OptionsHandler.find\<close>: the candidates at the least distance, which is at most one; \<open>None\<close> when there
  is none or more than one.\<close>

fun find_candidates ::
  "('e \<Rightarrow> nat) \<Rightarrow> 'e list \<Rightarrow> nat option \<Rightarrow> 'e list \<Rightarrow> 'e list" where
  "find_candidates distance [] best found = found"
| "find_candidates distance (c # cs) best found =
     (let d = distance c
      in if d > 1 then find_candidates distance cs best found
         else if best = None \<or> d < the best then find_candidates distance cs (Some d) [c]
         else if d = the best then find_candidates distance cs best (found @ [c])
         else find_candidates distance cs best found)"

definition find_enum :: "(string \<Rightarrow> string \<Rightarrow> nat) \<Rightarrow> 'e list \<Rightarrow> ('e \<Rightarrow> string) \<Rightarrow> string \<Rightarrow> 'e option" where
  "find_enum lev haystack token needle =
     (case find_candidates (\<lambda>c. lev (to_lower (token c)) (to_lower needle)) haystack None [] of
        [x] \<Rightarrow> Some x
      | _ \<Rightarrow> None)"

definition parseBoolean :: "string \<Rightarrow> lang \<Rightarrow> throwable + bool" where
  "parseBoolean original l =
     (let s = to_lower original
      in if s \<in> {''on'', ''true'', ''yes'', ''1''} then Inr True
         else if s \<in> {''off'', ''false'', ''no'', ''0''} then Inr False
         else Inl (UserExn (invalidChoice l original ''on|true|yes|1|off|false|no|0'')))"

fun user_exn_message :: "lang \<Rightarrow> user_exn \<Rightarrow> string" where
  "user_exn_message l (InvalidChoice s choices) = invalidChoice l s choices"
| "user_exn_message l MixedNomodAndMods = mixedNomodAndMods l"

section \<open>Setting and showing\<close>

definition bot_update ::
  "(('i, 'j, 'l) user_data \<Rightarrow> ('i, 'j, 'l) user_data) \<Rightarrow> ('i, 'j, 'l, 'z, unit) data_bot" where
  "bot_update f s = (Inr (), s\<lparr>current := f (current s)\<rparr>)"

definition bot_of :: "throwable + 'a \<Rightarrow> ('s, 'a) bot" where
  "bot_of r s = (r, s)"

fun set_boolean ::
  "('i, 'j, 'l, 'm, 'z) option_env \<Rightarrow> option_kind \<Rightarrow> bool \<Rightarrow> ('i, 'j, 'l, 'z, unit) data_bot" where
  "set_boolean env WelcomeOption b = bot_update (setShowWelcomeMessage b)"
| "set_boolean env OsutrackWelcomeOption b = bot_update (setOsuTrackWelcomeEnabled b)"
| "set_boolean env MapMetaDataOption b = bot_update (setShowMapMetaData b)"
| "set_boolean env V2ApiOption b =
     bot_bind (bot_update (setV2 b)) (\<lambda>_.
       bot_bind (save_user_data (option_jackson env)) (\<lambda>_ s.
         forceUpdateTopScores env (userid (current s)) s))"
| "set_boolean env k b = bot_return ()"

fun joining :: "string \<Rightarrow> string list \<Rightarrow> string" where
  "joining d [] = []"
| "joining d [x] = x"
| "joining d (x # xs) = x @ d @ joining d xs"

definition language_choices :: "('i, 'j, 'l, 'm, 'z) option_env \<Rightarrow> string" where
  "language_choices env = joining '', '' (sort (map (language_token env) (language_values env)))"

definition handle_set ::
  "('i, 'j, 'l, 'm, 'z) option_env \<Rightarrow> option_kind \<Rightarrow> string \<Rightarrow> lang \<Rightarrow> ('i, 'j, 'l, 'z, unit) data_bot" where
  "handle_set env k v l =
     (case k of
        LangOption \<Rightarrow>
          (case find_enum (option_lev env) (language_values env) (language_token env) v of
             None \<Rightarrow> bot_throw (UserExn (invalidChoice l v (language_choices env)))
           | Some i \<Rightarrow> bot_update (setLanguage i))
      | DefaultOption \<Rightarrow>
          if v = [] then bot_update (setDefaultRecommendationOptions None)
          else
            (case parseSamplerSettings (option_parser env) v of
               Inl e \<Rightarrow> bot_throw (UserExn (user_exn_message l e))
             | Inr _ \<Rightarrow> bot_update (setDefaultRecommendationOptions (Some v)))
      | _ \<Rightarrow> bot_bind (bot_of (parseBoolean v l)) (set_boolean env k))"

definition on_off :: "bool \<Rightarrow> string" where
  "on_off b = (if b then ''ON'' else ''OFF'')"

definition getCurrentValue :: "('i, 'j, 'l, 'm, 'z) option_env \<Rightarrow> option_kind \<Rightarrow> ('i, 'j, 'l) user_data \<Rightarrow> string" where
  "getCurrentValue env k d =
     (case k of
        LangOption \<Rightarrow> language_token env (languageIdentifier d)
      | WelcomeOption \<Rightarrow> on_off (showWelcomeMessage d)
      | OsutrackWelcomeOption \<Rightarrow> on_off (osuTrackWelcomeEnabled d)
      | DefaultOption \<Rightarrow> (case defaultRecommendationOptions d of None \<Rightarrow> ''-'' | Some v \<Rightarrow> v)
      | MapMetaDataOption \<Rightarrow> on_off (showMapMetaDataOnRecommendation d)
      | V2ApiOption \<Rightarrow> on_off (v2 d))"

definition handle_get :: "('i, 'j, 'l, 'm, 'z) option_env \<Rightarrow> option_kind \<Rightarrow> ('i, 'j, 'l, 'z, response) data_bot" where
  "handle_get env k s = (Inr (Message (option_description k @ '': '' @ getCurrentValue env k (current s))), s)"

definition response_after_set ::
  "('i, 'j, 'l, 'm, 'z) option_env \<Rightarrow> option_kind \<Rightarrow> ('i, 'j, 'l, 'z, response) data_bot" where
  "response_after_set env k =
     (if k = LangOption then using_language (option_jackson env) (optionalCommentOnLanguage env) else handle_get env k)"

text \<open>\<open>OptionHandler.handle\<close>\<close>

definition option_handle ::
  "('i, 'j, 'l, 'm, 'z) option_env \<Rightarrow> option_kind \<Rightarrow> string \<Rightarrow> string option \<Rightarrow> lang \<Rightarrow>
     ('i, 'j, 'l, 'z, response option) data_bot" where
  "option_handle env k opt v l s =
     (if \<not> shouldHandle (option_lev env) k opt (option_hearts env (userid (current s))) then bot_return None
      else
        bot_bind
          (case v of
             Some v \<Rightarrow> bot_bind (handle_set env k v l) (\<lambda>_. response_after_set env k)
           | None \<Rightarrow> handle_get env k)
          (\<lambda>r. bot_return (Some r))) s"

fun option_loop ::
  "('i, 'j, 'l, 'm, 'z) option_env \<Rightarrow> option_kind list \<Rightarrow> string \<Rightarrow> string option \<Rightarrow> lang \<Rightarrow>
     ('i, 'j, 'l, 'z, response option) data_bot" where
  "option_loop env [] opt v l = bot_return None"
| "option_loop env (k # ks) opt v l =
     bot_bind (option_handle env k opt v l) (\<lambda>r.
       case r of None \<Rightarrow> option_loop env ks opt v l | Some r \<Rightarrow> bot_return (Some r))"

text \<open>What a command asks for: the option, and the value if it is to be set.\<close>

definition option_request :: "string \<Rightarrow> (string \<times> string option) option" where
  "option_request command =
     (let lower = to_lower command;
          set_request = (\<lambda>command.
            case index_of (CHR '' '') command of
              Some i \<Rightarrow> (to_lower (take i command), Some (drop (i + 1) command))
            | None \<Rightarrow> (to_lower command, Some []))
      in if startsWith lower ''set'' then Some (set_request (trim (drop 3 command)))
         else if startsWith lower ''show'' \<or> startsWith lower ''view''
           then Some (to_lower (trim (drop 4 command)), None)
         else if startsWith lower ''get'' then Some (to_lower (trim (drop 3 command)), None)
         else None)"

definition options_handler ::
  "('i, 'j, 'l, 'm, 'z) option_env \<Rightarrow> ('i, 'j, 'l, 'z) data_state_scheme handler" where
  "options_handler env command u l s =
     (case option_request command of
        None \<Rightarrow> (Inr None, s)
      | Some (opt, v) \<Rightarrow>
          (case option_loop env option_kinds opt v l s of
             (Inl e, s') \<Rightarrow> (Inl e, s')
           | (Inr (Some r), s') \<Rightarrow> (Inr (Some r), s')
           | (Inr None, s') \<Rightarrow>
               (Inl (UserExn (invalidChoice l opt (joining '', '' (map optionName
                  (filter (\<lambda>k. option_hearts env (userid (current s')) \<ge> minHearts k) option_kinds))))), s')))"

end
