(* ===== verification/Songs.thy ===== *)
theory Songs
  imports Song_Info Options
begin

unbundle bit_operations_syntax

text \<open>
  The commands on a beatmap: \<open>/np\<close>, \<open>!with\<close> and \<open>!now\<close> name one, which is kept in the settings of the user,
  and \<open>!acc\<close> asks for its performance (\<open>handlers/NPHandler\<close>, \<open>WithHandler\<close>, \<open>RecentHandler\<close>,
  \<open>AccHandler\<close>). Beatmaps are loaded by \<open>diff/DiffEstimateProvider\<close>.
\<close>

section \<open>Environment\<close>

record api_score =
  recent_beatmapId :: int
  recent_mods :: int
  recent_accuracy :: rat

text \<open>The texts of the languages, their comments (\<open>Language.optionalCommentOnNP\<close> and \<open>optionalCommentOnWith\<close>,
  none in most languages; they change nothing, but may throw, and may be drawn at random, for which they look
  at the state), the hearts of a user, \<open>ApiBeatmap.loadOrDownload\<close> (for a beatmap and the mods
  that matter for its difficulty), \<open>DiffEstimateProvider.loadOrCalculate\<close>, \<open>Double.parseDouble\<close>,
  \<open>Mods.fromShortNamesContinuous\<close>, the bit of a mod by its name, and the recent plays of a user.\<close>

record ('i, 'j, 'l, 'z) song_env =
  song_lib :: song_lib
  song_texts_of :: "lang \<Rightarrow> song_texts"
  optionalCommentOnNP :: "lang \<Rightarrow> user \<Rightarrow> beatmap_meta \<Rightarrow> ('i, 'j, 'l, 'z) data_state_scheme \<Rightarrow> throwable + response"
  optionalCommentOnWith :: "lang \<Rightarrow> user \<Rightarrow> beatmap_meta \<Rightarrow> ('i, 'j, 'l, 'z) data_state_scheme \<Rightarrow> throwable + response"
  song_hearts :: "int \<Rightarrow> int"
  loadOrDownload :: "int \<Rightarrow> int \<Rightarrow> ('i, 'j, 'l, 'z, api_beatmap option) data_bot"
  loadOrCalculate :: "int \<Rightarrow> int \<Rightarrow> ('i, 'j, 'l, 'z, impl option) data_bot"
  parseDouble :: "string \<Rightarrow> number option"
  fromShortNamesContinuous :: "string \<Rightarrow> int option"
  mod_mask :: "string \<Rightarrow> int option"
  getRecentPlays :: "int \<Rightarrow> ('i, 'j, 'l, 'z, api_score list) data_bot"

section \<open>Beatmaps\<close>

definition addLazer :: "song_lib \<Rightarrow> ('i, 'j, 'l) user_data \<Rightarrow> int \<Rightarrow> int" where
  "addLazer lib d mods = (if v2 d then getMask_of lib (getMods_of lib mods @ [''Lazer'']) else mods)"

definition diffMods :: "song_lib \<Rightarrow> int" where
  "diffMods lib = getMask_of lib [''TouchDevice'', ''HalfTime'', ''DoubleTime'', ''Easy'', ''HardRock'', ''Flashlight'']"

definition getDiffMods :: "song_lib \<Rightarrow> int \<Rightarrow> int" where
  "getDiffMods lib mods =
     (let mods = (if is_mod lib ''Nightcore'' mods
                  then (mods OR getMask_of lib [''DoubleTime'']) XOR getMask_of lib [''Nightcore''] else mods);
          hdfl = is_mod lib ''Flashlight'' mods \<and> is_mod lib ''Hidden'' mods;
          mods = mods AND diffMods lib
      in if hdfl then mods OR getMask_of lib [''Hidden''] else mods)"

definition getEstimates ::
  "('i, 'j, 'l, 'z) song_env \<Rightarrow> int \<Rightarrow> int \<Rightarrow> int \<Rightarrow> ('i, 'j, 'l, 'z, estimates option) data_bot" where
  "getEstimates sg gameMode b mods =
     (if gameMode \<noteq> 0 then bot_return None
      else bot_bind (loadOrCalculate sg b mods) (\<lambda>i.
        bot_return (map_option (\<lambda>i. \<lparr>est_beatmap = i, est_mods = mods\<rparr>) i)))"

text \<open>An \<open>SQLException\<close> is wrapped, which makes a recoverable one a common one.\<close>

definition loadBeatmap ::
  "('i, 'j, 'l, 'z) song_env \<Rightarrow> int \<Rightarrow> int \<Rightarrow> ('i, 'j, 'l, 'z, beatmap_meta option) data_bot" where
  "loadBeatmap sg b mods =
     bot_bind
       (bot_catch (loadOrDownload sg b (getDiffMods (song_lib sg) mods)) (\<lambda>e. e = SqlExn \<or> e = SqlRecoverable)
         (\<lambda>_. bot_throw SqlExn))
       (\<lambda>found. case found of
          None \<Rightarrow> bot_return None
        | Some x \<Rightarrow> bot_bind (getEstimates sg (mode x) (api_beatmapId x) mods) (\<lambda>e.
            bot_return (map_option (\<lambda>e. \<lparr>beatmap = x, personalPP = None, estimates = e\<rparr>) e)))"

section \<open>Handlers\<close>

definition set_song :: "int \<times> int \<Rightarrow> ('i, 'j, 'l, 'z, unit) data_bot" where
  "set_song x s = (Inr (), s\<lparr>current := setLastSongInfo (Some x) (current s)\<rparr>)"

definition info_message ::
  "('i, 'j, 'l, 'z) song_env \<Rightarrow> beatmap_meta \<Rightarrow> string option \<Rightarrow> hits \<Rightarrow> ('i, 'j, 'l, 'z, string) data_bot" where
  "info_message sg m addition h s =
     (formInfoMessage (song_lib sg) m False True addition (song_hearts sg (userid (current s))) h, s)"

text \<open>The argument of \<open>!acc\<close>: a comma is a point.\<close>

definition acc_message :: "string \<Rightarrow> string" where
  "acc_message original = map (\<lambda>c. if c = CHR '','' then CHR ''.'' else c) (trim (drop 3 original))"

definition acc_handler ::
  "('i, 'j, 'l, 'z) song_env \<Rightarrow> string \<Rightarrow> user \<Rightarrow> lang \<Rightarrow> ('i, 'j, 'l, 'z, response option) data_bot" where
  "acc_handler sg original u l s =
     (if \<not> startsWith (to_lower original) ''acc'' then bot_return None
      else
        case lastSongInfo (current s) of
          None \<Rightarrow> bot_throw (UserExn (noLastSongInfo (song_texts_of sg l)))
        | Some (b, mods) \<Rightarrow>
            bot_bind (loadBeatmap sg b (addLazer (song_lib sg) (current s) mods)) (\<lambda>m.
              case m of
                None \<Rightarrow> bot_throw (UserExn (excuseForError (song_texts_of sg l)))
              | Some m \<Rightarrow>
                  bot_bind (bot_of (acc_hits (parseDouble sg) (song_texts_of sg l) l (acc_message original))) (\<lambda>h.
                    bot_bind (info_message sg m None h) (\<lambda>t. bot_return (Some (Success t)))))) s"

text \<open>A comment of the language follows the answer to \<open>!with\<close> and to \<open>/np\<close>.\<close>

definition comment ::
  "(lang \<Rightarrow> user \<Rightarrow> beatmap_meta \<Rightarrow> ('i, 'j, 'l, 'z) data_state_scheme \<Rightarrow> throwable + response) \<Rightarrow>
     lang \<Rightarrow> user \<Rightarrow> beatmap_meta \<Rightarrow> ('i, 'j, 'l, 'z, response) data_bot" where
  "comment f l u m s = (f l u m s, s)"

definition with_handler ::
  "('i, 'j, 'l, 'z) song_env \<Rightarrow> string \<Rightarrow> user \<Rightarrow> lang \<Rightarrow> ('i, 'j, 'l, 'z, response option) data_bot" where
  "with_handler sg original u l s =
     (if \<not> startsWith (to_lower original) ''with'' then bot_return None
      else
        case lastSongInfo (current s) of
          None \<Rightarrow> bot_throw (UserExn (noLastSongInfo (song_texts_of sg l)))
        | Some (b, _) \<Rightarrow>
            let message = trim (drop 4 original);
                bad = bot_throw (UserExn (malformattedMods (song_texts_of sg l) message))
            in case fromShortNamesContinuous sg message of
                 None \<Rightarrow> bad
               | Some mods \<Rightarrow>
                   if mods = 0 then bad
                   else
                     bot_bind (loadBeatmap sg b (addLazer (song_lib sg) (current s) mods)) (\<lambda>m.
                       case m of
                         None \<Rightarrow> bot_throw (UserExn (excuseForError (song_texts_of sg l)))
                       | Some m \<Rightarrow>
                           if meta_mods m = 0 then bot_throw (UserExn (noInformationForMods (song_texts_of sg l)))
                           else
                             bot_bind (set_song (api_beatmapId (beatmap m), meta_mods m)) (\<lambda>_.
                               bot_bind (info_message sg m None UsualHits) (\<lambda>t.
                                 bot_bind (comment (optionalCommentOnWith sg) l u m) (\<lambda>c.
                                   bot_return (Some (and_then (Message t) (Some c)))))))) s"

definition np_handler ::
  "('i, 'j, 'l, 'z) song_env \<Rightarrow> string \<Rightarrow> user \<Rightarrow> lang \<Rightarrow> ('i, 'j, 'l, 'z, response option) data_bot" where
  "np_handler sg message u l =
     bot_bind (bot_of (parseNP (mod_mask sg) l message)) (\<lambda>np. case np of
       None \<Rightarrow> bot_return None
     | Some (b, mods) \<Rightarrow> (\<lambda>s.
         let asked = addLazer (song_lib sg) (current s) mods
         in bot_bind (loadBeatmap sg b asked) (\<lambda>m.
              case m of
                None \<Rightarrow> bot_throw (UserExn (unknownBeatmap (song_texts_of sg l)))
              | Some m \<Rightarrow>
                  bot_bind (set_song (b, meta_mods m)) (\<lambda>_.
                    bot_bind
                      (info_message sg m
                        (if meta_mods m \<noteq> asked
                         then Some (''('' @ noInformationForModsShort (song_texts_of sg l) @ '')'') else None)
                        UsualHits)
                      (\<lambda>t. bot_bind (comment (optionalCommentOnNP sg) l u m) (\<lambda>c.
                        bot_return (Some (and_then (Success t) (Some c))))))) s))"

text \<open>The comments of the languages \<open>TsundereEnglish\<close> and \<open>TsundereGerman\<close>: in one case of four (\<open>draw\<close> is
  \<open>Math.random()\<close>), on a beatmap that is too hard for the pp of the user, or too easy (less than the share
  \<open>low\<close>: 0.333 for \<open>/np\<close>, 0.5 for \<open>!with\<close>). Dividing by no pp at all gives an infinity or not a number.\<close>

definition divide_double :: "rat \<Rightarrow> rat \<Rightarrow> number" where
  "divide_double a b =
     (if b \<noteq> 0 then Finite (dbl (a / b)) else if 0 < a then PosInfinity else if a < 0 then NegInfinity else NaN)"

definition tsundere_comment ::
  "song_lib \<Rightarrow> rat \<Rightarrow> rat \<Rightarrow> string \<Rightarrow> string \<Rightarrow> rat \<Rightarrow> beatmap_meta \<Rightarrow> throwable + response" where
  "tsundere_comment lib pp low too_hard too_easy draw m =
     (if draw > 1 / 4 then Inr NoResponse
      else
        let typicalPP = dbl (pp / 20)
        in sum_bind (getPP lib (estimates m) (dbl (95 / 100))) (\<lambda>p95.
             if Finite 2 < divide_double p95 typicalPP then Inr (Message too_hard)
             else sum_bind (getPP lib (estimates m) 1) (\<lambda>p100.
               if divide_double p100 typicalPP < Finite (dbl low) then Inr (Message too_easy) else Inr NoResponse)))"

definition recent_handler ::
  "('i, 'j, 'l, 'z) song_env \<Rightarrow> string \<Rightarrow> user \<Rightarrow> lang \<Rightarrow> ('i, 'j, 'l, 'z, response option) data_bot" where
  "recent_handler sg command u l s =
     (if to_lower command \<noteq> ''now'' then bot_return None
      else if song_hearts sg (userid (current s)) \<le> 0 then bot_return None
      else
        bot_bind (getRecentPlays sg (user_id u)) (\<lambda>plays.
          case plays of
            [] \<Rightarrow> bot_throw (UserExn (noRecentPlays (song_texts_of sg l)))
          | score # _ \<Rightarrow>
              bot_bind (loadBeatmap sg (recent_beatmapId score) (recent_mods score)) (\<lambda>m.
                case m of
                  None \<Rightarrow> bot_throw (UserExn (unknownBeatmap (song_texts_of sg l)))
                | Some m \<Rightarrow>
                    if meta_mods m \<noteq> recent_mods score
                    then bot_throw (UserExn (noInformationForMods (song_texts_of sg l)))
                    else
                      bot_bind (set_song (api_beatmapId (beatmap m), meta_mods m)) (\<lambda>_.
                        bot_bind (info_message sg m None (AccHits (recent_accuracy score))) (\<lambda>t.
                          bot_return (Some (Success t))))))) s"

end
