(* ===== verification/User_Data_Correct.thy ===== *)
theory User_Data_Correct
  imports User_Data "HOL-Library.Countable"
begin

text \<open>
  Nothing that a user sets is lost (\<open>settings_survive\<close>): the flag that decides whether the settings are
  written is set by every change, so that the row of the user, while the flag is clear, is read as what the
  user sees.
\<close>

section \<open>What is relied on\<close>

text \<open>Settings are read back as they were written, but a missing tree as \<open>NullNode\<close>; a language is read back as
  an unmodified object of its class (\<open>cls\<close>) with the same state.\<close>

definition jackson_laws :: "('i, 'j, 'l) jackson \<Rightarrow> ('i \<Rightarrow> 'l \<Rightarrow> bool) \<Rightarrow> bool" where
  "jackson_laws jk cls \<longleftrightarrow>
     (\<forall>f. readValue jk (writeValueAsString jk f) =
        Some (f\<lparr>serializedLanguage := Some (case serializedLanguage f of None \<Rightarrow> json_null jk | Some j \<Rightarrow> j)\<rparr>)) \<and>
     (\<forall>f. writeValueAsString jk f \<noteq> []) \<and> (\<forall>l. valueToTree jk l \<noteq> json_null jk) \<and>
     (\<forall>i l. cls i l \<longrightarrow> treeToValue jk i (valueToTree jk l) = Some (clearModified jk l)) \<and>
     (\<forall>i j l. treeToValue jk i j = Some l \<longrightarrow> cls i l \<and> \<not> isModified jk l) \<and>
     (\<forall>i. cls i (newLanguage jk i) \<and> \<not> isModified jk (newLanguage jk i)) \<and>
     (\<forall>i l. cls i (clearModified jk l) \<longleftrightarrow> cls i l) \<and>
     (\<forall>l. \<not> isModified jk (clearModified jk l)) \<and> (\<forall>l. \<not> isModified jk l \<longrightarrow> clearModified jk l = l)"

text \<open>A task on a language registers its modifications.\<close>

definition registers :: "('i, 'j, 'l) jackson \<Rightarrow> ('i \<Rightarrow> 'l \<Rightarrow> bool) \<Rightarrow> ('l \<Rightarrow> 'a \<times> 'l) \<Rightarrow> bool" where
  "registers jk cls task \<longleftrightarrow>
     (\<forall>l. (\<forall>i. cls i l \<longrightarrow> cls i (snd (task l))) \<and> (isModified jk l \<longrightarrow> isModified jk (snd (task l)))
        \<and> (isModified jk (snd (task l)) \<or> snd (task l) = l))"

section \<open>What a user sees\<close>

text \<open>The settings and the state of the language, loaded or not.\<close>

definition user_view :: "('i, 'j, 'l) jackson \<Rightarrow> ('i, 'j, 'l) user_data \<Rightarrow> ('i, 'j) settings \<times> 'l option" where
  "user_view jk d =
     ((written_settings d)\<lparr>serializedLanguage := None\<rparr>, map_option (clearModified jk) (load_language jk d))"

definition setters :: "(('i, 'j, 'l) user_data \<Rightarrow> ('i, 'j, 'l) user_data) set" where
  "setters =
     range setAllowedToDebug \<union> range setLanguage \<union> range setLastSongInfo \<union> range setDefaultRecommendationOptions
     \<union> range setShowWelcomeMessage \<union> range setOsuTrackWelcomeEnabled \<union> range setShowMapMetaData \<union> range setV2"

lemmas setter_defs = setAllowedToDebug_def setLanguage_def setLastSongInfo_def
  setDefaultRecommendationOptions_def setShowWelcomeMessage_def setOsuTrackWelcomeEnabled_def
  setShowMapMetaData_def setV2_def

lemma setter_marks: "f \<in> setters \<Longrightarrow> f d = d \<or> changed (f d)"
  by (auto simp: setters_def setter_defs)

lemma setter_language:
  "f \<in> setters \<Longrightarrow> userid (f d) = userid d \<and> (language (f d) = None \<or> language (f d) = language d
     \<and> languageIdentifier (f d) = languageIdentifier d \<and> serializedLanguage (f d) = serializedLanguage d)"
  by (auto simp: setters_def setter_defs split: if_splits)

section \<open>Steps\<close>

text \<open>While a message is handled: setters, tasks on the language, saving, and what does not concern the
  settings (outages of the database included).\<close>

inductive data_step ::
  "('i, 'j, 'l) jackson \<Rightarrow> ('i \<Rightarrow> 'l \<Rightarrow> bool) \<Rightarrow> ('i, 'j, 'l, 'z) data_state_scheme \<Rightarrow> ('i, 'j, 'l, 'z) data_state_scheme \<Rightarrow> bool"
  for jk cls where
  set_field: "f \<in> setters \<Longrightarrow> data_step jk cls s (s\<lparr>current := f (current s)\<rparr>)"
| use_language: "registers jk cls (task :: 'l \<Rightarrow> response \<times> 'l) \<Longrightarrow> data_step jk cls s (snd (using_language jk task s))"
| save: "data_step jk cls s (snd (save_user_data jk s))"
| elsewhere: "current t = current s \<Longrightarrow> rows t = rows s \<Longrightarrow> data_step jk cls s t"

definition stored_view :: "('i, 'j, 'l) jackson \<Rightarrow> ('i, 'j, 'l, 'z) data_state_scheme \<Rightarrow> (('i, 'j) settings \<times> 'l option) option" where
  "stored_view jk s = map_option (user_view jk) (read_row jk (userid (current s)) (rows s (userid (current s))))"

text \<open>The language that is loaded is one of its class, and what it was read from while it is not modified.\<close>

definition language_ok :: "('i, 'j, 'l) jackson \<Rightarrow> ('i \<Rightarrow> 'l \<Rightarrow> bool) \<Rightarrow> ('i, 'j, 'l) user_data \<Rightarrow> bool" where
  "language_ok jk cls d \<longleftrightarrow>
     (\<forall>l. language d = Some l \<longrightarrow> cls (languageIdentifier d) l
        \<and> (\<not> isModified jk l \<longrightarrow> read_language jk (languageIdentifier d) (serializedLanguage d) = Some l))"

definition coherent :: "('i, 'j, 'l) jackson \<Rightarrow> ('i \<Rightarrow> 'l \<Rightarrow> bool) \<Rightarrow> ('i, 'j, 'l, 'z) data_state_scheme \<Rightarrow> bool" where
  "coherent jk cls s \<longleftrightarrow> language_ok jk cls (current s) \<and> stored_view jk s \<noteq> None \<and>
     (\<not> isChanged jk (current s) \<longrightarrow> stored_view jk s = Some (user_view jk (current s)))"

lemma load_language_ok:
  assumes "jackson_laws jk cls" and "language_ok jk cls d" and "load_language jk d = Some l"
  shows "language_ok jk cls (d\<lparr>language := Some l\<rparr>)"
  using assms by (auto simp: load_language_def language_ok_def jackson_laws_def read_language_def split: option.splits if_splits)

lemma coherent_setter:
  assumes "f \<in> setters" and "coherent jk cls s"
  shows "coherent jk cls (s\<lparr>current := f (current s)\<rparr>)"
  using setter_marks [OF assms(1), of "current s"]
proof
  assume "f (current s) = current s"
  then show ?thesis using assms(2) by simp
next
  assume c: "changed (f (current s))"
  have "language_ok jk cls (f (current s))"
    using setter_language [OF assms(1), of "current s"] assms(2)
    by (auto simp: coherent_def language_ok_def load_language_def)
  then show ?thesis
    using c setter_language [OF assms(1), of "current s"] assms(2)
    by (simp add: coherent_def isChanged_def stored_view_def)
qed

lemma coherent_using:
  assumes "jackson_laws jk cls" and "registers jk cls task" and "coherent jk cls s"
  shows "coherent jk cls (snd (using_language jk task s))"
proof (cases "load_language jk (current s)")
  case None
  then show ?thesis using assms by (simp add: using_language_def)
next
  case (Some l)
  let ?d = "(current s)\<lparr>language := Some (snd (task l))\<rparr>"
  have s: "snd (using_language jk task s) = s\<lparr>current := ?d\<rparr>"
    by (simp add: using_language_def Some split: prod.split)
  have ok: "language_ok jk cls ((current s)\<lparr>language := Some l\<rparr>)"
    using load_language_ok [OF assms(1) _ Some] assms(3) by (simp add: coherent_def)
  have reg: "cls i l \<Longrightarrow> cls i (snd (task l))" "isModified jk l \<Longrightarrow> isModified jk (snd (task l))"
    "isModified jk (snd (task l)) \<or> snd (task l) = l" for i
    using assms(2) by (auto simp: registers_def)
  have "language_ok jk cls ?d"
    using ok reg by (auto simp: language_ok_def)
  moreover have "user_view jk ?d = user_view jk (current s) \<and> \<not> isChanged jk (current s)" if "\<not> isChanged jk ?d"
  proof -
    have "snd (task l) = l" "\<not> isModified jk l" "\<not> changed (current s)"
      using that reg by (auto simp: isChanged_def)
    then show ?thesis
      using Some by (auto simp: isChanged_def user_view_def written_settings_def load_language_def split: option.splits)
  qed
  ultimately show ?thesis
    using assms(3) by (auto simp: s coherent_def stored_view_def)
qed

text \<open>What saving does: nothing without a change; otherwise the row is what the settings are written as, with
  the tree of a modified language.\<close>

definition saved_data :: "('i, 'j, 'l) jackson \<Rightarrow> 'l \<Rightarrow> ('i, 'j, 'l) user_data \<Rightarrow> ('i, 'j, 'l) user_data" where
  "saved_data jk l d =
     d\<lparr>language := Some l,
       serializedLanguage := (if isModified jk l then Some (valueToTree jk l) else serializedLanguage d)\<rparr>"

lemma save_eq:
  "save_user_data jk s =
     (if \<not> isChanged jk (current s) then (Inr (), s)
      else case load_language jk (current s) of
        None \<Rightarrow> (Inl RuntimeExn, s)
      | Some l \<Rightarrow>
          (case sql_failure (database s) of
             Some e \<Rightarrow> (Inl e, s\<lparr>current := saved_data jk l (current s)\<rparr>)
           | None \<Rightarrow> (Inr (), s\<lparr>rows := (rows s)(userid (current s) \<mapsto>
                 writeValueAsString jk (written_settings (saved_data jk l (current s)))),
               current := setChanged jk False (saved_data jk l (current s))\<rparr>)))"
proof (cases "load_language jk (current s)")
  case (Some l)
  have r: "isModified jk l \<Longrightarrow> d\<lparr>language := Some l, serializedLanguage := Some (valueToTree jk l)\<rparr> = saved_data jk l d"
    "\<not> isModified jk l \<Longrightarrow> d\<lparr>language := Some l\<rparr> = saved_data jk l d" for d
    by (simp_all add: saved_data_def)
  have i: "userid (saved_data jk l d) = userid d" for d by (simp add: saved_data_def)
  have u: "using_language jk (\<lambda>l. (l, l)) s = (Inr l, s\<lparr>current := (current s)\<lparr>language := Some l\<rparr>\<rparr>)"
    by (simp add: using_language_def Some)
  show ?thesis
    by (cases "sql_failure (database s)") (simp_all add: save_user_data_def bot_bind_def u Some Let_def r i)
qed (simp add: save_user_data_def bot_bind_def using_language_def)

lemma saved_view:
  assumes "jackson_laws jk cls" and "language_ok jk cls d" and "load_language jk d = Some l"
  shows "language_ok jk cls (saved_data jk l d)"
    and "language_ok jk cls (setChanged jk False (saved_data jk l d))"
    and "user_view jk (setChanged jk False (saved_data jk l d)) = user_view jk d"
    and "map_option (user_view jk) (read_row jk i (Some (writeValueAsString jk (written_settings (saved_data jk l d)))))
      = Some (user_view jk d)"
proof -
  have cls: "cls (languageIdentifier d) l"
    and same: "\<not> isModified jk l \<Longrightarrow> read_language jk (languageIdentifier d) (serializedLanguage d) = Some l"
    using assms(2,3) load_language_ok [OF assms] by (auto simp: language_ok_def)
  show 1: "language_ok jk cls (saved_data jk l d)"
    using cls same by (simp add: language_ok_def saved_data_def)
  have tree: "read_language jk (languageIdentifier d) (serializedLanguage (saved_data jk l d)) = Some (clearModified jk l)"
    using assms(1) cls same by (auto simp: saved_data_def read_language_def jackson_laws_def)
  have null: "read_language jk i (Some (case x of None \<Rightarrow> json_null jk | Some j \<Rightarrow> j)) = read_language jk i x" for i x
    by (simp add: read_language_def split: option.split)
  have clear: "clearModified jk (clearModified jk l) = clearModified jk l"
    and ccls: "cls i (clearModified jk l) = cls i l" for i
    using assms(1) by (simp_all add: jackson_laws_def)
  have sc: "setChanged jk False (saved_data jk l d) =
      (saved_data jk l d)\<lparr>changed := False, language := Some (clearModified jk l)\<rparr>"
    by (simp add: setChanged_def saved_data_def)
  have ident: "languageIdentifier (saved_data jk l d) = languageIdentifier d" by (simp add: saved_data_def)
  show "language_ok jk cls (setChanged jk False (saved_data jk l d))"
    using tree cls by (simp add: sc language_ok_def ccls ident)
  show "user_view jk (setChanged jk False (saved_data jk l d)) = user_view jk d"
    by (simp add: sc user_view_def load_language_def clear assms(3) [unfolded load_language_def])
      (simp add: written_settings_def saved_data_def)
  have written: "readValue jk (writeValueAsString jk f) =
      Some (f\<lparr>serializedLanguage := Some (case serializedLanguage f of None \<Rightarrow> json_null jk | Some j \<Rightarrow> j)\<rparr>)"
    "writeValueAsString jk f \<noteq> []" for f
    using assms(1) by (simp_all add: jackson_laws_def)
  show "map_option (user_view jk) (read_row jk i (Some (writeValueAsString jk (written_settings (saved_data jk l d)))))
      = Some (user_view jk d)"
    using tree ident
    by (simp add: read_row_def written user_view_def load_language_def read_settings_def written_settings_def null
        clear assms(3) [unfolded load_language_def]) (simp add: saved_data_def)
qed

lemma saved_same [simp]:
  "userid (saved_data jk l d) = userid d" "changed (saved_data jk l d) = changed d"
  "userid (setChanged jk b d) = userid d"
  by (simp_all add: saved_data_def setChanged_def)

lemma coherent_save:
  assumes "jackson_laws jk cls" and "coherent jk cls s"
  shows "coherent jk cls (snd (save_user_data jk s))"
proof (cases "isChanged jk (current s) \<and> load_language jk (current s) \<noteq> None")
  case True
  then obtain l where l: "load_language jk (current s) = Some l" and c: "isChanged jk (current s)" by auto
  note view = saved_view [OF assms(1) _ l]
  have ok: "language_ok jk cls (current s)" using assms(2) by (simp add: coherent_def)
  have still: "isChanged jk (saved_data jk l (current s))"
    using c l by (auto simp: isChanged_def load_language_def saved_data_def split: option.splits)
  show ?thesis
  proof (cases "sql_failure (database s)")
    case None
    then show ?thesis
      using c l view(2,3) [OF ok] view(4) [OF ok, of "userid (current s)"]
      by (auto simp: save_eq coherent_def stored_view_def)
  next
    case (Some e)
    then show ?thesis
      using c l view(1) [OF ok] assms(2) still by (simp add: save_eq coherent_def stored_view_def)
  qed
qed (use assms(2) in \<open>auto simp: save_eq\<close>)

lemma coherent_step:
  assumes "jackson_laws jk cls" and "coherent jk cls s" and "data_step jk cls s t"
  shows "coherent jk cls t"
  using assms(3,2)
proof (induction rule: data_step.induct)
  case (set_field f s)
  then show ?case by (rule coherent_setter)
next
  case (use_language task s)
  then show ?case by (intro coherent_using [OF assms(1)])
next
  case (save s)
  then show ?case by (rule coherent_save [OF assms(1)])
next
  case (elsewhere t s)
  then show ?case by (simp add: coherent_def stored_view_def)
qed

lemma load_coherent:
  assumes "load_user_data jk i s = (Inr (), t)"
  shows "coherent jk cls t \<and> userid (current t) = i \<and> rows t = rows s \<and> database t = database s"
proof -
  obtain d where d: "read_row jk i (rows s i) = Some d" "t = s\<lparr>current := d\<rparr>"
    using assms by (auto simp: load_user_data_def split: option.splits)
  have "userid d = i" "language d = None"
    using d(1) by (auto simp: read_row_def new_user_data_def read_settings_def split: option.splits if_splits)
  then show ?thesis
    using d by (simp add: coherent_def language_ok_def stored_view_def)
qed

lemma step_userid: "data_step jk cls s t \<Longrightarrow> userid (current t) = userid (current s)"
proof (induction rule: data_step.induct)
  case (use_language task s)
  show ?case by (auto simp: using_language_def split: option.split prod.split)
next
  case (save s)
  show ?case by (auto simp: save_eq split: option.split)
qed (use setter_language in auto)

lemma steps_userid: "(data_step jk cls)\<^sup>*\<^sup>* s t \<Longrightarrow> userid (current t) = userid (current s)"
  by (induction rule: rtranclp_induct) (auto dest: step_userid)

interpretation settings: invariant_machine
  "\<lambda>(jk, cls, i, s). jackson_laws jk cls \<and> (\<exists>s0. load_user_data jk i s0 = (Inr (), s))"
  "\<lambda>(jk, cls, i, s) (jk', cls', i', t). jk' = jk \<and> cls' = cls \<and> i' = i \<and> data_step jk cls s t"
  "\<lambda>(jk, cls, i, s). jackson_laws jk cls \<and> coherent jk cls s"
  by unfold_locales (auto dest: load_coherent coherent_step)

lemma steps_coherent:
  assumes "jackson_laws jk cls" and "load_user_data jk i s0 = (Inr (), s1)" and "(data_step jk cls)\<^sup>*\<^sup>* s1 s"
  shows "coherent jk cls s"
proof -
  have "(\<lambda>(jk, cls, i, s) (jk', cls', i', t). jk' = jk \<and> cls' = cls \<and> i' = i \<and> data_step jk cls s t)\<^sup>*\<^sup>*
      (jk, cls, i, s1) (jk, cls, i, s)"
    using assms(3) by (induction rule: rtranclp_induct) (auto intro: rtranclp.rtrancl_into_rtrancl)
  then show ?thesis
    using settings.reachable_good [of "(jk, cls, i, s1)" "(jk, cls, i, s)"] assms(1,2) by auto
qed

lemma settings_saved:
  assumes "jackson_laws jk cls" and "load_user_data jk i s0 = (Inr (), s1)" and "(data_step jk cls)\<^sup>*\<^sup>* s1 s"
    and "database s = Working" and "close_user_data jk s = (Inr (), t)"
  shows "(\<exists>u. load_user_data jk (userid (current s)) t = (Inr (), u)
        \<and> user_view jk (current u) = user_view jk (current s))
    \<and> (\<forall>j. j \<noteq> userid (current s) \<longrightarrow> rows t j = rows s j)
    \<and> (\<not> isChanged jk (current s) \<longrightarrow> rows t = rows s)"
proof -
  have co: "coherent jk cls s" using steps_coherent [OF assms(1-3)] .
  have t: "save_user_data jk s = (Inr (), t)"
    using assms(4,5) by (auto simp: close_user_data_def bot_catch_def bot_return_def save_eq sql_failure_def
        split: if_splits option.splits)
  show ?thesis
  proof (cases "isChanged jk (current s)")
    case False
    then have "t = s" using t by (simp add: save_eq)
    then show ?thesis
      using co False assms(4)
      by (auto simp: coherent_def stored_view_def load_user_data_def sql_failure_def)
  next
    case True
    then obtain l where l: "load_language jk (current s) = Some l"
      and rows: "rows t = (rows s)(userid (current s) \<mapsto>
        writeValueAsString jk (written_settings (saved_data jk l (current s))))" and "database t = Working"
      using t assms(4) by (auto simp: save_eq sql_failure_def split: option.splits)
    moreover have "language_ok jk cls (current s)" using co by (simp add: coherent_def)
    ultimately show ?thesis
      using saved_view(4) [OF assms(1) _ l, of "userid (current s)"] True
      by (auto simp: load_user_data_def sql_failure_def)
  qed
qed

text \<open>C27. No change of a user's settings is lost, and nothing is written without a change: after the settings
  have been loaded, whatever setters are called, whatever happens to the language of the user and however
  often the settings are saved meanwhile, with or without a database, closing them while the database works
  makes loading them again give the settings and the language as they were, and changes nobody else's. If
  nothing has been changed, the row of the user is left as it was.\<close>

theorem settings_survive:
  assumes "jackson_laws jk cls" and "load_user_data jk i s0 = (Inr (), s1)" and "(data_step jk cls)\<^sup>*\<^sup>* s1 s"
    and "database s = Working" and "close_user_data jk s = (Inr (), t)"
  shows "(\<exists>u. load_user_data jk (userid (current s)) t = (Inr (), u)
        \<and> user_view jk (current u) = user_view jk (current s))
    \<and> (\<forall>j. j \<noteq> userid (current s) \<longrightarrow> rows t j = rows s j)
    \<and> (\<not> isChanged jk (current s) \<longrightarrow> rows t = rows s)"
  by (rule settings_saved [OF assms])

section \<open>Example\<close>

text \<open>Settings written in unary; the languages count, and know whether they have counted.\<close>

type_synonym tuple =
  "bool \<times> bool \<times> (int \<times> int) option \<times> string option \<times> int option option \<times> bool \<times> bool \<times> bool \<times> bool"

definition settings_tuple :: "(bool, int option) settings \<Rightarrow> tuple" where
  "settings_tuple f =
     (allowedToDebug f, languageIdentifier f, lastSongInfo f, defaultRecommendationOptions f, serializedLanguage f,
      showWelcomeMessage f, osuTrackWelcomeEnabled f, showMapMetaDataOnRecommendation f, v2 f)"

definition tuple_settings :: "tuple \<Rightarrow> (bool, int option) settings" where
  "tuple_settings = (\<lambda>(a, b, c, d, e, f, g, h, i).
     \<lparr>allowedToDebug = a, languageIdentifier = b, lastSongInfo = c, defaultRecommendationOptions = d,
      serializedLanguage = (case e of None \<Rightarrow> Some None | Some j \<Rightarrow> Some j), showWelcomeMessage = f,
      osuTrackWelcomeEnabled = g, showMapMetaDataOnRecommendation = h, v2 = i\<rparr>)"

definition unary :: "(bool, int option, int \<times> bool) jackson" where
  "unary = \<lparr>Default_id = False, newLanguage = (\<lambda>_. (0, False)), isModified = snd, clearModified = (\<lambda>(n, _). (n, False)),
     valueToTree = (\<lambda>(n, _). Some n), treeToValue = (\<lambda>_ j. map_option (\<lambda>n. (n, False)) j), json_null = None,
     writeValueAsString = (\<lambda>f. replicate (Suc (to_nat (settings_tuple f))) (CHR ''x'')),
     readValue = (\<lambda>t. Some (tuple_settings (from_nat (length t - 1))))\<rparr>"

lemma unary_laws: "jackson_laws unary (\<lambda>_ _. True)"
  unfolding jackson_laws_def
  by (auto simp: unary_def tuple_settings_def settings_tuple_def split: option.splits)

definition empty_data :: "(bool, int option, int \<times> bool) data_state" where
  "empty_data = \<lparr>versions = Map.empty, database = Working, rows = Map.empty, current = new_user_data unary 0\<rparr>"

definition tom_data :: "(bool, int option, int \<times> bool) data_state" where
  "tom_data = empty_data\<lparr>current := new_user_data unary 7\<rparr>"

lemma settings_survive_witness:
  "\<exists>u. load_user_data unary 7 (snd (close_user_data unary (tom_data\<lparr>current := setV2 True (current tom_data)\<rparr>)))
     = (Inr (), u) \<and> v2 (current u)"
proof -
  let ?s = "tom_data\<lparr>current := setV2 True (current tom_data)\<rparr>"
  have "load_user_data unary 7 empty_data = (Inr (), tom_data)"
    by (simp add: load_user_data_def empty_data_def tom_data_def sql_failure_def read_row_def)
  moreover have "(data_step unary (\<lambda>_ _. True))\<^sup>*\<^sup>* tom_data ?s"
    by (rule r_into_rtranclp, rule set_field) (simp add: setters_def)
  moreover have "database ?s = Working" "userid (current ?s) = 7"
    by (simp_all add: tom_data_def empty_data_def setV2_def new_user_data_def)
  moreover have "close_user_data unary ?s = (Inr (), snd (close_user_data unary ?s))"
    by (simp add: close_user_data_def bot_catch_def save_eq load_language_def read_language_def tom_data_def
        empty_data_def setV2_def new_user_data_def isChanged_def sql_failure_def)
  ultimately obtain u where "load_user_data unary 7 (snd (close_user_data unary ?s)) = (Inr (), u)"
    and "user_view unary (current u) = user_view unary (current ?s)"
    using settings_survive [OF unary_laws, of 7 empty_data tom_data ?s "snd (close_user_data unary ?s)"] by metis
  then show ?thesis
    by (auto simp: user_view_def written_settings_def setV2_def)
qed

end
