(* ===== verification/Bot_Correct.thy ===== *)
theory Bot_Correct
  imports Bot
begin

text \<open>
  What the bot does with every event: it answers, whatever its parts throw that it catches, and loses the
  event when it is interrupted (\<open>bot_answers\<close>); the answer to a command is that of the first handler that has one, after the news, which are shown once
  (\<open>command_outcome\<close>).
\<close>

section \<open>What can be said of an action\<close>

text \<open>\<open>quiet E m P\<close>: the action throws only what the bot catches and exceptions of the set \<open>E\<close>, and its
  results satisfy \<open>P\<close>; \<open>answers E m P\<close>: it throws only exceptions of \<open>E\<close> that the bot does not catch.\<close>

definition quiet :: "throwable set \<Rightarrow> ('s, 'a) bot \<Rightarrow> ('a \<Rightarrow> bool) \<Rightarrow> bool" where
  "quiet E m P \<longleftrightarrow> (\<forall>s. case fst (m s) of Inl e \<Rightarrow> caught e \<or> e \<in> E | Inr x \<Rightarrow> P x)"

definition answers :: "throwable set \<Rightarrow> ('s, 'a) bot \<Rightarrow> ('a \<Rightarrow> bool) \<Rightarrow> bool" where
  "answers E m P \<longleftrightarrow> (\<forall>s. case fst (m s) of Inl e \<Rightarrow> e \<in> E \<and> \<not> caught e | Inr x \<Rightarrow> P x)"

named_theorems bot_intros \<open>how quiet actions are composed\<close>

lemma quiet_return [bot_intros]: "P x \<Longrightarrow> quiet E (bot_return x) P"
  by (simp add: quiet_def bot_return_def)

lemma quiet_throw [bot_intros]: "caught e \<Longrightarrow> quiet E (bot_throw e) P"
  by (simp add: quiet_def bot_throw_def)

lemma quiet_bind [bot_intros]:
  assumes "quiet E m Q" and "\<And>x. Q x \<Longrightarrow> quiet E (f x) P"
  shows "quiet E (bot_bind m f) P"
  unfolding quiet_def
proof
  fix s
  show "case fst (bot_bind m f s) of Inl e \<Rightarrow> caught e \<or> e \<in> E | Inr x \<Rightarrow> P x"
    using assms(1) [unfolded quiet_def, rule_format, of s] assms(2) [unfolded quiet_def, rule_format]
    by (cases "m s"; cases "fst (m s)") (auto simp: bot_bind_def)
qed

lemma quiet_weaken: "quiet E m Q \<Longrightarrow> (\<And>x. Q x \<Longrightarrow> P x) \<Longrightarrow> quiet E m P"
  by (force simp: quiet_def split: sum.splits)

lemma quiet_closing [bot_intros]:
  assumes "quiet E body P" and "quiet E close (\<lambda>_. True)"
  shows "quiet E (bot_closing close body) P"
  unfolding quiet_def
proof
  fix s
  obtain r s' where b: "body s = (r, s')" by (cases "body s")
  obtain c s'' where c: "close s' = (c, s'')" by (cases "close s'")
  show "case fst (bot_closing close body s) of Inl e \<Rightarrow> caught e \<or> e \<in> E | Inr x \<Rightarrow> P x"
    using assms(1) [unfolded quiet_def, rule_format, of s] assms(2) [unfolded quiet_def, rule_format, of s']
    by (cases r; cases c) (auto simp: bot_closing_def b c)
qed

lemma answers_catch:
  assumes "quiet E m P" and "\<And>e. answers E (h e) P"
  shows "answers E (bot_catch m caught h) P"
  unfolding answers_def
proof
  fix s
  show "case fst (bot_catch m caught h s) of Inl e \<Rightarrow> e \<in> E \<and> \<not> caught e | Inr x \<Rightarrow> P x"
    using assms(1) [unfolded quiet_def, rule_format, of s] assms(2) [unfolded answers_def]
    by (cases "m s"; cases "fst (m s)") (auto simp: bot_catch_def)
qed

lemma answers_return: "P x \<Longrightarrow> answers E (bot_return x) P"
  by (simp add: answers_def bot_return_def)

lemma quiet_answers: "answers E m P \<Longrightarrow> quiet E m P"
  unfolding answers_def quiet_def by (auto split: sum.splits)

lemma quiet_catch [bot_intros]:
  "quiet E m P \<Longrightarrow> (\<And>e. P (f e)) \<Longrightarrow> quiet E (bot_catch m caught (\<lambda>e. bot_return (f e))) P"
  by (rule quiet_answers, rule answers_catch) (auto intro: answers_return)

section \<open>An answer, or an interrupt\<close>

text \<open>What is asked of the parts of the bot: they throw only exceptions that the bot catches and exceptions
  of the set \<open>E\<close>, and they answer with flat responses.\<close>

definition flat_option :: "response option \<Rightarrow> bool" where
  "flat_option r \<longleftrightarrow> (case r of None \<Rightarrow> True | Some x \<Rightarrow> flat x)"

definition well_behaved :: "throwable set \<Rightarrow> 'z bot_env \<Rightarrow> bool" where
  "well_behaved E env \<longleftrightarrow>
     (\<forall>h \<in> set (handlers env). \<forall>c u l. quiet E (h c u l) flat_option) \<and>
     (\<forall>c u l. quiet E (npHandler env c u l) flat_option) \<and>
     (\<forall>c. quiet E (fixId env c) flat_option) \<and>
     (\<forall>c u. quiet E (tryLinkToPatreon env c u) (\<lambda>_. True)) \<and>
     (\<forall>n. quiet E (resolveIRCName env n) (\<lambda>_. True)) \<and>
     (\<forall>i a. quiet E (getUser env i a) (\<lambda>_. True)) \<and>
     (\<forall>n i. quiet E (setMapping env n i) (\<lambda>_. True)) \<and>
     (\<forall>n. quiet E (redownloadUser env n) (\<lambda>_. True)) \<and>
     (\<forall>i. quiet E (loadUserData env i) (\<lambda>_. True)) \<and>
     quiet E (closeUserData env) (\<lambda>_. True) \<and>
     quiet E (usingLanguage env) (\<lambda>l. \<forall>u. flat (hug l u))"

lemma exception_flat: "flat (handleException env e l)"
  by (auto simp: handleException_def exception_response_def split: option.split throwable.split)

lemma and_then_flat: "flat r \<Longrightarrow> flat_option x \<Longrightarrow> flat (and_then r x)"
  by (cases x) (auto simp: flat_option_def flat_and_then, simp add: and_then_def)


lemma quiet_version: "quiet E (checkVersionInfo env nick) flat"
proof -
  have "quiet E (getLastVisitedVersion nick) (\<lambda>_. True)" "quiet E (setLastVisitedVersion nick v) (\<lambda>_. True)" for v
    by (auto simp: quiet_def getLastVisitedVersion_def setLastVisitedVersion_def split: database.split)
  then show ?thesis
    unfolding checkVersionInfo_def by (auto intro!: bot_intros)
qed

lemma quiet_dispatch:
  "\<forall>h \<in> set hs. \<forall>c u l. quiet E (h c u l) flat_option \<Longrightarrow> quiet E (dispatch hs command u l) flat_option"
proof (induction hs)
  case Nil
  show ?case by (auto intro!: bot_intros simp: flat_option_def)
next
  case (Cons h hs)
  have rest: "quiet E (case r of None \<Rightarrow> dispatch hs command u l | Some x \<Rightarrow> bot_return (Some x)) flat_option"
    if "flat_option r" for r
    using that Cons by (cases r) (auto intro: quiet_return)
  show ?case
    unfolding dispatch.simps by (rule quiet_bind [where Q = flat_option]) (use Cons rest in auto)
qed

lemmas quiet_any = quiet_bind [where Q = "\<lambda>_. True"]

lemma quiet_user:
  assumes "well_behaved E env"
  shows "quiet E (getUserOrThrow env nick) (\<lambda>_. True)"
proof -
  note env = assms [unfolded well_behaved_def]
  show ?thesis
    unfolding getUserOrThrow_def Let_def
    by (rule quiet_any, use env in blast)
      (use env in \<open>auto intro!: bot_intros quiet_any split: option.split\<close>)
qed

lemma quiet_command:
  assumes "well_behaved E env"
  shows "quiet E (run_command env nick c u l) flat"
  unfolding run_command_def
  by (rule quiet_bind [OF quiet_version], rule quiet_catch, rule quiet_bind [OF quiet_dispatch])
    (use assms in \<open>auto intro!: bot_intros and_then_flat
      simp: well_behaved_def flat_option_def exception_flat split: option.splits\<close>)

lemma quiet_answer:
  assumes "well_behaved E env" and "\<forall>u. flat (hug l u)"
  shows "quiet E (answer_message env nick m u l) flat"
proof -
  have link: "quiet E (linkPpaddict env m u) flat_option"
    unfolding linkPpaddict_def
    using assms(1) by (auto intro!: bot_intros quiet_any simp: well_behaved_def flat_option_def split: option.split)
  show ?thesis
    unfolding answer_message_def
    by (rule quiet_catch)
      (use assms in \<open>auto intro!: bot_intros and_then_flat quiet_bind [OF link] quiet_command
        simp: flat_option_def exception_flat split: option.splits\<close>)
qed

text \<open>The common frame of messages and actions: the user, the user's data and language.\<close>

definition with_user ::
  "'z bot_env \<Rightarrow> string \<Rightarrow> (user \<Rightarrow> lang \<Rightarrow> ('z bot_state_scheme, 'a) bot) \<Rightarrow> ('z bot_state_scheme, 'a) bot" where
  "with_user env nick f =
     bot_bind (getUserOrThrow env nick) (\<lambda>u.
       bot_bind (loadUserData env (user_id u)) (\<lambda>_.
         bot_closing (closeUserData env) (bot_bind (usingLanguage env) (f u))))"

lemma quiet_with_user:
  assumes "well_behaved E env" and "\<And>u l. \<forall>u. flat (hug l u) \<Longrightarrow> quiet E (f u l) P"
  shows "quiet E (with_user env nick f) P"
proof -
  have lang: "quiet E (bot_bind (usingLanguage env) (f u)) P" for u
    by (rule quiet_bind [where Q = "\<lambda>l. \<forall>u. flat (hug l u)"]) (use assms in \<open>auto simp: well_behaved_def\<close>)
  show ?thesis
    unfolding with_user_def
    by (rule quiet_bind [OF quiet_user [OF assms(1)]], rule quiet_any, rule_tac [2] quiet_closing, rule_tac [2] lang)
      (use assms(1) in \<open>simp_all add: well_behaved_def\<close>)
qed

lemma message_answered:
  assumes "well_behaved E env"
  shows "answers E (processPrivateMessage env nick m) flat"
proof -
  have "quiet E (case r of Some x \<Rightarrow> bot_return x | None \<Rightarrow> with_user env nick (answer_message env nick m)) flat"
    if "flat_option r" for r
    using that assms
    by (cases r) (auto intro: quiet_return quiet_with_user quiet_answer simp: flat_option_def)
  moreover have "quiet E (fixId env m) flat_option"
    using assms by (simp add: well_behaved_def)
  ultimately show ?thesis
    unfolding processPrivateMessage_def with_user_def
    by (intro answers_catch quiet_bind [where Q = flat_option] answers_return exception_flat)
qed

definition action_version :: "'z bot_env \<Rightarrow> string \<Rightarrow> ('z bot_state_scheme, response + response) bot" where
  "action_version env nick =
     bot_catch (bot_bind (checkVersionInfo env nick) (\<lambda>v. bot_return (Inr v))) caught
       (\<lambda>e. bot_return (Inl (handleException env e (default_lang env))))"

lemma version_answered: "\<exists>r s'. action_version env nick s = (Inr r, s') \<and> case_sum flat flat r"
proof -
  have "answers {} (action_version env nick) (case_sum flat flat)"
    unfolding action_version_def
    by (rule answers_catch, rule quiet_bind [OF quiet_version])
      (auto intro!: quiet_return answers_return simp: exception_flat)
  then have "case fst (action_version env nick s) of Inl e \<Rightarrow> e \<in> {} \<and> \<not> caught e | Inr r \<Rightarrow> case_sum flat flat r"
    unfolding answers_def by blast
  then show ?thesis by (cases "action_version env nick s"; cases "fst (action_version env nick s)") simp_all
qed

lemma action_answered:
  assumes "well_behaved E env"
  shows "answers E (processPrivateAction env nick a) flat"
  unfolding answers_def
proof
  fix s
  have action: "quiet E (bot_bind (answer_action env a u l) (\<lambda>r. bot_return (and_then v r))) flat"
    if "flat v" for u l v
  proof (rule quiet_bind [where Q = flat_option])
    show "quiet E (answer_action env a u l) flat_option"
      unfolding answer_action_def
      by (rule quiet_catch) (use assms in \<open>auto simp: well_behaved_def flat_option_def exception_flat\<close>)
  qed (use that in \<open>auto intro: quiet_return and_then_flat\<close>)
  have assoc: "bot_bind (bot_bind m f) g = bot_bind m (\<lambda>x. bot_bind (f x) g)" for m f g
    by (rule ext) (simp add: bot_bind_def split: prod.split sum.split)
  have rest: "answers E (bot_catch (with_user env nick (\<lambda>u l. bot_bind (answer_action env a u l)
      (\<lambda>r. bot_return (and_then v r)))) caught
      (\<lambda>e. bot_return (and_then v (Some (handleException env e (default_lang env)))))) flat" if "flat v" for v
    by (intro answers_catch quiet_with_user [OF assms] action answers_return and_then_flat that)
      (simp add: flat_option_def exception_flat)
  obtain r s' where v: "action_version env nick s = (Inr r, s')" "case_sum flat flat r"
    using version_answered [of env nick s] by blast
  show "case fst (processPrivateAction env nick a s) of Inl e \<Rightarrow> e \<in> E \<and> \<not> caught e | Inr x \<Rightarrow> flat x"
  proof (cases r)
    case (Inl x)
    then show ?thesis
      using v by (simp add: processPrivateAction_def and_then_flat flat_option_def flip: action_version_def)
  next
    case (Inr x)
    then show ?thesis
      using v rest [of x, unfolded with_user_def answers_def, rule_format, of s']
      by (simp add: processPrivateAction_def assoc flip: action_version_def)
  qed
qed

lemma answers_visit:
  "well_behaved E env \<Longrightarrow> isInteractive e \<Longrightarrow> answers E (visit env e) flat"
  using message_answered action_answered by (auto simp: visit_def isInteractive_def split: event_kind.splits)

lemma bot_response:
  assumes "well_behaved E env" and "isInteractive e"
  shows "(\<exists>r x t. onEvent env e s = (Some r, x, t) \<and> flat r \<and> (x = None \<or> x = Some ErrorExn))
    \<or> (\<exists>x t. x \<in> E \<and> \<not> caught x \<and> onEvent env e s = (None, if x = Interrupted then None else Some x, t))"
proof -
  have v: "case fst (visit env e s) of Inl e \<Rightarrow> e \<in> E \<and> \<not> caught e | Inr x \<Rightarrow> flat x"
    using answers_visit [OF assms] by (simp add: answers_def)
  obtain y s' where y: "visit env e s = (y, s')" by (cases "visit env e s")
  show ?thesis
  proof (cases y)
    case (Inl x)
    have "onEvent env e s = (None, if x = Interrupted then None else Some x, s')"
      by (cases x) (simp_all add: onEvent_def y Inl)
    then show ?thesis using v by (intro disjI2 exI [of _ x] exI [of _ s']) (simp add: y Inl)
  next
    case (Inr r)
    obtain a t where a: "registerActivity env (event_nick e) s' = (a, t)"
      by (cases "registerActivity env (event_nick e) s'")
    have "onEvent env e s = (Some r, if a = Inl ErrorExn then Some ErrorExn else None, t)"
      by (cases a) (auto simp: onEvent_def y Inr a split: throwable.split)
    then show ?thesis using v by (intro disjI1) (simp add: y Inr)
  qed
qed

text \<open>The response is a step of the pipeline that loses nothing, and its posting releases the user.\<close>

lemma answered_released:
  assumes "isInteractive e" and "chat_run ls c" and "Expired (event_nick e) \<notin> set ls"
    and "pipeline c i = Some (e, Handling)" and "flat r"
  shows "chat_run (ls @ [Step, Step]) (postprocess writer r e (respond e (Some r) c))
    \<and> fst (tryEnter now (event_nick e) j (chat_bouncer (postprocess writer r e (respond e (Some r) c))))"
proof -
  let ?c = "respond e (Some r) c"
  have wf: "event_id e = i" and ex: "exclusive c (event_nick e)"
    using chat_run_good [OF assms(2)] assms(3,4) by (auto simp: chat_good_def chat_wf_def)
  then have "holder (chat_bouncer c) (event_nick e) = Some (event_id e)"
    using assms(1,4) by (auto simp: exclusive_def in_work_def holds_def)
  then have free: "holder (chat_bouncer (postprocess writer r e ?c)) (event_nick e) = None"
    using postprocess_effect [OF assms(5), of writer e ?c] assms(1) by (simp add: respond_def move_def)
  have "chat_run (ls @ [Step]) ?c"
    by (rule chat_run.step [OF assms(2)], rule handled [OF assms(4,5)])
  moreover have "chat_step ?c Step (postprocess writer r e ?c)"
    by (rule posted [of _ i]) (simp add: respond_def move_def wf)
  ultimately have "chat_run ((ls @ [Step]) @ [Step]) (postprocess writer r e ?c)"
    by (rule chat_run.step)
  then show ?thesis using free by (simp add: door.enter_iff)
qed

text \<open>Without a response the event is lost, and the user is refused until the bouncer's entry expires.\<close>

lemma lost_refused:
  assumes "isInteractive e" and "chat_run ls c" and "Expired (event_nick e) \<notin> set ls"
    and "pipeline c i = Some (e, Handling)"
  shows "chat_run (ls @ [Lost (event_nick e)]) (respond e None c)
    \<and> (\<forall>now j. \<not> fst (tryEnter now (event_nick e) j (chat_bouncer (respond e None c))))
    \<and> (\<forall>now j. fst (tryEnter now (event_nick e) j (expire (event_nick e) (chat_bouncer (respond e None c)))))"
proof -
  have "event_id e = i" and "exclusive c (event_nick e)"
    using chat_run_good [OF assms(2)] assms(3,4) by (auto simp: chat_good_def chat_wf_def)
  then have "holder (chat_bouncer c) (event_nick e) = Some (event_id e)"
    using assms(1,4) by (auto simp: exclusive_def in_work_def holds_def)
  moreover have "chat_run (ls @ [Lost (event_nick e)]) (respond e None c)"
    by (rule chat_run.step [OF assms(2)], rule dropped [OF assms(4)])
  ultimately show ?thesis by (simp add: door.enter_iff door.forget_held respond_def leave_def)
qed

text \<open>C25. What becomes of an interactive event that a core thread handles, when the handlers, the database
  and the API answer with flat responses and throw whatever they like: exceptions that the bot catches
  (\<open>caught\<close>: unchecked exceptions, errors, \<open>UserException\<close>, \<open>IOException\<close>, \<open>SQLException\<close>), and those of a set
  \<open>E\<close>. Either exactly one flat response is queued, only an \<open>Error\<close> of the registration of the activity
  leaves the method, the event is not lost, and once the response is posted the user may enter again. Or
  the visit ends with an exception of \<open>E\<close> that the bot does not catch, such as the \<open>InterruptedException\<close>
  that the handlers declare: then no response is queued, the event is lost, and the bouncer refuses the
  user, whatever comes, until the entry expires. If \<open>E\<close> is empty, only the first can happen.\<close>

theorem bot_answers:
  assumes "well_behaved E env" and "isInteractive e"
    and "chat_run ls c" and "Expired (event_nick e) \<notin> set ls" and "pipeline c i = Some (e, Handling)"
  shows "(\<exists>r x t. onEvent env e s = (Some r, x, t) \<and> flat r \<and> (x = None \<or> x = Some ErrorExn)
      \<and> chat_run (ls @ [Step, Step]) (postprocess writer r e (respond e (Some r) c))
      \<and> fst (tryEnter now (event_nick e) j (chat_bouncer (postprocess writer r e (respond e (Some r) c)))))
    \<or> (\<exists>x t. x \<in> E \<and> \<not> caught x \<and> onEvent env e s = (None, if x = Interrupted then None else Some x, t)
      \<and> chat_run (ls @ [Lost (event_nick e)]) (respond e None c)
      \<and> (\<forall>now j. \<not> fst (tryEnter now (event_nick e) j (chat_bouncer (respond e None c))))
      \<and> (\<forall>now j. fst (tryEnter now (event_nick e) j (expire (event_nick e) (chat_bouncer (respond e None c))))))"
  using bot_response [OF assms(1,2), of s] answered_released [OF assms(2-5)] lost_refused [OF assms(2-5)]
  by blast

section \<open>The answer to a command\<close>

text \<open>The news that the user has not seen yet, and the state once they have been shown.\<close>

definition news :: "'z bot_env \<Rightarrow> string \<Rightarrow> 'z bot_state_scheme \<Rightarrow> response" where
  "news env nick s =
     (case versions s nick of
        None \<Rightarrow> Message (help_text env)
      | Some v \<Rightarrow>
          if v = -1 then Message (help_text env)
          else if v < CURRENT_VERSION then Message VERSION_MESSAGE else NoResponse)"

definition news_seen :: "string \<Rightarrow> 'z bot_state_scheme \<Rightarrow> 'z bot_state_scheme" where
  "news_seen nick s =
     (case versions s nick of
        None \<Rightarrow> s\<lparr>versions := (versions s)(nick \<mapsto> CURRENT_VERSION)\<rparr>
      | Some v \<Rightarrow> if v < CURRENT_VERSION then s\<lparr>versions := (versions s)(nick \<mapsto> CURRENT_VERSION)\<rparr> else s)"

lemma checkVersionInfo_working:
  "database s = Working \<Longrightarrow> checkVersionInfo env nick s = (Inr (news env nick s), news_seen nick s)"
  by (simp add: checkVersionInfo_def bot_bind_def bot_return_def getLastVisitedVersion_def
      setLastVisitedVersion_def news_def news_seen_def CURRENT_VERSION_def split: option.split)

text \<open>Handlers that have no answer, one after the other, from state \<open>s\<close> to state \<open>t\<close>.\<close>

inductive silent ::
  "string \<Rightarrow> user \<Rightarrow> lang \<Rightarrow> (string \<Rightarrow> user \<Rightarrow> lang \<Rightarrow> ('s, response option) bot) list \<Rightarrow> 's \<Rightarrow> 's \<Rightarrow> bool"
  for command u l where
  silent_Nil: "silent command u l [] s s"
| silent_Cons: "h command u l s = (Inr None, s') \<Longrightarrow> silent command u l hs s' t \<Longrightarrow> silent command u l (h # hs) s t"

lemma dispatch_silent:
  "silent command u l pre s t \<Longrightarrow> dispatch (pre @ hs) command u l s = dispatch hs command u l t"
  by (induction rule: silent.induct) (simp_all add: bot_bind_def)

text \<open>What the first handler with an answer says, if there is one.\<close>

inductive first_answer ::
  "'z bot_env \<Rightarrow> string \<Rightarrow> user \<Rightarrow> lang \<Rightarrow> 'z bot_state_scheme \<Rightarrow> response \<Rightarrow> 'z bot_state_scheme \<Rightarrow> bool"
  for env command u l where
  answered: "handlers env = pre @ h # post \<Longrightarrow> silent command u l pre s s' \<Longrightarrow>
     h command u l s' = (Inr (Some r), t) \<Longrightarrow> first_answer env command u l s r t"
| failed: "handlers env = pre @ h # post \<Longrightarrow> silent command u l pre s s' \<Longrightarrow>
     h command u l s' = (Inl e, t) \<Longrightarrow> caught e \<Longrightarrow> first_answer env command u l s (handleException env e l) t"
| unknown: "silent command u l (handlers env) s t \<Longrightarrow>
     first_answer env command u l s (Message (unknownCommand l command)) t"

lemma first_answer_dispatch:
  "first_answer env command u l s r t \<Longrightarrow>
     (case dispatch (handlers env) command u l s of
        (Inr None, t') \<Rightarrow> r = Message (unknownCommand l command) \<and> t' = t
      | (Inr (Some x), t') \<Rightarrow> r = x \<and> t' = t
      | (Inl e, t') \<Rightarrow> r = handleException env e l \<and> t' = t \<and> caught e)"
proof (induction rule: first_answer.induct)
  case (unknown s t)
  then show ?case
    using dispatch_silent [OF unknown, of "[]"] by (simp add: bot_return_def)
qed (simp_all add: dispatch_silent bot_bind_def bot_return_def)

lemma run_command_first:
  assumes "first_answer env command u l (news_seen nick s) r t" and "database s = Working"
  shows "run_command env nick command u l s = (Inr (and_then (news env nick s) (Some r)), t)"
proof -
  obtain d t' where d: "dispatch (handlers env) command u l (news_seen nick s) = (d, t')"
    by (cases "dispatch (handlers env) command u l (news_seen nick s)")
  note result = first_answer_dispatch [OF assms(1), unfolded d prod.case]
  have run: "run_command env nick command u l s =
      (case d of
         Inr None \<Rightarrow> (Inr (and_then (news env nick s) (Some (Message (unknownCommand l command)))), t')
       | Inr (Some x) \<Rightarrow> (Inr (and_then (news env nick s) (Some x)), t')
       | Inl e \<Rightarrow> if caught e then (Inr (and_then (news env nick s) (Some (handleException env e l))), t') else (Inl e, t'))"
    by (simp add: run_command_def bot_bind_def bot_catch_def bot_throw_def bot_return_def d
        checkVersionInfo_working [OF assms(2)] handleException_def [where e = "UserExn _"]
        exception_response_def [where e = "Some (UserExn _)"] split: sum.split option.split)
  show ?thesis
    using result by (cases d) (auto simp: run split: option.splits)
qed

lemma dispatch_total:
  "\<exists>r t. (\<exists>pre h post s'. hs = pre @ h # post \<and> silent command u l pre s s' \<and> h command u l s' = (r, t)
       \<and> r \<noteq> Inr None) \<or> silent command u l hs s t"
proof (induction hs arbitrary: s)
  case Nil
  show ?case by (auto intro: silent_Nil)
next
  case (Cons h hs)
  obtain r s' where h: "h command u l s = (r, s')" by (cases "h command u l s")
  show ?case
  proof (cases "r = Inr None")
    case True
    then have step: "silent command u l (h # pre) s t" if "silent command u l pre s' t" for pre t
      using h that by (auto intro: silent_Cons)
    from Cons [of s'] obtain r t where
      "(\<exists>pre h post s''. hs = pre @ h # post \<and> silent command u l pre s' s'' \<and> h command u l s'' = (r, t)
         \<and> r \<noteq> Inr None) \<or> silent command u l hs s' t"
      by blast
    then show ?thesis
    proof (elim disjE exE conjE)
      fix pre h' post s''
      assume "hs = pre @ h' # post" "silent command u l pre s' s''" "h' command u l s'' = (r, t)" "r \<noteq> Inr None"
      then show ?thesis
        using step
        by (intro exI [of _ r] exI [of _ t] disjI1 exI [of _ "h # pre"] exI [of _ h'] exI [of _ post] exI [of _ s'']) auto
    qed (use step in blast)
  next
    case False
    then show ?thesis using h by (metis append_Nil silent_Nil)
  qed
qed

lemma first_answer_total:
  assumes "well_behaved {} env"
  shows "\<exists>r t. first_answer env command u l s r t"
proof -
  have quiet: "fst (h command u l s') \<noteq> Inl e" if "\<not> caught e" "h \<in> set (handlers env)" for e h s'
    using assms that by (fastforce simp: well_behaved_def quiet_def split: sum.splits)
  obtain r t where
    "(\<exists>pre h post s'. handlers env = pre @ h # post \<and> silent command u l pre s s' \<and> h command u l s' = (r, t)
       \<and> r \<noteq> Inr None) \<or> silent command u l (handlers env) s t"
    using dispatch_total [of "handlers env" command u l s] by (elim exE) (rule that)
  then show ?thesis
  proof (elim disjE exE conjE)
    fix pre h post s'
    assume h: "handlers env = pre @ h # post" "silent command u l pre s s'" "h command u l s' = (r, t)" "r \<noteq> Inr None"
    show ?thesis
    proof (cases r)
      case (Inl e)
      then have "caught e" using quiet [of e h s'] h by auto
      then show ?thesis using h Inl by (blast intro: failed)
    next
      case (Inr x)
      then show ?thesis using h by (cases x) (auto intro: answered)
    qed
  qed (blast intro: unknown)
qed

text \<open>The answer to a command is the answer of the first handler that has one, in the order in which the
  bot asks them, or what became of its exception, or that the command is unknown; the handlers after it are
  not asked. The news that the user has not seen are put before it, and they count as seen from then on:
  right after the answer they would not be shown again, unless a handler changed what the user has seen.\<close>

lemma command_outcome:
  assumes "well_behaved {} env" and "database s = Working"
  shows "\<exists>r t. first_answer env command u l (news_seen nick s) r t
    \<and> (\<forall>r' t'. first_answer env command u l (news_seen nick s) r' t' \<longrightarrow> r' = r \<and> t' = t)
    \<and> run_command env nick command u l s = (Inr (and_then (news env nick s) (Some r)), t)
    \<and> news env nick (news_seen nick s) = NoResponse
    \<and> (versions t nick = versions (news_seen nick s) nick \<longrightarrow> news env nick t = NoResponse)"
proof -
  obtain r t where r: "first_answer env command u l (news_seen nick s) r t"
    using first_answer_total [OF assms(1)] by blast
  have "r' = r \<and> t' = t" if "first_answer env command u l (news_seen nick s) r' t'" for r' t'
    using first_answer_dispatch [OF r] first_answer_dispatch [OF that]
    by (auto split: prod.splits sum.splits option.splits)
  moreover have seen: "news env nick (news_seen nick s) = NoResponse"
    by (simp add: news_def news_seen_def CURRENT_VERSION_def split: option.split)
  moreover have "news env nick t = NoResponse" if "versions t nick = versions (news_seen nick s) nick"
    using seen that by (simp add: news_def)
  ultimately show ?thesis using r run_command_first [OF r assms(2)] by blast
qed

section \<open>Examples\<close>

text \<open>A bot with two handlers: one whose database is broken, and one that greets. The API does not know the
  user of an event.\<close>

definition english :: lang where
  "english = \<lparr>apiTimeoutException = ''timeout'', externalException = (\<lambda>r. ''external '' @ r),
     internalException = (\<lambda>r. ''internal '' @ r), unknownCommand = (\<lambda>c. ''unknown '' @ c),
     invalidChoice = (\<lambda>c v. ''invalid '' @ c), mixedNomodAndMods = ''mixed'', isSetId = ''set'', help_message = ''help'', faq = ''faq'', complaint = ''complaint'',
     hug = (\<lambda>_. Action ''hugs''), welcomeUser = (\<lambda>_ _. NoResponse)\<rparr>"

definition small_handlers :: "(string \<Rightarrow> user \<Rightarrow> lang \<Rightarrow> (bot_state, response option) bot) list" where
  "small_handlers =
     [\<lambda>c _ _. if c = ''reset'' then bot_throw SqlExn else bot_return None,
      \<lambda>c _ _. if c = ''hi'' then bot_return (Some (Message ''hello'')) else bot_return None]"

definition small_env :: "unit bot_env" where
  "small_env = \<lparr>handlers = small_handlers, npHandler = (\<lambda>_ _ _. bot_return None), fixId = (\<lambda>_. bot_return None),
     tryLinkToPatreon = (\<lambda>_ _. bot_return None), resolveIRCName = (\<lambda>_. bot_return None),
     getUser = (\<lambda>_ _. bot_return None), setMapping = (\<lambda>_ _. bot_return ()),
     redownloadUser = (\<lambda>_. bot_return None), loadUserData = (\<lambda>_. bot_return ()),
     closeUserData = bot_return (), usingLanguage = bot_return english, getDonator = (\<lambda>_. 0),
     isShowWelcomeMessage = (\<lambda>_. False), isOsuTrackWelcomeEnabled = (\<lambda>_. False),
     inactiveTime = (\<lambda>_. bot_return 0), osutrackUpdate = (\<lambda>_. bot_return NoResponse),
     registerActivity = (\<lambda>_. bot_return ()), default_lang = english, help_text = ''help'', reference = ''x''\<rparr>"

definition small_state :: bot_state where
  "small_state = \<lparr>versions = Map.empty, database = Working\<rparr>"

lemma small_env_well: "well_behaved {} small_env"
  by (auto simp: well_behaved_def small_env_def small_handlers_def english_def flat_option_def intro: bot_intros)

lemma small_handling:
  "chat_run [Step, Step] (move message_event Handling one_event)"
  "pipeline (move message_event Handling one_event) 5 = Some (message_event, Handling)"
  using chat_run.step [OF one_event_run taken [OF one_event_state(1)]]
  by (simp_all add: move_def message_event_def)

text \<open>The same bot, interrupted while it tries to mend the name of the user.\<close>

definition interrupted_env :: "unit bot_env" where
  "interrupted_env = small_env\<lparr>fixId := \<lambda>_. bot_throw Interrupted\<rparr>"

lemma interrupted_env_well: "well_behaved {Interrupted} interrupted_env"
  by (auto simp: well_behaved_def interrupted_env_def small_env_def small_handlers_def english_def flat_option_def
      quiet_def bot_throw_def bot_return_def)

lemma interrupted_event: "onEvent interrupted_env message_event small_state = (None, None, small_state)"
  by (simp add: onEvent_def visit_def message_event_def processPrivateMessage_def interrupted_env_def
      bot_catch_def bot_bind_def bot_throw_def)

lemma bot_answers_witness:
  "(\<exists>r x t. onEvent small_env message_event small_state = (Some r, x, t) \<and> flat r)
    \<and> (\<forall>now j. \<not> fst (tryEnter now ''tom'' j (chat_bouncer (respond message_event None (move message_event Handling one_event)))))"
proof -
  have e: "isInteractive message_event" "event_nick message_event = ''tom''"
    by (simp_all add: message_event_def isInteractive_def)
  show ?thesis
    using bot_answers [OF small_env_well e(1) small_handling(1) _ small_handling(2), of small_state]
      bot_answers [OF interrupted_env_well e(1) small_handling(1) _ small_handling(2), of small_state]
    by (fastforce simp: interrupted_event e(2))
qed

lemma command_outcome_witness:
  "\<exists>t. run_command small_env ''tom'' ''reset'' \<lparr>user_id = 1, user_name = ''tom''\<rparr> english small_state =
     (Inr (ResponseList [Message ''help'', Message ''internal x'']), t)"
proof -
  let ?u = "\<lparr>user_id = 1, user_name = ''tom''\<rparr>"
  have "first_answer small_env ''reset'' ?u english (news_seen ''tom'' small_state)
      (handleException small_env SqlExn english) (news_seen ''tom'' small_state)"
    by (rule first_answer.failed [where pre = "[]" and h = "hd small_handlers" and post = "tl small_handlers"])
      (simp_all add: small_env_def small_handlers_def silent_Nil bot_throw_def)
  then have "run_command small_env ''tom'' ''reset'' ?u english small_state =
      (Inr (and_then (news small_env ''tom'' small_state) (Some (handleException small_env SqlExn english))),
       news_seen ''tom'' small_state)"
    using command_outcome [OF small_env_well, of small_state "''reset''" ?u english "''tom''"]
    by (auto simp: small_state_def)
  then show ?thesis
    by (simp add: news_def small_state_def handleException_def exception_response_def small_env_def english_def
        and_then_def)
qed

end
