(* ===== verification/Options_Correct.thy ===== *)
theory Options_Correct
  imports Options User_Data_Correct Bot_Correct
begin

text \<open>
  What the commands that set and show an option do to the settings, and that an option that is set changes
  to its new value and no other one changes (\<open>set_outcome\<close>).
\<close>

section \<open>Which option is meant\<close>

text \<open>At most one edit apart.\<close>

fun within_one :: "string \<Rightarrow> string \<Rightarrow> bool" where
  "within_one [] t \<longleftrightarrow> length t \<le> 1"
| "within_one s [] \<longleftrightarrow> length s \<le> 1"
| "within_one (c # s) (d # t) \<longleftrightarrow> c = d \<and> within_one s t \<or> s = t \<or> s = d # t \<or> c # s = t"

lemma edits_zero: "edits s t n \<Longrightarrow> n = 0 \<Longrightarrow> s = t"
  by (induction rule: edits.induct) auto

lemma edits_within_one: "edits s t n \<Longrightarrow> n \<le> 1 \<Longrightarrow> within_one s t"
proof (induction rule: edits.induct)
  case (edits_delete s t n c)
  then show ?case using edits_zero [OF edits_delete(1)] by (cases t) auto
next
  case (edits_insert s t n d)
  then show ?case using edits_zero [OF edits_insert(1)] by (cases s) auto
qed (auto dest: edits_zero)

lemma lev_within_one: "edit_distance lev \<Longrightarrow> lev s t \<le> 1 \<Longrightarrow> within_one s t"
  using edits_within_one unfolding edit_distance_def by blast

lemma option_names_apart: "k \<noteq> k' \<Longrightarrow> \<not> within_one (optionName k) (optionName k')"
proof -
  have "list_all (\<lambda>k. list_all (\<lambda>k'. k = k' \<or> \<not> within_one (optionName k) (optionName k')) option_kinds) option_kinds"
    by code_simp
  moreover have "k \<in> set option_kinds" for k by (cases k) (simp_all add: option_kinds_def)
  ultimately show "k \<noteq> k' \<Longrightarrow> \<not> within_one (optionName k) (optionName k')"
    unfolding list_all_iff by blast
qed

lemma option_name_handled:
  assumes "edit_distance lev"
  shows "shouldHandle lev k' (optionName k) hearts \<longleftrightarrow> k' = k \<and> minHearts k \<le> hearts"
proof
  assume h: "shouldHandle lev k' (optionName k) hearts"
  have "shortOptionName k' \<noteq> Some (optionName k)" by (cases k; cases k') auto
  then have "lev (optionName k) (optionName k') \<le> 1" using h by (auto simp: shouldHandle_def)
  then have "k = k'"
    using lev_within_one [OF assms] option_names_apart by blast
  then show "k' = k \<and> minHearts k \<le> hearts" using h by (auto simp: shouldHandle_def)
qed (auto simp: shouldHandle_def lev_same [OF assms])

section \<open>The text of the commands\<close>

definition set_command :: "option_kind \<Rightarrow> string \<Rightarrow> string" where
  "set_command k v = ''set '' @ optionName k @ (if v = [] then [] else CHR '' '' # v)"

definition get_command :: "option_kind \<Rightarrow> string" where
  "get_command k = ''get '' @ optionName k"

lemma trim_dropped:
  "s \<noteq> [] \<Longrightarrow> (of_char (hd s) :: nat) > 32 \<Longrightarrow> (of_char (last s) :: nat) > 32 \<Longrightarrow> trim (CHR '' '' # s) = s"
proof -
  assume s: "s \<noteq> []" "(of_char (hd s) :: nat) > 32" "(of_char (last s) :: nat) > 32"
  then have "dropWhile (\<lambda>c. (of_char c :: nat) \<le> 32) (rev s) = rev s"
    and "dropWhile (\<lambda>c. (of_char c :: nat) \<le> 32) s = s"
    by (auto simp: dropWhile_eq_self_iff hd_rev)
  then show ?thesis by (simp add: trim_def)
qed

lemma optionName_chars:
  "optionName k \<noteq> []" "CHR '' '' \<notin> set (optionName k)" "to_lower (optionName k) = optionName k"
  "(of_char (hd (optionName k)) :: nat) > 32" "(of_char (last (optionName k)) :: nat) > 32"
  by (cases k; simp add: to_lower_def)+

lemma option_request_set:
  assumes "v = [] \<or> (of_char (last v) :: nat) > 32"
  shows "option_request (set_command k v) = Some (optionName k, Some v)"
proof -
  have "trim (CHR '' '' # (optionName k @ (if v = [] then [] else CHR '' '' # v))) =
      optionName k @ (if v = [] then [] else CHR '' '' # v)"
    by (rule trim_dropped) (use assms optionName_chars [of k] in auto)
  moreover have "index_of (CHR '' '') (optionName k) = None"
    by (cases k) auto
  ultimately show ?thesis
    using optionName_chars [of k] index_of_append [OF optionName_chars(2), of k v]
    by (auto simp: option_request_def set_command_def startsWith_def to_lower_def [of "_ # _"])
qed

lemma option_request_get: "option_request (get_command k) = Some (optionName k, None)"
  by (cases k) (simp_all add: option_request_def get_command_def startsWith_def to_lower_def trim_def)

section \<open>What a set option is\<close>

text \<open>The answer that is due once an option has been set to \<open>v\<close>; \<open>None\<close> for a value that is refused.\<close>

definition new_value :: "('i, 'j, 'l, 'm, 'z) option_env \<Rightarrow> option_kind \<Rightarrow> string \<Rightarrow> lang \<Rightarrow> string option" where
  "new_value env k v l =
     (case k of
        LangOption \<Rightarrow>
          map_option (language_token env) (find_enum (option_lev env) (language_values env) (language_token env) v)
      | DefaultOption \<Rightarrow>
          if v = [] then Some ''-''
          else (case parseSamplerSettings (option_parser env) v of Inl _ \<Rightarrow> None | Inr _ \<Rightarrow> Some v)
      | _ \<Rightarrow> (case parseBoolean v l of Inl _ \<Rightarrow> None | Inr b \<Rightarrow> Some (on_off b)))"

lemma value_written:
  "fst (user_view jk d) = fst (user_view jk d') \<Longrightarrow> getCurrentValue env k d = getCurrentValue env k d'"
  by (cases k) (auto simp: user_view_def written_settings_def getCurrentValue_def)

text \<open>Only \<open>current\<close> of the settings is concerned when they are saved.\<close>

lemma save_value:
  "getCurrentValue env k (current (snd (save_user_data jk s))) = getCurrentValue env k (current s)"
  by (cases k) (auto simp: save_eq getCurrentValue_def saved_data_def setChanged_def split: option.splits)

lemma set_boolean_value:
  assumes "\<And>i s. current (snd (forceUpdateTopScores env i s)) = current s"
    and "k \<noteq> LangOption" and "k \<noteq> DefaultOption"
  shows "getCurrentValue env k' (current (snd (set_boolean env k b s))) =
    (if k' = k then on_off b else getCurrentValue env k' (current s))"
proof (cases "k = V2ApiOption")
  case True
  let ?s = "s\<lparr>current := setV2 b (current s)\<rparr>"
  have "current (snd (set_boolean env k b s)) = current (snd (save_user_data (option_jackson env) ?s))"
    by (cases "save_user_data (option_jackson env) ?s"; cases "fst (save_user_data (option_jackson env) ?s)")
      (simp_all add: True bot_bind_def bot_update_def assms(1))
  then have "getCurrentValue env k' (current (snd (set_boolean env k b s))) = getCurrentValue env k' (setV2 b (current s))"
    by (simp add: save_value)
  then show ?thesis
    by (cases k') (simp_all add: True getCurrentValue_def setV2_def)
next
  case False
  then show ?thesis
    using assms(2,3)
    by (cases k; cases k') (simp_all add: bot_update_def getCurrentValue_def setter_defs)
qed

lemma handle_set_boolean:
  "k \<noteq> LangOption \<Longrightarrow> k \<noteq> DefaultOption \<Longrightarrow>
     handle_set env k v l s = (case parseBoolean v l of Inl e \<Rightarrow> (Inl e, s) | Inr b \<Rightarrow> set_boolean env k b s)"
  by (cases k) (simp_all add: handle_set_def bot_bind_def [of "bot_of _"] bot_of_def split: sum.split)

lemma handle_set_value:
  assumes "\<And>i s. current (snd (forceUpdateTopScores env i s)) = current s" and "new_value env k v l = Some x"
  shows "getCurrentValue env k' (current (snd (handle_set env k v l s))) =
    (if k' = k then x else getCurrentValue env k' (current s))"
proof -
  consider (lang) "k = LangOption" | (default) "k = DefaultOption" | (boolean) "k \<noteq> LangOption" "k \<noteq> DefaultOption" by blast
  then show ?thesis
  proof cases
    case lang
    then show ?thesis
      using assms(2)
      by (cases k') (auto simp: new_value_def handle_set_def bot_update_def getCurrentValue_def setLanguage_def
          split: option.splits)
  next
    case default
    then show ?thesis
      using assms(2)
      by (cases k') (auto simp: new_value_def handle_set_def bot_update_def getCurrentValue_def
          setDefaultRecommendationOptions_def split: sum.splits if_splits)
  next
    case boolean
    then obtain b where b: "parseBoolean v l = Inr b" "x = on_off b"
      using assms(2) by (cases k) (auto simp: new_value_def split: sum.splits)
    show ?thesis
      using set_boolean_value [OF assms(1) boolean] b by (simp add: handle_set_boolean [OF boolean])
  qed
qed

lemma handle_set_refused:
  "new_value env k v l = None \<Longrightarrow> \<exists>m. handle_set env k v l s = (Inl (UserExn m), s)"
  by (cases k) (auto simp: new_value_def handle_set_def bot_throw_def bot_bind_def bot_of_def parseBoolean_def Let_def
      split: option.splits sum.splits if_splits)

section \<open>A message that sets an option\<close>

text \<open>What is asked of the environment: a distance, Jackson, a language that registers what its comment changes,
  and a download that leaves the settings alone.\<close>

definition options_ok :: "('i, 'j, 'l, 'm, 'z) option_env \<Rightarrow> ('i \<Rightarrow> 'l \<Rightarrow> bool) \<Rightarrow> bool" where
  "options_ok env cls \<longleftrightarrow>
     edit_distance (option_lev env) \<and> jackson_laws (option_jackson env) cls
     \<and> registers (option_jackson env) cls (optionalCommentOnLanguage env)
     \<and> (\<forall>i s. current (snd (forceUpdateTopScores env i s)) = current s
          \<and> rows (snd (forceUpdateTopScores env i s)) = rows s)"

definition may_set :: "('i, 'j, 'l, 'm, 'z) option_env \<Rightarrow> option_kind \<Rightarrow> ('i, 'j, 'l, 'z) data_state_scheme \<Rightarrow> bool" where
  "may_set env k s \<longleftrightarrow> minHearts k \<le> option_hearts env (userid (current s))"

lemma option_loop_named:
  assumes "edit_distance (option_lev env)" and "may_set env k s"
  shows "k \<in> set ks \<Longrightarrow> option_loop env ks (optionName k) v l s = option_handle env k (optionName k) v l s"
proof (induction ks)
  case (Cons k' ks)
  note handled = option_name_handled [OF assms(1)]
  show ?case
  proof (cases "k' = k")
    case True
    have "option_handle env k (optionName k) v l s = (Inr None, s') \<Longrightarrow> False" for s'
      using assms(2) by (auto simp: option_handle_def handled may_set_def bot_bind_def bot_return_def split: prod.splits sum.splits)
    then show ?thesis
      using True by (auto simp: bot_bind_def bot_return_def split: prod.splits sum.splits option.splits)
  next
    case False
    then have "option_handle env k' (optionName k) v l s = (Inr None, s)"
      by (simp add: option_handle_def handled bot_return_def)
    then show ?thesis using Cons False by (simp add: bot_bind_def)
  qed
qed simp

lemma option_kinds_all: "k \<in> set option_kinds"
  by (cases k) (simp_all add: option_kinds_def)

lemma options_handler_named:
  assumes "edit_distance (option_lev env)" and "may_set env k s" and "option_request command = Some (optionName k, v)"
  shows "options_handler env command u l s =
    (case (case v of Some v \<Rightarrow> bot_bind (handle_set env k v l) (\<lambda>_. response_after_set env k)
           | None \<Rightarrow> handle_get env k) s of
       (Inl e, s') \<Rightarrow> (Inl e, s') | (Inr r, s') \<Rightarrow> (Inr (Some r), s'))"
proof -
  let ?m = "case v of Some v \<Rightarrow> bot_bind (handle_set env k v l) (\<lambda>_. response_after_set env k)
     | None \<Rightarrow> handle_get env k"
  obtain r s' where m: "?m s = (r, s')" by (cases "?m s")
  have "option_handle env k (optionName k) v l s = (map_sum id Some r, s')"
    using assms(2) m
    by (cases r) (simp_all add: option_handle_def option_name_handled [OF assms(1)] may_set_def
        bot_bind_def [of ?m] bot_return_def)
  then show ?thesis
    by (cases r) (simp_all add: options_handler_def assms(3) m option_loop_named [OF assms(1,2) option_kinds_all])
qed

lemma set_steps:
  assumes "options_ok env cls"
  shows "(data_step (option_jackson env) cls)\<^sup>*\<^sup>* s (snd (handle_set env k v l s))"
proof -
  let ?step = "data_step (option_jackson env) cls"
  have one: "?step\<^sup>*\<^sup>* s (snd (bot_update f s))" if "f \<in> setters" for f s
    using that by (auto simp: bot_update_def intro: set_field)
  have boolean: "?step\<^sup>*\<^sup>* s (snd (set_boolean env k b s))" for b
  proof (cases "k = V2ApiOption")
    case True
    let ?s = "s\<lparr>current := setV2 b (current s)\<rparr>"
    have set: "?step s ?s" by (rule set_field) (simp add: setters_def)
    obtain r t where save: "save_user_data (option_jackson env) ?s = (r, t)"
      by (cases "save_user_data (option_jackson env) ?s")
    have "?step ?s t"
      using data_step.save [of "option_jackson env" cls ?s] save by simp
    then have t: "?step\<^sup>*\<^sup>* s t" using set by auto
    moreover have "?step t (snd (forceUpdateTopScores env (userid (current t)) t))"
      by (rule elsewhere) (use assms in \<open>auto simp: options_ok_def\<close>)
    ultimately have "?step\<^sup>*\<^sup>* s (snd (forceUpdateTopScores env (userid (current t)) t))"
      by (rule rtranclp.rtrancl_into_rtrancl)
    with t show ?thesis
      using True save by (cases r) (simp_all add: bot_bind_def bot_update_def)
  next
    case False
    then show ?thesis
      by (cases k) (auto intro: one simp: setters_def bot_return_def)
  qed
  show ?thesis
  proof (cases "k = LangOption \<or> k = DefaultOption")
    case True
    then show ?thesis
      by (auto simp: handle_set_def bot_throw_def setters_def intro!: one split: option.split sum.split)
  next
    case False
    then show ?thesis using boolean by (simp add: handle_set_boolean split: sum.split)
  qed
qed

lemma after_set_steps:
  assumes "options_ok env cls"
  shows "(data_step (option_jackson env) cls)\<^sup>*\<^sup>* s (snd (response_after_set env k s))"
proof (cases "k = LangOption")
  case True
  have "registers (option_jackson env) cls (optionalCommentOnLanguage env)"
    using assms by (simp add: options_ok_def)
  then show ?thesis using True by (auto simp: response_after_set_def intro: use_language)
qed (simp add: response_after_set_def handle_get_def)

lemma after_set_value:
  "getCurrentValue env k' (current (snd (response_after_set env k s))) = getCurrentValue env k' (current s)"
  by (cases k') (auto simp: response_after_set_def handle_get_def using_language_def getCurrentValue_def
      split: option.split prod.split)

text \<open>A set command, all told.\<close>

lemma set_outcome:
  assumes "options_ok env cls" and "may_set env k s" and "v = [] \<or> (of_char (last v) :: nat) > 32"
    and "options_handler env (set_command k v) u l s = (r, t)"
  shows "(data_step (option_jackson env) cls)\<^sup>*\<^sup>* s t"
    and "new_value env k v l = None \<Longrightarrow> (\<exists>m. r = Inl (UserExn m)) \<and> t = s"
    and "new_value env k v l = Some x \<Longrightarrow>
      getCurrentValue env k' (current t) = (if k' = k then x else getCurrentValue env k' (current s))"
proof -
  have lev: "edit_distance (option_lev env)"
    and force: "\<And>i s. current (snd (forceUpdateTopScores env i s)) = current s"
    using assms(1) by (simp_all add: options_ok_def)
  obtain q s' where set: "handle_set env k v l s = (q, s')" by (cases "handle_set env k v l s")
  obtain p s'' where after: "response_after_set env k s' = (p, s'')" by (cases "response_after_set env k s'")
  note run = options_handler_named [OF lev assms(2) option_request_set [OF assms(3)], of u l, unfolded assms(4)]
  have t: "t = (case q of Inl _ \<Rightarrow> s' | Inr _ \<Rightarrow> s'')" and r: "q = Inl e \<Longrightarrow> r = Inl e" for e
    using run by (cases q; cases p; simp add: bot_bind_def set after)+
  show "(data_step (option_jackson env) cls)\<^sup>*\<^sup>* s t"
    using set_steps [OF assms(1), of s k v l] after_set_steps [OF assms(1), of s' k] set after
    by (cases q) (auto simp: t)
  show "(\<exists>m. r = Inl (UserExn m)) \<and> t = s" if "new_value env k v l = None"
    using handle_set_refused [OF that, of s] set r by (auto simp: t)
  show "getCurrentValue env k' (current t) = (if k' = k then x else getCurrentValue env k' (current s))"
    if "new_value env k v l = Some x"
    using handle_set_value [OF force that, of k' s] after_set_value [of env k' k s'] set after
    by (cases q) (simp_all add: t)
qed

section \<open>Example\<close>

definition small_options :: "(bool, int option, int \<times> bool, int, unit) option_env" where
  "small_options = \<lparr>option_jackson = unary, option_lev = edit_cost, option_hearts = (\<lambda>_. 0),
     option_parser = example_env, language_values = [False, True], language_token = (\<lambda>b. if b then ''b'' else ''a''),
     optionalCommentOnLanguage = (\<lambda>l. (NoResponse, l)), forceUpdateTopScores = (\<lambda>_. bot_return ())\<rparr>"

definition tom :: user where
  "tom = \<lparr>user_id = 7, user_name = ''tom''\<rparr>"

lemma small_options_ok: "options_ok small_options (\<lambda>_ _. True)"
  using edit_cost_distance unary_laws
  by (simp add: options_ok_def small_options_def registers_def bot_return_def)

end
