(* ===== verification/Bot_Options.thy ===== *)
theory Bot_Options
  imports Options_Correct Bot_Correct
begin

text \<open>
  The bot as it is put together for the commands that concern the user: the command \<open>!fixid\<close>, which comes
  before everything else (\<open>handlers/FixIDHandler\<close>), the settings of \<open>User_Data\<close> around the handlers, and
  the first two handlers in their order, \<open>ResetHandler\<close> and \<open>OptionsHandler\<close>. What a user sets in one message
  is what a later message shows.
\<close>

section \<open>The bot with settings and options\<close>

text \<open>\<open>Integer.parseInt\<close>; \<open>resolve\<close> is \<open>IrcNameResolver.resolveManually\<close>.\<close>

definition parseId :: "string \<Rightarrow> throwable + int" where
  "parseId s =
     (case parseLong s of
        Inr i \<Rightarrow> if - (2 ^ 31) \<le> i \<and> i < 2 ^ 31 then Inr i else Inl (UserExn ''Invalid user-id :('')
      | Inl _ \<Rightarrow> Inl (UserExn ''Invalid user-id :(''))"

definition fixid_handler :: "(int \<Rightarrow> ('s, user option) bot) \<Rightarrow> string \<Rightarrow> ('s, response option) bot" where
  "fixid_handler resolve command =
     (if \<not> startsWith (to_lower command) ''!fixid'' then bot_return None
      else
        bot_bind (bot_of (parseId (trim (drop (length ''!fixid'') command)))) (\<lambda>i.
          bot_bind (resolve i) (\<lambda>u.
            case u of
              None \<Rightarrow> bot_throw (UserExn ''That user-id does not exist :('')
            | Some u \<Rightarrow> bot_return (Some (Message (''User '' @ [CHR 0x27] @ user_name u @ [CHR 0x27] @
                '' is now resolvable to user-id '' @ show_int (user_id u)))))))"

text \<open>\<open>env\<close> has the other parts of the bot, \<open>others\<close> are the handlers behind the first two, and \<open>speak\<close> is
  what a language says. While a handler runs, the language it was given stays as it is.\<close>

definition settings_bot ::
  "('i, 'j, 'l, 'm, 'z) option_env \<Rightarrow> ('l \<Rightarrow> lang) \<Rightarrow> (int \<Rightarrow> ('i, 'j, 'l, 'z, unit) data_bot) \<Rightarrow>
     (int \<Rightarrow> ('i, 'j, 'l, 'z, user option) data_bot) \<Rightarrow> ('i, 'j, 'l, 'z) data_state_scheme handler list \<Rightarrow>
     ('i, 'j, 'l, 'z) data_state_ext bot_env \<Rightarrow> ('i, 'j, 'l, 'z) data_state_ext bot_env" where
  "settings_bot opts speak forget resolve others env = env\<lparr>
     handlers := reset_handler forget # options_handler opts # others,
     fixId := fixid_handler resolve,
     loadUserData := load_user_data (option_jackson opts),
     closeUserData := close_user_data (option_jackson opts),
     usingLanguage := using_language (option_jackson opts) (\<lambda>l. (speak l, l))\<rparr>"

section \<open>Handling a message\<close>

text \<open>A name that the resolver and the API know, and that fits.\<close>

definition known :: "'z bot_env \<Rightarrow> string \<Rightarrow> user \<Rightarrow> bool" where
  "known env nick u \<longleftrightarrow> nick = getIrcUserName u
     \<and> (\<forall>s. resolveIRCName env nick s = (Inr (Some (user_id u)), s))
     \<and> (\<forall>s. getUser env (user_id u) (60 * 60 * 1000) s = (Inr (Some u), s))"

lemma known_found: "known env nick u \<Longrightarrow> getUserOrThrow env nick s = (Inr u, s)"
  by (auto simp: known_def getUserOrThrow_def Let_def bot_bind_def bot_return_def)

lemma no_link: "linkPpaddict env (CHR ''!'' # m) u s = (Inr None, s)"
  by (simp add: linkPpaddict_def is_token_def bot_return_def)

text \<open>A command that a handler answers, by a response or by an exception.\<close>

lemma answered_command:
  assumes "dispatch (handlers env) c u l (news_seen nick s) = (d, t)" and "d \<noteq> Inr None" and "database s = Working"
  shows "run_command env nick c u l s =
    (case d of
       Inl e \<Rightarrow> if caught e then (Inr (and_then (news env nick s) (Some (handleException env e l))), t) else (Inl e, t)
     | Inr r \<Rightarrow> (Inr (and_then (news env nick s) r), t))"
  using assms(1,2)
  by (cases d) (auto simp: run_command_def checkVersionInfo_working [OF assms(3)] bot_bind_def bot_catch_def bot_return_def)

lemma settings_bot_parts:
  assumes "env = settings_bot opts speak forget resolve others env0"
  shows "handlers env = reset_handler forget # options_handler opts # others" "fixId env = fixid_handler resolve"
    "loadUserData env = load_user_data (option_jackson opts)" "closeUserData env = close_user_data (option_jackson opts)"
    "usingLanguage env = using_language (option_jackson opts) (\<lambda>l. (speak l, l))" "npHandler env = npHandler env0"
  by (simp_all add: assms settings_bot_def)

lemma loaded:
  assumes "load_user_data jk i s = (Inr (), s1)"
  shows "database s = Working" "database s1 = Working" "versions s1 = versions s" "userid (current s1) = i"
  using load_coherent [OF assms] assms
  by (auto simp: load_user_data_def sql_failure_def split: database.splits option.splits)

text \<open>The settings with the language that is used while a message is handled.\<close>

abbreviation speaking ::
  "'l \<Rightarrow> ('i, 'j, 'l, 'z) data_state_scheme \<Rightarrow> ('i, 'j, 'l, 'z) data_state_scheme" where
  "speaking l s \<equiv> s\<lparr>current := (current s)\<lparr>language := Some l\<rparr>\<rparr>"

lemma language_used:
  "load_language jk (current s) = Some l \<Longrightarrow> using_language jk (\<lambda>l. (speak l, l)) s = (Inr (speak l), speaking l s)"
  by (simp add: using_language_def)

text \<open>Before any handler is asked, a message runs through \<open>!fixid\<close>, the user and the settings.\<close>

lemma command_message:
  assumes "env = settings_bot opts speak forget resolve others env0" and "known env nick u"
    and "load_user_data (option_jackson opts) (user_id u) s = (Inr (), s1)"
    and "load_language (option_jackson opts) (current s1) = Some l"
    and "trim c = c" and "\<not> startsWith (to_lower c) ''fixid''"
    and "getDonator env (user_id u) > 0 \<longrightarrow> \<not> has_hug False (CHR ''!'' # c)"
    and "dispatch (handlers env) c u (speak l) (news_seen nick (speaking l s1)) = (d, t)" and "d \<noteq> Inr None"
    and "close_user_data (option_jackson opts) t = (Inr (), s3)"
  shows "processPrivateMessage env nick (CHR ''!'' # c) s =
    (case d of
       Inl e \<Rightarrow> if caught e then Inr (and_then (news env nick s) (Some (handleException env e (speak l)))) else Inl e
     | Inr r \<Rightarrow> Inr (and_then (news env nick s) r), s3)"
proof -
  let ?s = "speaking l s1"
  note parts = settings_bot_parts [OF assms(1)]
  have db: "database ?s = Working" using loaded(2) [OF assms(3)] by simp
  have news: "news env nick ?s = news env nick s" using loaded(3) [OF assms(3)] by (simp add: news_def)
  have no_hug: "(has_hug False (CHR ''!'' # c) \<and> getDonator env (user_id u) > 0) = False"
    using assms(7) by blast
  note run = answered_command [OF assms(8,9) db, unfolded news]
  have "answer_message env nick (CHR ''!'' # c) u (speak l) ?s =
      (case d of
         Inl e \<Rightarrow> if caught e then (Inr (and_then (news env nick s) (Some (handleException env e (speak l)))), t) else (Inl e, t)
       | Inr r \<Rightarrow> (Inr (and_then (news env nick s) r), t))"
    by (cases d) (simp_all add: answer_message_def bot_catch_def bot_bind_def no_link startsWith_def assms(5) run no_hug
        del: has_hug.simps)
  moreover have "fixid_handler resolve (CHR ''!'' # c) s = (Inr None, s)"
    using assms(6) by (simp add: fixid_handler_def startsWith_def to_lower_def bot_return_def)
  ultimately have "processPrivateMessage env nick (CHR ''!'' # c) s =
     bot_catch (\<lambda>s. case d of
        Inl e \<Rightarrow> if caught e then (Inr (and_then (news env nick s) (Some (handleException env e (speak l)))), s3) else (Inl e, s3)
     | Inr r \<Rightarrow> (Inr (and_then (news env nick s) r), s3)) caught (\<lambda>e. bot_return (handleException env e (default_lang env))) s"
    by (cases d) (simp_all add: processPrivateMessage_def parts bot_catch_def bot_bind_def bot_closing_def
        known_found [OF assms(2)] assms(3,10) language_used [OF assms(4)])
  then show ?thesis by (cases d) (simp_all add: bot_catch_def)
qed

text \<open>An action (\<open>/np\<close>) likewise; its news come first.\<close>

lemma action_message:
  assumes "env = settings_bot opts speak forget resolve others env0" and "known env nick u" and "database s = Working"
    and "load_user_data (option_jackson opts) (user_id u) (news_seen nick s) = (Inr (), s1)"
    and "load_language (option_jackson opts) (current s1) = Some l"
    and "npHandler env a u (speak l) (speaking l s1) = (d, t)"
    and "close_user_data (option_jackson opts) t = (Inr (), s3)"
  shows "processPrivateAction env nick a s =
    (case d of
       Inl e \<Rightarrow> if caught e then Inr (and_then (news env nick s) (Some (handleException env e (speak l))))
                else Inl e
     | Inr r \<Rightarrow> Inr (and_then (news env nick s) r), s3)"
  by (cases d) (simp_all add: processPrivateAction_def checkVersionInfo_working [OF assms(3)] settings_bot_parts [OF assms(1)]
      answer_action_def bot_catch_def bot_bind_def bot_closing_def bot_return_def known_found [OF assms(2)] assms(4,7)
      language_used [OF assms(5)] assms(6) [unfolded settings_bot_parts [OF assms(1)]])

text \<open>A command that is one of the options reaches their handler.\<close>

lemma option_dispatch:
  assumes "option_request c = Some q" and "options_handler opts c u l s = (d, t)"
  shows "dispatch (reset_handler forget # options_handler opts # others) c u l s = (d, t)" "d \<noteq> Inr None"
proof -
  have "to_lower c \<noteq> ''reset''"
    using assms(1) by (auto simp: option_request_def Let_def startsWith_def split: if_splits)
  moreover show "d \<noteq> Inr None"
    using assms by (auto simp: options_handler_def split: prod.splits sum.splits option.splits)
  ultimately show "dispatch (reset_handler forget # options_handler opts # others) c u l s = (d, t)"
    using assms(2) by (cases d) (auto simp: bot_bind_def bot_return_def reset_handler_def)
qed

lemma option_message:
  assumes "env = settings_bot opts speak forget resolve others env0" and "known env nick u"
    and "load_user_data (option_jackson opts) (user_id u) s = (Inr (), s1)"
    and "load_language (option_jackson opts) (current s1) = Some l"
    and "option_request c = Some q" and "trim c = c" and "\<not> startsWith (to_lower c) ''fixid''"
    and "getDonator env (user_id u) > 0 \<longrightarrow> \<not> has_hug False (CHR ''!'' # c)"
    and "options_handler opts c u (speak l) (news_seen nick (speaking l s1)) = (d, t)"
    and "close_user_data (option_jackson opts) t = (Inr (), s3)"
  shows "processPrivateMessage env nick (CHR ''!'' # c) s =
    (case d of
       Inl e \<Rightarrow> if caught e then Inr (and_then (news env nick s) (Some (handleException env e (speak l)))) else Inl e
     | Inr r \<Rightarrow> Inr (and_then (news env nick s) r), s3)"
proof -
  note option = option_dispatch [OF assms(5,9)]
  have "dispatch (handlers env) c u (speak l) (news_seen nick (speaking l s1)) = (d, t)"
    unfolding settings_bot_parts(1) [OF assms(1)] by (rule option(1))
  then show ?thesis by (rule command_message [OF assms(1-4,6-8) _ option(2) assms(10)])
qed

section \<open>What the frame keeps\<close>

lemma news_seen_same [simp]:
  "current (news_seen nick s) = current s" "rows (news_seen nick s) = rows s" "database (news_seen nick s') = database s'"
  by (simp_all add: news_seen_def split: option.split)

text \<open>A language that could be loaded can be used until the end.\<close>

lemma language_stays:
  "(data_step jk cls)\<^sup>*\<^sup>* s t \<Longrightarrow> load_language jk (current s) \<noteq> None \<Longrightarrow> load_language jk (current t) \<noteq> None"
proof (induction rule: rtranclp_induct)
  case (step t t')
  from step(2) step(3) [OF step(4)] show ?case
  proof (induction rule: data_step.induct)
    case (set_field f s)
    then show ?case
      by (auto simp: setters_def setter_defs load_language_def read_language_def split: option.splits if_splits)
  next
    case (use_language task s)
    then show ?case by (auto simp: using_language_def load_language_def split: option.splits prod.split)
  next
    case (save s)
    then show ?case
      by (auto simp: save_eq load_language_def saved_data_def setChanged_def split: option.splits)
  qed simp
qed

lemma close_works:
  assumes "database s = Working" and "load_language jk (current s) \<noteq> None"
  obtains t where "close_user_data jk s = (Inr (), t)" and "database t = Working"
  using assms by (cases "isChanged jk (current s)")
    (auto simp: close_user_data_def bot_catch_def save_eq sql_failure_def)

lemma save_database: "database (snd (save_user_data jk s)) = database s"
  by (simp add: save_eq split: option.split)

lemma set_database:
  assumes "\<forall>i s. database (snd (forceUpdateTopScores opts i s)) = database s"
  shows "database (snd (handle_set opts k v l s)) = database s"
proof -
  have "database (snd (set_boolean opts k b s)) = database s" for b
    using save_database [of "option_jackson opts" "s\<lparr>current := setV2 b (current s)\<rparr>"] assms
    by (cases k) (auto simp: bot_update_def bot_return_def bot_bind_def split: prod.splits sum.splits)
  then show ?thesis
    by (auto simp: handle_set_def bot_throw_def bot_update_def bot_bind_def bot_of_def split: option_kind.split option.split sum.split)
qed

lemma options_database:
  assumes "options_ok opts cls" and "\<forall>i s. database (snd (forceUpdateTopScores opts i s)) = database s"
    and "may_set opts k s" and "v = [] \<or> (of_char (last v) :: nat) > 32"
  shows "database (snd (options_handler opts (set_command k v) u l s)) = database s"
proof -
  have after: "database (snd (response_after_set opts k s)) = database s" for s
    by (auto simp: response_after_set_def handle_get_def using_language_def split: option.split prod.split)
  obtain q t where q: "handle_set opts k v l s = (q, t)" by (cases "handle_set opts k v l s")
  have "database t = database s" using set_database [OF assms(2), of k v l s] q by simp
  then show ?thesis
    using assms(1) options_handler_named [OF _ assms(3) option_request_set [OF assms(4)], of u l] after [of t] q
    by (cases q) (auto simp: options_ok_def bot_bind_def split: prod.splits sum.splits)
qed

lemma speaking_step:
  assumes "load_language jk (current s) = Some l"
  shows "data_step jk cls s (speaking l s)"
proof -
  have "data_step jk cls s (snd (using_language jk (\<lambda>l. (NoResponse, l)) s))"
    by (rule use_language) (simp add: registers_def)
  then show ?thesis by (simp add: using_language_def assms)
qed

section \<open>The text of the messages\<close>

lemma trim_id: "s \<noteq> [] \<Longrightarrow> (of_char (hd s) :: nat) > 32 \<Longrightarrow> (of_char (last s) :: nat) > 32 \<Longrightarrow> trim s = s"
  using trim_dropped [of s] by (simp add: trim_def)

lemma set_command_text:
  assumes "v = [] \<or> (of_char (last v) :: nat) > 32"
  shows "trim (set_command k v) = set_command k v" "\<not> startsWith (to_lower (set_command k v)) ''fixid''"
  using assms optionName_chars [of k]
  by (auto intro!: trim_id simp: set_command_def startsWith_def to_lower_def)

lemma get_command_text:
  "trim (get_command k) = get_command k" "\<not> startsWith (to_lower (get_command k)) ''fixid''"
  "\<not> has_hug False (CHR ''!'' # get_command k)"
  using optionName_chars [of k]
  by (auto intro!: trim_id simp: get_command_def startsWith_def to_lower_def)
    (cases k; simp add: word_ends_def is_word_def Let_def startsWith_def to_lower_def)

section \<open>From message to message\<close>

lemma user_exn_message: "handleException env (UserExn m) l = Message m"
  by (simp add: handleException_def exception_response_def)

lemma may_set_user: "userid (current s) = i \<Longrightarrow> may_set opts k s \<longleftrightarrow> minHearts k \<le> option_hearts opts i"
  by (simp add: may_set_def)

text \<open>The message that sets an option, from the settings that it finds to those that it leaves.\<close>

lemma set_message:
  assumes "options_ok opts cls" and "\<forall>i s. database (snd (forceUpdateTopScores opts i s)) = database s"
    and "env = settings_bot opts speak forget resolve others env0" and "known env nick u"
    and "load_user_data (option_jackson opts) (user_id u) s0 = (Inr (), s1)"
    and "load_language (option_jackson opts) (current s1) = Some l"
    and "minHearts k \<le> option_hearts opts (user_id u)" and "v = [] \<or> (of_char (last v) :: nat) > 32"
    and "getDonator env (user_id u) > 0 \<longrightarrow> \<not> has_hug False (CHR ''!'' # set_command k v)"
    and "processPrivateMessage env nick (CHR ''!'' # set_command k v) s0 = (r, s3)"
  obtains s4 l' where "load_user_data (option_jackson opts) (user_id u) s3 = (Inr (), s4)"
    and "load_language (option_jackson opts) (current s4) = Some l'"
    and "\<And>k'. getCurrentValue opts k' (current s4) = (case new_value opts k v (speak l) of
           Some x \<Rightarrow> if k' = k then x else getCurrentValue opts k' (current s1)
         | None \<Rightarrow> getCurrentValue opts k' (current s1))"
    and "new_value opts k v (speak l) = None \<Longrightarrow> \<exists>m. r = Inr (and_then (news env nick s0) (Some (Message m)))"
proof -
  let ?jk = "option_jackson opts"
  let ?l = "s1\<lparr>current := (current s1)\<lparr>language := Some l\<rparr>\<rparr>"
  let ?n = "news_seen nick ?l"
  have laws: "jackson_laws ?jk cls" using assms(1) by (simp add: options_ok_def)
  have user: "userid (current s1) = user_id u" "database s1 = Working"
    using load_coherent [OF assms(5)] assms(5)
    by (auto simp: load_user_data_def sql_failure_def split: database.splits option.splits)
  have may: "may_set opts k ?n" using assms(7) user(1) by (simp add: may_set_def)
  obtain d t where d: "options_handler opts (set_command k v) u (speak l) ?n = (d, t)"
    by (cases "options_handler opts (set_command k v) u (speak l) ?n")
  note set = set_outcome [OF assms(1) may assms(8) d]
  have "data_step ?jk cls s1 ?l" using assms(6) by (rule speaking_step)
  moreover have "data_step ?jk cls ?l ?n" by (rule elsewhere) simp_all
  ultimately have steps: "(data_step ?jk cls)\<^sup>*\<^sup>* s1 t"
    using set(1) by (meson converse_rtranclp_into_rtranclp)
  have db: "database t = Working"
    using options_database [OF assms(1,2) may assms(8), of u "speak l"] d user(2) by simp
  have lang: "load_language ?jk (current t) \<noteq> None"
    using language_stays [OF steps] assms(6) by simp
  obtain s where close: "close_user_data ?jk t = (Inr (), s)"
    using close_works [OF db lang] .
  have message: "processPrivateMessage env nick (CHR ''!'' # set_command k v) s0 =
      (case d of
         Inl e \<Rightarrow> if caught e then Inr (and_then (news env nick s0) (Some (handleException env e (speak l)))) else Inl e
       | Inr r \<Rightarrow> Inr (and_then (news env nick s0) r), s)"
    by (rule option_message [OF assms(3-6) option_request_set [OF assms(8)] set_command_text [OF assms(8)] assms(9) d close])
  then have s: "s = s3" using assms(10) by simp
  have tu: "userid (current t) = user_id u" using steps_userid [OF steps] user(1) by simp
  obtain s4 where load: "load_user_data ?jk (user_id u) s3 = (Inr (), s4)"
    and view: "user_view ?jk (current s4) = user_view ?jk (current t)"
    using settings_saved [OF laws assms(5) steps db close] s tu by auto
  obtain l' where l': "load_language ?jk (current s4) = Some l'"
    using view lang by (cases "load_language ?jk (current s4)") (auto simp: user_view_def)
  have kept: "getCurrentValue opts k' (current ?n) = getCurrentValue opts k' (current s1)" for k'
    by (cases k') (simp_all add: getCurrentValue_def)
  have same: "getCurrentValue opts k' (current s4) = getCurrentValue opts k' (current t)" for k'
    by (rule value_written) (rule arg_cong [OF view])
  show thesis
  proof (rule that [OF load l'])
    show "getCurrentValue opts k' (current s4) = (case new_value opts k v (speak l) of
           Some x \<Rightarrow> if k' = k then x else getCurrentValue opts k' (current s1)
         | None \<Rightarrow> getCurrentValue opts k' (current s1))" for k'
      using same [of k'] set(2) set(3) [of _ k'] kept by (cases "new_value opts k v (speak l)") auto
    show "\<exists>m. r = Inr (and_then (news env nick s0) (Some (Message m)))" if "new_value opts k v (speak l) = None"
      using set(2) [OF that] message assms(10) by (auto simp: user_exn_message)
  qed
qed

text \<open>The message that asks for an option.\<close>

lemma get_message:
  assumes "edit_distance (option_lev opts)"
    and "env = settings_bot opts speak forget resolve others env0" and "known env nick u"
    and "load_user_data (option_jackson opts) (user_id u) s = (Inr (), s1)"
    and "load_language (option_jackson opts) (current s1) = Some l"
    and "minHearts k \<le> option_hearts opts (user_id u)"
  shows "\<exists>t. processPrivateMessage env nick (CHR ''!'' # get_command k) s =
    (Inr (and_then (news env nick s)
       (Some (Message (option_description k @ '': '' @ getCurrentValue opts k (current s1))))), t)"
proof -
  let ?l = "s1\<lparr>current := (current s1)\<lparr>language := Some l\<rparr>\<rparr>"
  let ?n = "news_seen nick ?l"
  have user: "userid (current s1) = user_id u" "database s1 = Working"
    using load_coherent [OF assms(4)] assms(4)
    by (auto simp: load_user_data_def sql_failure_def split: database.splits option.splits)
  have may: "may_set opts k ?n" using assms(6) user(1) by (simp add: may_set_def)
  have "getCurrentValue opts k (current ?n) = getCurrentValue opts k (current s1)"
    by (cases k) (simp_all add: getCurrentValue_def)
  then have d: "options_handler opts (get_command k) u (speak l) ?n =
      (Inr (Some (Message (option_description k @ '': '' @ getCurrentValue opts k (current s1)))), ?n)"
    using options_handler_named [OF assms(1) may option_request_get, of u "speak l"] by (simp add: handle_get_def)
  have "database ?n = Working" "load_language (option_jackson opts) (current ?n) \<noteq> None"
    using user(2) by (simp_all add: load_language_def)
  then obtain t where "close_user_data (option_jackson opts) ?n = (Inr (), t)"
    using close_works by blast
  then show ?thesis
    using option_message [OF assms(2-5) option_request_get get_command_text(1,2) _ d, of t] get_command_text(3)
    by auto
qed

text \<open>C31. What a user sets is what the bot tells the user later, from message to message: after the message that
  sets an option, whatever the bot answers to it, a message that asks for the option is answered with the
  new value, and one that asks for another option with the value that it had before. A value that is
  refused is answered with a message, and every option has the value that it had before. Settings are
  loaded and closed around both messages, the user has a name that resolves, the language can be read,
  and the database works; news that the user has not seen are put before the answer.\<close>

theorem option_remembered:
  assumes "options_ok opts cls" and "\<forall>i s. database (snd (forceUpdateTopScores opts i s)) = database s"
    and "env = settings_bot opts speak forget resolve others env0" and "known env nick u"
    and "load_user_data (option_jackson opts) (user_id u) s0 = (Inr (), s1)"
    and "load_language (option_jackson opts) (current s1) = Some l"
    and "minHearts k \<le> option_hearts opts (user_id u)" and "v = [] \<or> (of_char (last v) :: nat) > 32"
    and "getDonator env (user_id u) > 0 \<longrightarrow> \<not> has_hug False (CHR ''!'' # set_command k v)"
    and "processPrivateMessage env nick (CHR ''!'' # set_command k v) s0 = (r, s3)"
    and "minHearts k' \<le> option_hearts opts (user_id u)"
  shows "(\<exists>s4. processPrivateMessage env nick (CHR ''!'' # get_command k') s3 =
      (Inr (and_then (news env nick s3) (Some (Message (option_description k' @ '': '' @
         (case new_value opts k v (speak l) of
            Some x \<Rightarrow> if k' = k then x else getCurrentValue opts k' (current s1)
          | None \<Rightarrow> getCurrentValue opts k' (current s1)))))), s4))
    \<and> (new_value opts k v (speak l) = None \<longrightarrow>
        (\<exists>m. r = Inr (and_then (news env nick s0) (Some (Message m)))))"
proof -
  have lev: "edit_distance (option_lev opts)" using assms(1) by (simp add: options_ok_def)
  obtain s4 l' where load: "load_user_data (option_jackson opts) (user_id u) s3 = (Inr (), s4)"
    and lang: "load_language (option_jackson opts) (current s4) = Some l'"
    and val: "\<And>k'. getCurrentValue opts k' (current s4) = (case new_value opts k v (speak l) of
           Some x \<Rightarrow> if k' = k then x else getCurrentValue opts k' (current s1)
         | None \<Rightarrow> getCurrentValue opts k' (current s1))"
    and bad: "new_value opts k v (speak l) = None \<Longrightarrow> \<exists>m. r = Inr (and_then (news env nick s0) (Some (Message m)))"
    using set_message [OF assms(1-10)] by blast
  show ?thesis
    using get_message [OF lev assms(3,4) load lang assms(11)] bad unfolding val by blast
qed

section \<open>Example\<close>

definition tom_bot :: "(bool, int option, int \<times> bool, unit) data_state_ext bot_env" where
  "tom_bot = \<lparr>handlers = [], npHandler = (\<lambda>_ _ _. bot_return None), fixId = (\<lambda>_. bot_return None),
     tryLinkToPatreon = (\<lambda>_ _. bot_return None), resolveIRCName = (\<lambda>_. bot_return (Some 7)),
     getUser = (\<lambda>_ _. bot_return (Some tom)), setMapping = (\<lambda>_ _. bot_return ()),
     redownloadUser = (\<lambda>_. bot_return None), loadUserData = (\<lambda>_. bot_return ()),
     closeUserData = bot_return (), usingLanguage = bot_return english, getDonator = (\<lambda>_. 0),
     isShowWelcomeMessage = (\<lambda>_. False), isOsuTrackWelcomeEnabled = (\<lambda>_. False),
     inactiveTime = (\<lambda>_. bot_return 0), osutrackUpdate = (\<lambda>_. bot_return NoResponse),
     registerActivity = (\<lambda>_. bot_return ()), default_lang = english, help_text = ''help'', reference = ''x''\<rparr>"

definition tom_settings_bot :: "(bool, int option, int \<times> bool, unit) data_state_ext bot_env" where
  "tom_settings_bot =
     settings_bot small_options (\<lambda>_. english) (\<lambda>_. bot_return ()) (\<lambda>_. bot_return None) [] tom_bot"

lemma option_remembered_witness:
  "\<exists>r s3 s4. processPrivateMessage tom_settings_bot ''tom'' ''!set r-metadata off'' empty_data = (r, s3)
    \<and> processPrivateMessage tom_settings_bot ''tom'' ''!get r-metadata'' s3 =
        (Inr (and_then (news tom_settings_bot ''tom'' s3)
           (Some (Message ''Show map metadata on recommendations: OFF''))), s4)"
proof -
  have known: "known tom_settings_bot ''tom'' tom"
    by (simp add: known_def tom_settings_bot_def settings_bot_def tom_bot_def tom_def getIrcUserName_def bot_return_def)
  have load: "load_user_data (option_jackson small_options) (user_id tom) empty_data = (Inr (), tom_data)"
    by (simp add: small_options_def tom_def load_user_data_def empty_data_def tom_data_def sql_failure_def read_row_def)
  have lang: "load_language (option_jackson small_options) (current tom_data) = Some (0, False)"
    by (simp add: small_options_def load_language_def read_language_def tom_data_def new_user_data_def unary_def)
  have force: "\<forall>i s. database (snd (forceUpdateTopScores small_options i s)) = database s"
    by (simp add: small_options_def bot_return_def)
  have "parseBoolean ''off'' english = Inr False" by code_simp
  then have new: "new_value small_options MapMetaDataOption ''off'' english = Some ''OFF''"
    by (simp add: new_value_def on_off_def)
  obtain r s3 where set: "processPrivateMessage tom_settings_bot ''tom''
      (CHR ''!'' # set_command MapMetaDataOption ''off'') empty_data = (r, s3)"
    by fastforce
  have "getDonator tom_settings_bot (user_id tom) = 0"
    by (simp add: tom_settings_bot_def settings_bot_def tom_bot_def)
  then have "\<exists>s4. processPrivateMessage tom_settings_bot ''tom'' (CHR ''!'' # get_command MapMetaDataOption) s3 =
      (Inr (and_then (news tom_settings_bot ''tom'' s3)
         (Some (Message (option_description MapMetaDataOption @ '': '' @ ''OFF'')))), s4)"
    using option_remembered [OF small_options_ok force tom_settings_bot_def known load lang _ _ _ set, of MapMetaDataOption] new
    by (simp add: small_options_def)
  then show ?thesis using set by (simp add: set_command_def get_command_def)
qed

end
