(* ===== verification/Songs_Correct.thy ===== *)
theory Songs_Correct
  imports Songs Bot_Options
begin

text \<open>
  What the commands on a beatmap answer, and that the beatmap of one message is the beatmap of the next.
\<close>

section \<open>Beatmaps that are known\<close>

text \<open>The services answer for the beatmap \<open>b\<close> with any mods, and do so without touching the settings.\<close>

definition song_known ::
  "('i, 'j, 'l, 'z) song_env \<Rightarrow> int \<Rightarrow> (int \<Rightarrow> api_beatmap) \<Rightarrow> (int \<Rightarrow> impl) \<Rightarrow> bool" where
  "song_known sg b x i \<longleftrightarrow> (\<forall>m. mode (x m) = 0 \<and> api_beatmapId (x m) = b)
     \<and> (\<forall>m s. loadOrDownload sg b m s = (Inr (Some (x m)), s)) \<and> (\<forall>m s. loadOrCalculate sg b m s = (Inr (Some (i m)), s))"

definition song_meta ::
  "('i, 'j, 'l, 'z) song_env \<Rightarrow> (int \<Rightarrow> api_beatmap) \<Rightarrow> (int \<Rightarrow> impl) \<Rightarrow> int \<Rightarrow> beatmap_meta" where
  "song_meta sg x i m = \<lparr>beatmap = x (getDiffMods (song_lib sg) m), personalPP = None,
     estimates = \<lparr>est_beatmap = i m, est_mods = m\<rparr>\<rparr>"

lemma load_known:
  "song_known sg b x i \<Longrightarrow> loadBeatmap sg b m s = (Inr (Some (song_meta sg x i m)), s)"
  by (simp add: song_known_def loadBeatmap_def getEstimates_def song_meta_def bot_bind_def bot_catch_def bot_return_def)

text \<open>Estimates are for the mods that were asked, so that the handlers never miss information on mods.\<close>

lemma loaded_mods: "loadBeatmap sg b m s = (Inr (Some x), t) \<Longrightarrow> meta_mods x = m"
  by (auto simp: loadBeatmap_def getEstimates_def bot_bind_def bot_catch_def bot_return_def bot_throw_def
      split: prod.splits sum.splits option.splits if_splits)

text \<open>A recoverable failure of the database comes out as a common one.\<close>

lemma recoverable_lost:
  "loadOrDownload sg b (getDiffMods (song_lib sg) m) s = (Inl SqlRecoverable, t) \<Longrightarrow> loadBeatmap sg b m s = (Inl SqlExn, t)"
  by (simp add: loadBeatmap_def bot_bind_def bot_catch_def bot_throw_def)

section \<open>The answers of the handlers\<close>

definition song_info ::
  "('i, 'j, 'l, 'z) song_env \<Rightarrow> (int \<Rightarrow> api_beatmap) \<Rightarrow> (int \<Rightarrow> impl) \<Rightarrow> int \<Rightarrow> int \<Rightarrow> hits \<Rightarrow> throwable + string" where
  "song_info sg x i user m h = formInfoMessage (song_lib sg) (song_meta sg x i m) False True None (song_hearts sg user) h"

definition answer :: "throwable + string \<Rightarrow> throwable + response option" where
  "answer r = sum_bind r (\<lambda>t. Inr (Some (Success t)))"

lemma set_song_userid [simp]: "userid (setLastSongInfo x d) = userid d"
  by (simp add: setLastSongInfo_def)

text \<open>An answer and the comment that follows it.\<close>

definition commented :: "throwable + string \<Rightarrow> throwable + response \<Rightarrow> throwable + response" where
  "commented r c = sum_bind r (\<lambda>t. sum_bind c (\<lambda>x. Inr (and_then (Success t) (Some x))))"

lemma commented_none: "commented r (Inr NoResponse) = sum_bind r (\<lambda>t. Inr (Success t))"
  by (cases r) (simp_all add: commented_def sum_bind_def and_then_def)

lemma np_answer:
  assumes "parseNP (mod_mask sg) l action = Inr (Some (b, mods))" and "song_known sg b x i"
  defines "asked s \<equiv> addLazer (song_lib sg) (current s) mods"
    and "after s \<equiv> s\<lparr>current := setLastSongInfo (Some (b, addLazer (song_lib sg) (current s) mods)) (current s)\<rparr>"
  shows "np_handler sg action u l s =
    (sum_bind (commented (song_info sg x i (userid (current s)) (asked s) UsualHits)
       (optionalCommentOnNP sg l u (song_meta sg x i (asked s)) (after s))) (\<lambda>x. Inr (Some x)), after s)"
  using assms(1)
  by (simp add: np_handler_def bot_bind_def bot_of_def Let_def load_known [OF assms(2)] set_song_def info_message_def
      bot_return_def asked_def after_def song_info_def sum_bind_def commented_def comment_def song_meta_def
      split: sum.split)

lemma acc_answer:
  assumes "startsWith (to_lower c) ''acc''" and "lastSongInfo (current s) = Some (b, mods)" and "song_known sg b x i"
  shows "acc_handler sg c u l s =
    (answer (sum_bind (acc_hits (parseDouble sg) (song_texts_of sg l) l (acc_message c))
       (song_info sg x i (userid (current s)) (addLazer (song_lib sg) (current s) mods))), s)"
  using assms(1,2)
  by (simp add: acc_handler_def bot_bind_def bot_of_def load_known [OF assms(3)] info_message_def bot_return_def
      answer_def song_info_def sum_bind_def split: sum.split)

text \<open>All that may be thrown is shown to the user.\<close>

definition shown :: "throwable + 'a \<Rightarrow> bool" where
  "shown r \<longleftrightarrow> (case r of Inl e \<Rightarrow> caught e | Inr _ \<Rightarrow> True)"

lemma shown_bind: "shown r \<Longrightarrow> (\<And>x. shown (f x)) \<Longrightarrow> shown (sum_bind r f)"
  by (cases r) (simp_all add: shown_def sum_bind_def)

lemma shown_simps [simp]: "shown (Inr x)" "shown (Inl e) \<longleftrightarrow> caught e"
  by (simp_all add: shown_def)

lemma shown_pp: "shown (getPP_misses lib e acc combo misses)" "shown (getPP lib e acc)"
  by (auto simp: getPP_def getPP_misses_def shown_def split: sum.split throwable.split)

lemma shown_message: "shown (buildMessage lib e h)"
  by (cases h) (auto intro!: shown_bind shown_pp)

lemma shown_info: "shown (formInfoMessage lib m link est a hearts h)"
  by (auto intro!: shown_bind shown_pp shown_message simp: formInfoMessage_def Let_def estimateMessage_def future_you_def
      split: option.split)

lemma shown_song: "shown (song_info sg x i user m h)"
  by (simp add: song_info_def shown_info)

lemma shown_hits: "shown (acc_hits parse texts l s)"
proof -
  have "shown (acc_int l t)" "shown (parseAcc parse texts t)" for t
    by (auto simp: acc_int_def parseAcc_def split: sum.split option.split number.split)
  then show ?thesis by (auto intro!: shown_bind simp: acc_hits_def split: option.split)
qed

definition spoken :: "'z bot_env \<Rightarrow> lang \<Rightarrow> throwable + string \<Rightarrow> response" where
  "spoken env l r = (case r of Inl e \<Rightarrow> handleException env e l | Inr t \<Rightarrow> Success t)"

lemma answer_spoken:
  assumes "shown r"
  shows "(case answer r of
       Inl e \<Rightarrow> if caught e then Inr (and_then n (Some (handleException env e l))) else Inl e
     | Inr q \<Rightarrow> Inr (and_then n q)) = (Inr (and_then n (Some (spoken env l r))) :: throwable + response)"
  using assms by (cases r) (simp_all add: answer_def sum_bind_def spoken_def shown_def)

text \<open>The comments of the languages throw nothing that would not be shown.\<close>

definition comments_shown :: "('i, 'j, 'l, 'z) song_env \<Rightarrow> bool" where
  "comments_shown sg \<longleftrightarrow> (\<forall>l u m s. shown (optionalCommentOnNP sg l u m s))"

definition said :: "'z bot_env \<Rightarrow> lang \<Rightarrow> throwable + response \<Rightarrow> response" where
  "said env l r = (case r of Inl e \<Rightarrow> handleException env e l | Inr x \<Rightarrow> x)"

lemma shown_comment: "shown r \<Longrightarrow> shown c \<Longrightarrow> shown (commented r c)"
  by (auto intro!: shown_bind simp: commented_def)

lemma said_none: "said env l (commented r (Inr NoResponse)) = spoken env l r"
  by (cases r) (simp_all add: commented_none said_def spoken_def sum_bind_def)

lemma answer_said:
  assumes "shown r"
  shows "(case sum_bind r (\<lambda>x. Inr (Some x)) of
       Inl e \<Rightarrow> if caught e then Inr (and_then n (Some (handleException env e l))) else Inl e
     | Inr q \<Rightarrow> Inr (and_then n q)) = (Inr (and_then n (Some (said env l r))) :: throwable + response)"
  using assms by (cases r) (simp_all add: sum_bind_def said_def shown_def)

lemma tsundere_shown: "shown (tsundere_comment lib pp low hard easy draw m)"
  by (auto intro!: shown_bind shown_pp simp: tsundere_comment_def Let_def)

section \<open>From message to message\<close>

text \<open>Settings are loaded from the row of the user.\<close>

lemma load_again:
  assumes "load_user_data jk i s = (Inr (), t)" and "rows s' i = rows s i" and "database s' = Working"
  shows "load_user_data jk i s' = (Inr (), s'\<lparr>current := current t\<rparr>)"
  using assms by (auto simp: load_user_data_def sql_failure_def split: database.splits option.splits)

lemma view_song:
  assumes "user_view jk d = user_view jk d'"
  shows "lastSongInfo d = lastSongInfo d'" "v2 d = v2 d'"
    "map_option (clearModified jk) (load_language jk d) = map_option (clearModified jk) (load_language jk d')"
  using assms by (simp_all add: user_view_def written_settings_def)

text \<open>A handler that names a beatmap, and changes nothing else of the settings, leaves it behind when they are
  closed.\<close>

lemma song_kept:
  fixes t s1 :: "('i, 'j, 'l, 'z) data_state_scheme"
  assumes "jackson_laws jk cls" and "load_user_data jk i s0 = (Inr (), s1)" and "load_language jk (current s1) = Some l"
    and "current t = setLastSongInfo (Some x) (current (speaking l s1))" and "rows t = rows s1" and "database t = Working"
  obtains s3 s4 l' where "close_user_data jk t = (Inr (), s3)" and "load_user_data jk i s3 = (Inr (), s4)"
    and "lastSongInfo (current s4) = Some x" and "v2 (current s4) = v2 (current s1)"
    and "load_language jk (current s4) = Some l'" and "clearModified jk l' = clearModified jk l"
proof -
  let ?l = "speaking l s1"
  let ?t = "?l\<lparr>current := setLastSongInfo (Some x) (current ?l)\<rparr>"
  have "data_step jk cls s1 ?l" using assms(3) by (rule speaking_step)
  moreover have "data_step jk cls ?l ?t" by (rule set_field) (simp add: setters_def)
  moreover have "data_step jk cls ?t t" by (rule elsewhere) (simp_all add: assms(4,5))
  ultimately have steps: "(data_step jk cls)\<^sup>*\<^sup>* s1 t"
    by (meson converse_rtranclp_into_rtranclp rtranclp.rtrancl_refl)
  have lang: "load_language jk (current t) = Some l" by (simp add: assms(4) load_language_def setLastSongInfo_def)
  obtain s3 where close: "close_user_data jk t = (Inr (), s3)"
    by (rule close_works [OF assms(6), of jk]) (simp_all add: lang)
  have "userid (current t) = i" using steps_userid [OF steps] loaded(4) [OF assms(2)] by simp
  then obtain s4 where s4: "load_user_data jk i s3 = (Inr (), s4)" and view: "user_view jk (current s4) = user_view jk (current t)"
    using settings_saved [OF assms(1,2) steps assms(6) close] by auto
  note same = view_song [OF view]
  obtain l' where l': "load_language jk (current s4) = Some l'" "clearModified jk l' = clearModified jk l"
    using same(3) lang by auto
  have "lastSongInfo (current s4) = Some x" "v2 (current s4) = v2 (current s1)"
    using same(1,2) by (simp_all add: assms(4) setLastSongInfo_def)
  then show thesis using that [OF close s4] l' by blast
qed

text \<open>The action that names a beatmap leaves it behind.\<close>

lemma np_message:
  assumes "jackson_laws (option_jackson opts) cls"
    and "env = settings_bot opts speak forget resolve others env0" and "npHandler env0 = np_handler sg"
    and "known env nick u" and "database s0 = Working"
    and "load_user_data (option_jackson opts) (user_id u) (news_seen nick s0) = (Inr (), s1)"
    and "load_language (option_jackson opts) (current s1) = Some l"
    and "parseNP (mod_mask sg) (speak l) action = Inr (Some (b, mods))" and "song_known sg b x i"
    and "comments_shown sg"
  defines "asked \<equiv> addLazer (song_lib sg) (current s1) mods"
  obtains q s3 s4 l' where "processPrivateAction env nick action s0 =
      (Inr (and_then (news env nick s0) (Some (said env (speak l) (commented (song_info sg x i (user_id u) asked UsualHits)
          (optionalCommentOnNP sg (speak l) u (song_meta sg x i asked) q))))), s3)"
    and "load_user_data (option_jackson opts) (user_id u) s3 = (Inr (), s4)"
    and "lastSongInfo (current s4) = Some (b, asked)" and "v2 (current s4) = v2 (current s1)"
    and "load_language (option_jackson opts) (current s4) = Some l'"
    and "clearModified (option_jackson opts) l' = clearModified (option_jackson opts) l"
proof -
  let ?l = "speaking l s1"
  define t where "t = ?l\<lparr>current := setLastSongInfo (Some (b, asked)) (current ?l)\<rparr>"
  note user = loaded [OF assms(6)]
  have t: "current t = setLastSongInfo (Some (b, asked)) (current ?l)" "rows t = rows s1" "database t = Working"
    using user(2) by (simp_all add: t_def)
  from song_kept [OF assms(1,6,7) t] obtain s3 s4 l' where close: "close_user_data (option_jackson opts) t = (Inr (), s3)"
    and kept: "load_user_data (option_jackson opts) (user_id u) s3 = (Inr (), s4)"
      "lastSongInfo (current s4) = Some (b, asked)" "v2 (current s4) = v2 (current s1)"
      "load_language (option_jackson opts) (current s4) = Some l'"
      "clearModified (option_jackson opts) l' = clearModified (option_jackson opts) l"
    by blast
  define r where "r = commented (song_info sg x i (user_id u) asked UsualHits)
      (optionalCommentOnNP sg (speak l) u (song_meta sg x i asked) t)"
  have np: "npHandler env action u (speak l) ?l = (sum_bind r (\<lambda>x. Inr (Some x)), t)"
    using np_answer [OF assms(8,9), of u ?l] user(4)
    by (simp add: settings_bot_parts [OF assms(2)] assms(3) t_def asked_def addLazer_def r_def)
  have "shown r" using assms(10) by (simp add: r_def shown_comment shown_song comments_shown_def)
  have "processPrivateAction env nick action s0 =
      (Inr (and_then (news env nick s0) (Some (said env (speak l) r))), s3)"
    using action_message [OF assms(2,4,5,6,7) np close] by (simp add: answer_said [OF \<open>shown r\<close>])
  then show thesis unfolding r_def by (rule that [OF _ kept])
qed

text \<open>The command goes past the handlers of resets and options.\<close>

lemma lower_prefix: "startsWith (to_lower c) p \<Longrightarrow> \<exists>r. to_lower c = p @ r"
  by (auto simp: startsWith_def) (metis append_take_drop_id)

lemma acc_dispatch:
  assumes "startsWith (to_lower c) ''acc''" and "acc_handler sg c u l s = (d, t)" and "d \<noteq> Inr None"
  shows "dispatch (reset_handler forget # options_handler opts # acc_handler sg # others) c u l s = (d, t)"
    "\<not> startsWith (to_lower c) ''fixid''"
proof -
  obtain r where r: "to_lower c = ''acc'' @ r" using lower_prefix [OF assms(1)] by blast
  then have "option_request c = None" by (simp add: option_request_def Let_def startsWith_def)
  then show "dispatch (reset_handler forget # options_handler opts # acc_handler sg # others) c u l s = (d, t)"
    using assms(2,3) r by (cases d) (auto simp: bot_bind_def bot_return_def reset_handler_def options_handler_def)
  show "\<not> startsWith (to_lower c) ''fixid''" using r by (simp add: startsWith_def)
qed

lemma acc_message_answer:
  assumes "env = settings_bot opts speak forget resolve (acc_handler sg # others) env0" and "known env nick u"
    and "load_user_data (option_jackson opts) (user_id u) s = (Inr (), s1)"
    and "load_language (option_jackson opts) (current s1) = Some l"
    and "lastSongInfo (current s1) = Some (b, mods)" and "song_known sg b x i"
    and "startsWith (to_lower c) ''acc''" and "trim c = c"
    and "getDonator env (user_id u) > 0 \<longrightarrow> \<not> has_hug False (CHR ''!'' # c)"
  shows "\<exists>t. processPrivateMessage env nick (CHR ''!'' # c) s =
    (Inr (and_then (news env nick s) (Some (spoken env (speak l)
       (sum_bind (acc_hits (parseDouble sg) (song_texts_of sg (speak l)) (speak l) (acc_message c))
         (song_info sg x i (user_id u) (addLazer (song_lib sg) (current s1) mods)))))), t)"
proof -
  let ?n = "news_seen nick (speaking l s1)"
  define r where "r = sum_bind (acc_hits (parseDouble sg) (song_texts_of sg (speak l)) (speak l) (acc_message c))
         (song_info sg x i (user_id u) (addLazer (song_lib sg) (current s1) mods))"
  note user = loaded [OF assms(3)]
  have acc: "acc_handler sg c u (speak l) ?n = (answer r, ?n)"
    using acc_answer [OF assms(7) _ assms(6), of ?n mods] assms(5) user(4) by (simp add: r_def addLazer_def)
  have some: "answer r \<noteq> Inr None" by (simp add: answer_def sum_bind_def split: sum.split)
  note route = acc_dispatch(1) [OF assms(7) acc some, of forget opts others] acc_dispatch(2) [OF assms(7) acc some]
  have "database ?n = Working" "load_language (option_jackson opts) (current ?n) \<noteq> None"
    using user(2) by (simp_all add: load_language_def)
  then obtain t where close: "close_user_data (option_jackson opts) ?n = (Inr (), t)"
    using close_works by blast
  have "shown r" unfolding r_def by (intro shown_bind shown_hits shown_song)
  then show ?thesis
    using command_message [OF assms(1-4,8) route(2) assms(9) _ some close] route(1)
    by (simp add: settings_bot_parts [OF assms(1)] answer_spoken r_def [symmetric])
qed

text \<open>The next \<open>!acc\<close>, after other messages that leave the row of the user alone.\<close>

lemma acc_later:
  assumes "env = settings_bot opts speak forget resolve (acc_handler sg # others) env0" and "known env nick u"
    and "load_user_data (option_jackson opts) (user_id u) s3 = (Inr (), s4)"
    and "lastSongInfo (current s4) = Some (b, asked)" and "v2 (current s4) = v2 d"
    and "load_language (option_jackson opts) (current s4) = Some l'" and "song_known sg b x i"
    and "rows s (user_id u) = rows s3 (user_id u)" and "database s = Working"
    and "startsWith (to_lower c) ''acc''" and "trim c = c"
    and "getDonator env (user_id u) > 0 \<longrightarrow> \<not> has_hug False (CHR ''!'' # c)"
  shows "\<exists>t. processPrivateMessage env nick (CHR ''!'' # c) s =
     (Inr (and_then (news env nick s) (Some (spoken env (speak l')
        (sum_bind (acc_hits (parseDouble sg) (song_texts_of sg (speak l')) (speak l') (acc_message c))
          (song_info sg x i (user_id u) (addLazer (song_lib sg) d asked)))))), t)"
proof -
  have "load_user_data (option_jackson opts) (user_id u) s = (Inr (), s\<lparr>current := current s4\<rparr>)"
    by (rule load_again [OF assms(3,8,9)])
  moreover have "addLazer (song_lib sg) (current s4) asked = addLazer (song_lib sg) d asked"
    using assms(5) by (simp add: addLazer_def)
  ultimately show ?thesis
    using acc_message_answer [OF assms(1,2) _ _ _ assms(7,10-12), where s = s and ?s1.0 = "s\<lparr>current := current s4\<rparr>"
      and l = l' and mods = asked]
      assms(4,6) by simp
qed

text \<open>C3. A user who has sent \<open>/np\<close> is told about that beatmap with the mods of the message, with the comment
  that the language of the user has on it (drawn in some state \<open>q\<close>; most languages have none, and then the
  answer is what \<open>said_none\<close> tells), and \<open>!acc\<close> is later answered for the same beatmap with the same mods
  (made lazer's, if the user has chosen so), and for the hits that the argument asks for: the performance
  in the answer is that of a play of this beatmap. In between, messages of other users may come, as long
  as the row of this user is left alone. What cannot be answered (an argument that cannot be read, an
  accuracy out of range, a broken beatmap, a comment that throws) is answered with the text of the
  exception; nothing is lost to the queue of responses.\<close>

theorem acc_after_np:
  assumes "jackson_laws (option_jackson opts) cls"
    and "env = settings_bot opts speak forget resolve (acc_handler sg # others) (env0\<lparr>npHandler := np_handler sg\<rparr>)"
    and "known env nick u" and "database s0 = Working"
    and "load_user_data (option_jackson opts) (user_id u) (news_seen nick s0) = (Inr (), s1)"
    and "load_language (option_jackson opts) (current s1) = Some l"
    and "parseNP (mod_mask sg) (speak l) action = Inr (Some (b, mods))" and "song_known sg b x i"
    and "comments_shown sg"
    and "asked = addLazer (song_lib sg) (current s1) mods" and "again = addLazer (song_lib sg) (current s1) asked"
    and "processPrivateAction env nick action s0 = (r, s3)"
    and "rows s (user_id u) = rows s3 (user_id u)" and "database s = Working"
    and "startsWith (to_lower c) ''acc''" and "trim c = c"
    and "getDonator env (user_id u) > 0 \<longrightarrow> \<not> has_hug False (CHR ''!'' # c)"
  shows "(\<exists>q. r = Inr (and_then (news env nick s0) (Some (said env (speak l)
         (commented (song_info sg x i (user_id u) asked UsualHits)
           (optionalCommentOnNP sg (speak l) u (song_meta sg x i asked) q))))))
    \<and> (\<exists>l' t. clearModified (option_jackson opts) l' = clearModified (option_jackson opts) l
        \<and> processPrivateMessage env nick (CHR ''!'' # c) s =
           (Inr (and_then (news env nick s) (Some (spoken env (speak l')
              (sum_bind (acc_hits (parseDouble sg) (song_texts_of sg (speak l')) (speak l') (acc_message c))
                (song_info sg x i (user_id u) again))))), t))"
proof -
  have np: "npHandler (env0\<lparr>npHandler := np_handler sg\<rparr>) = np_handler sg" by simp
  obtain q t3 s4 l' where said: "processPrivateAction env nick action s0 =
      (Inr (and_then (news env nick s0) (Some (said env (speak l)
         (commented (song_info sg x i (user_id u) asked UsualHits)
           (optionalCommentOnNP sg (speak l) u (song_meta sg x i asked) q))))), t3)"
    and load: "load_user_data (option_jackson opts) (user_id u) t3 = (Inr (), s4)"
    and song: "lastSongInfo (current s4) = Some (b, asked)" and v2: "v2 (current s4) = v2 (current s1)"
    and lang: "load_language (option_jackson opts) (current s4) = Some l'"
      "clearModified (option_jackson opts) l' = clearModified (option_jackson opts) l"
    using np_message [OF assms(1,2) np assms(3-9), folded assms(10)] by blast
  have "r = Inr (and_then (news env nick s0) (Some (said env (speak l)
      (commented (song_info sg x i (user_id u) asked UsualHits)
        (optionalCommentOnNP sg (speak l) u (song_meta sg x i asked) q)))))" "s3 = t3"
    using said assms(12) by simp_all
  then show ?thesis
    using acc_later [OF assms(2,3) load song v2 lang(1) assms(8) _ assms(14-17)] assms(13) lang(2)
    unfolding assms(11) by blast
qed

section \<open>Example\<close>

definition example_song_lib :: song_lib where
  "example_song_lib = \<lparr>getMods_of = (\<lambda>_. []), getMask_of = (\<lambda>_. 0), is_mod = (\<lambda>_ _. False), isEffective = (\<lambda>_. True),
     getShortName = (\<lambda>s. s), calcTotalLength = (\<lambda>l _. l), calcBpm = (\<lambda>x _. x), calcAR = (\<lambda>x _. x), calcOd = (\<lambda>x _. x),
     getAccuracy = exact_accuracy, total = (\<lambda>score _. of_int (count300 score)), range_message = (\<lambda>_. ''out of range'')\<rparr>"

definition example_beatmap :: api_beatmap where
  "example_beatmap = \<lparr>api_beatmapId = 75, artist = ''Kenji Ninuma'', title = ''DISCO PRINCE'', version = ''Normal'',
     mode = 0, maxCombo = 314, starDifficulty = 5 / 2, bpm = 120, approachRate = 6, overallDifficulty = 6, totalLength = 142\<rparr>"

definition example_impl :: impl where
  "example_impl = \<lparr>modsUsed = 0, impl_overallDifficulty = 6, impl_approachRate = 6, hitCircleCount = 160, sliderCount = 30,
     spinnerCount = 4, impl_starDiff = 5 / 2, impl_maxCombo = 314, aimDifficulty = 1, aimDifficultSliderCount = 0,
     speedDifficulty = 1, speedNoteCount = 0, sliderFactor = 1, aimDifficultStrainCount = 0,
     speedDifficultStrainCount = 0, flashlightDifficulty = 0\<rparr>"

definition example_songs :: "(bool, int option, int \<times> bool, unit) song_env" where
  "example_songs = \<lparr>song_lib = example_song_lib, song_texts_of = (\<lambda>_. example_texts),
     optionalCommentOnNP = (\<lambda>_ _ m _. tsundere_comment example_song_lib 100 (333 / 1000) ''hard'' ''easy'' 0 m),
     optionalCommentOnWith = (\<lambda>_ _ _ _. Inr NoResponse), song_hearts = (\<lambda>_. 0),
     loadOrDownload = (\<lambda>_ _. bot_return (Some example_beatmap)), loadOrCalculate = (\<lambda>_ _. bot_return (Some example_impl)),
     parseDouble = example_double, fromShortNamesContinuous = (\<lambda>_. None), mod_mask = (\<lambda>_. None),
     getRecentPlays = (\<lambda>_. bot_return [])\<rparr>"

definition tom_song_bot :: "(bool, int option, int \<times> bool, unit) data_state_ext bot_env" where
  "tom_song_bot = settings_bot small_options (\<lambda>_. english) (\<lambda>_. bot_return ()) (\<lambda>_. bot_return None)
     [acc_handler example_songs] (tom_bot\<lparr>npHandler := np_handler example_songs\<rparr>)"

lemma acc_after_np_witness:
  "\<exists>r s3 t. processPrivateAction tom_song_bot ''tom'' ''is playing [https://osu.ppy.sh/b/75 Disco Prince]'' empty_data = (r, s3)
    \<and> processPrivateMessage tom_song_bot ''tom'' ''!acc 98,5%'' s3 =
        (Inr (and_then (news tom_song_bot ''tom'' s3) (Some (spoken tom_song_bot english
           (song_info example_songs (\<lambda>_. example_beatmap) (\<lambda>_. example_impl) (user_id tom) 0
             (AccHits (dbl (9850 / 10000))))))), t)"
proof -
  have known: "known tom_song_bot ''tom'' tom"
    by (simp add: known_def tom_song_bot_def settings_bot_def tom_bot_def tom_def getIrcUserName_def bot_return_def)
  let ?n = "news_seen ''tom'' empty_data"
  have load: "load_user_data (option_jackson small_options) (user_id tom) ?n = (Inr (), ?n\<lparr>current := current tom_data\<rparr>)"
    by (simp add: small_options_def tom_def load_user_data_def empty_data_def tom_data_def sql_failure_def read_row_def
        news_seen_def)
  have lang: "load_language (option_jackson small_options) (current (?n\<lparr>current := current tom_data\<rparr>)) = Some (0, False)"
    by (simp add: small_options_def load_language_def read_language_def tom_data_def new_user_data_def unary_def)
  have np: "parseNP (mod_mask example_songs) english ''is playing [https://osu.ppy.sh/b/75 Disco Prince]'' = Inr (Some (75, 0))"
    by code_simp
  have song: "song_known example_songs 75 (\<lambda>_. example_beatmap) (\<lambda>_. example_impl)"
    by (simp add: song_known_def example_songs_def example_beatmap_def bot_return_def)
  have comments: "comments_shown example_songs" by (simp add: comments_shown_def example_songs_def tsundere_shown)
  have lazer: "addLazer (song_lib example_songs) (current (?n\<lparr>current := current tom_data\<rparr>)) m = m" for m
    by (simp add: addLazer_def tom_data_def new_user_data_def)
  have "acc_message ''acc 98,5%'' = ''98.5'' @ ''%''" by code_simp
  moreover have "fraction_text ''98.5''"
    unfolding fraction_text_def
    by (rule disjI2, rule exI [of _ "''98''"], rule exI [of _ "''5''"]) (simp add: number_def decimal_def)
  ultimately have hits: "acc_hits (parseDouble example_songs) (song_texts_of example_songs english) english (acc_message ''acc 98,5%'')
      = Inr (AccHits (dbl (9850 / 10000)))"
    using hits_accuracy [of "parseDouble example_songs" "''98.5''" 9850 "''%''"] by (simp add: example_songs_def example_double_def)
  have command: "startsWith (to_lower ''acc 98,5%'') ''acc''" "trim ''acc 98,5%'' = ''acc 98,5%''" by code_simp+
  have donator: "getDonator tom_song_bot (user_id tom) = 0"
    by (simp add: tom_song_bot_def settings_bot_def tom_bot_def)
  have laws: "jackson_laws (option_jackson small_options) (\<lambda>_ _. True)" using unary_laws by (simp add: small_options_def)
  have handler: "npHandler (tom_bot\<lparr>npHandler := np_handler example_songs\<rparr>) = np_handler example_songs" by simp
  have db: "database empty_data = Working" by (simp add: empty_data_def)
  obtain r s3 where r: "processPrivateAction tom_song_bot ''tom'' ''is playing [https://osu.ppy.sh/b/75 Disco Prince]'' empty_data = (r, s3)"
    by fastforce
  obtain t3 s4 where t3: "processPrivateAction tom_song_bot ''tom'' ''is playing [https://osu.ppy.sh/b/75 Disco Prince]'' empty_data = (r, t3)"
    "load_user_data (option_jackson small_options) (user_id tom) t3 = (Inr (), s4)"
    using np_message [OF laws tom_song_bot_def handler known db load lang np song comments] r by (metis prod.inject)
  have "database s3 = Working" using loaded(1) [OF t3(2)] t3(1) r by simp
  from acc_after_np [OF laws tom_song_bot_def known db load lang np song comments lazer [symmetric] lazer [symmetric] r _ this command]
  show ?thesis using r donator by (auto simp: hits sum_bind_def)
qed

end
