(* ===== verification/Irc_Names.thy ===== *)
theory Irc_Names
  imports Bot Prelude
begin

text \<open>
  Which user stands behind a name of the chat (\<open>tillerinobot/IrcNameResolver\<close>): a table of mappings with
  their age, a cache before it, a lock per name for those who resolve it, and mappings that are set from
  elsewhere. Names do not touch each other, so the machine is that of one name. The API is a parameter. The
  locks are not evicted while they are held.
\<close>

section \<open>The table\<close>

record mapping =
  mp_userid :: int
  mp_resolved :: int
  mp_firstresolveattempt :: int

definition HOUR :: int where
  "HOUR = 60 * 60 * 1000"

definition maxAge :: "int \<Rightarrow> int" where
  "maxAge now =
     (let maxAge = 90 * 24 * HOUR
      in if now < 1483747380000 then maxAge + min maxAge (12 * (1483747380000 - now)) else maxAge)"

definition outdated :: "int \<Rightarrow> mapping \<Rightarrow> bool" where
  "outdated now m \<longleftrightarrow>
     (mp_userid m > 0 \<and> mp_resolved m < now - maxAge now)
     \<or> (mp_userid m < 0 \<and> mp_resolved m < now - 24 * HOUR)
     \<or> (mp_userid m < 0 \<and> mp_resolved m < now - HOUR \<and> mp_firstresolveattempt m > now - 24 * HOUR)"

definition mapped_user :: "mapping \<Rightarrow> int option" where
  "mapped_user m = (if mp_userid m = -1 then None else Some (mp_userid m))"

text \<open>What becomes of a mapping, or of none, once the API has answered with a user or with \<open>null\<close>.\<close>

definition resolved_mapping :: "int \<Rightarrow> mapping option \<Rightarrow> int option \<Rightarrow> mapping" where
  "resolved_mapping now row user =
     \<lparr>mp_userid = (case user of Some i \<Rightarrow> i | None \<Rightarrow> -1), mp_resolved = now,
      mp_firstresolveattempt = (case row of None \<Rightarrow> now | Some m \<Rightarrow> mp_firstresolveattempt m)\<rparr>"

text \<open>The answer when the API fails: after a timeout, the old user if there is one.\<close>

definition failed_download :: "throwable \<Rightarrow> mapping option \<Rightarrow> throwable + int option" where
  "failed_download e row =
     (case row of
        Some m \<Rightarrow> if isIOException e \<and> isTimeout e \<and> mp_userid m > 0 then Inr (Some (mp_userid m)) else Inl e
      | None \<Rightarrow> Inl e)"

text \<open>\<open>getIDByUserName\<close> without interruption: the answer and the row.\<close>

definition getIDByUserName ::
  "int \<Rightarrow> throwable + int option \<Rightarrow> mapping option \<Rightarrow> (throwable + int option) \<times> mapping option" where
  "getIDByUserName now downloaded row =
     (if row = None \<or> outdated now (the row)
      then
        (case downloaded of
           Inl e \<Rightarrow> (failed_download e row, row)
         | Inr user \<Rightarrow>
             let m = resolved_mapping now row user in (Inr (mapped_user m), Some m))
      else (Inr (mapped_user (the row)), row))"

definition set_row :: "int \<Rightarrow> int \<Rightarrow> mapping" where
  "set_row now i = \<lparr>mp_userid = i, mp_resolved = now, mp_firstresolveattempt = 0\<rparr>"

text \<open>The two operations that set a mapping: the user that they return, and the name and the number that they
  pass to \<open>setMapping\<close>.\<close>

definition resolve_manually ::
  "(int \<Rightarrow> throwable + user option) \<Rightarrow> int \<Rightarrow> throwable + (user option \<times> (string \<times> int) option)" where
  "resolve_manually fetch i =
     (case fetch i of
        Inl e \<Rightarrow> Inl e
      | Inr None \<Rightarrow> Inr (None, None)
      | Inr (Some u) \<Rightarrow> Inr (Some u, Some (getIrcUserName u, i)))"

definition redownload_user ::
  "(string \<Rightarrow> throwable + user option) \<Rightarrow> string \<Rightarrow> throwable + (user option \<times> (string \<times> int) option)" where
  "redownload_user download_user nick =
     (case download_user nick of
        Inl e \<Rightarrow> Inl e
      | Inr None \<Rightarrow> Inr (None, Some (nick, -1))
      | Inr (Some u) \<Rightarrow> Inr (Some u, Some (nick, user_id u)))"

section \<open>The machine\<close>

text \<open>Where the one who holds the lock is: before the cache, before the table, with the row that was read,
  with the row that is to be written, or with the answer of \<open>getIDByUserName\<close>.\<close>

datatype lookup =
    Asking | Missed | Loaded "mapping option" | Writing mapping | Answering "int option"

text \<open>\<open>sets\<close> counts the calls of \<open>setMapping\<close> that have written the row and not yet invalidated the cache;
  \<open>overtaken\<close> records that a row was set between the reading of the table and the end of a lookup.\<close>

record name_state =
  clock :: int
  row :: "mapping option"
  cached :: "int option"
  holder_at :: "lookup option"
  sets :: nat
  overtaken :: bool
  answers_given :: "int option list"

definition reading :: "lookup option \<Rightarrow> bool" where
  "reading l \<longleftrightarrow> (case l of Some (Loaded _) \<Rightarrow> True | Some (Writing _) \<Rightarrow> True | Some (Answering _) \<Rightarrow> True | _ \<Rightarrow> False)"

definition answer :: "int option \<Rightarrow> name_state \<Rightarrow> name_state" where
  "answer i s = s\<lparr>holder_at := None, answers_given := answers_given s @ [i]\<rparr>"

inductive name_step :: "name_state \<Rightarrow> name_state \<Rightarrow> bool" where
  acquire: "holder_at s = None \<Longrightarrow> name_step s (s\<lparr>holder_at := Some Asking\<rparr>)"
| hit: "holder_at s = Some Asking \<Longrightarrow> cached s = Some i \<Longrightarrow> name_step s (answer (Some i) s)"
| miss: "holder_at s = Some Asking \<Longrightarrow> cached s = None \<Longrightarrow> name_step s (s\<lparr>holder_at := Some Missed\<rparr>)"
| read: "holder_at s = Some Missed \<Longrightarrow> name_step s (s\<lparr>holder_at := Some (Loaded (row s))\<rparr>)"
| fresh: "holder_at s = Some (Loaded (Some m)) \<Longrightarrow> \<not> outdated (clock s) m \<Longrightarrow>
     name_step s (s\<lparr>holder_at := Some (Answering (mapped_user m))\<rparr>)"
| failed: "holder_at s = Some (Loaded r) \<Longrightarrow> r = None \<or> outdated (clock s) (the r) \<Longrightarrow>
     failed_download e r = Inl e' \<Longrightarrow> name_step s (s\<lparr>holder_at := None\<rparr>)"
| timeout: "holder_at s = Some (Loaded r) \<Longrightarrow> r = None \<or> outdated (clock s) (the r) \<Longrightarrow>
     failed_download e r = Inr i \<Longrightarrow> name_step s (s\<lparr>holder_at := Some (Answering i)\<rparr>)"
| download: "holder_at s = Some (Loaded r) \<Longrightarrow> r = None \<or> outdated (clock s) (the r) \<Longrightarrow>
     name_step s (s\<lparr>holder_at := Some (Writing (resolved_mapping (clock s) r user))\<rparr>)"
| store: "holder_at s = Some (Writing m) \<Longrightarrow>
     name_step s (s\<lparr>row := Some m, holder_at := Some (Answering (mapped_user m))\<rparr>)"
| database_error: "holder_at s = Some Missed \<or> holder_at s = Some (Writing m) \<Longrightarrow>
     name_step s (s\<lparr>holder_at := None\<rparr>)"
| return_none: "holder_at s = Some (Answering None) \<Longrightarrow> name_step s (answer None s)"
| put: "holder_at s = Some (Answering (Some i)) \<Longrightarrow> name_step s (answer (Some i) (s\<lparr>cached := Some i\<rparr>))"
| set_mapping: "name_step s (s\<lparr>row := Some (set_row (clock s) i), sets := sets s + 1,
     overtaken := overtaken s \<or> reading (holder_at s)\<rparr>)"
| invalidate: "sets s > 0 \<Longrightarrow> name_step s (s\<lparr>cached := None, sets := sets s - 1\<rparr>)"
| evict: "name_step s (s\<lparr>cached := None\<rparr>)"
| pass: "d \<ge> 0 \<Longrightarrow> name_step s (s\<lparr>clock := clock s + d\<rparr>)"

definition new_name :: "int \<Rightarrow> mapping option \<Rightarrow> name_state" where
  "new_name now r = \<lparr>clock = now, row = r, cached = None, holder_at = None, sets = 0, overtaken = False,
     answers_given = []\<rparr>"

text \<open>What the steps of one lookup do when nothing comes between them is what \<open>getIDByUserName\<close> does.\<close>

lemma undisturbed_lookup:
  assumes "holder_at s = Some Missed" "getIDByUserName (clock s) downloaded (row s) = (Inr i, r)"
  shows "name_step\<^sup>*\<^sup>* s (s\<lparr>row := r, holder_at := Some (Answering i)\<rparr>)"
proof -
  let ?s = "s\<lparr>holder_at := Some (Loaded (row s))\<rparr>"
  have 1: "name_step s ?s" using assms(1) by (rule name_step.read)
  have 2: "name_step\<^sup>*\<^sup>* ?s (s\<lparr>row := r, holder_at := Some (Answering i)\<rparr>)"
  proof (cases "row s = None \<or> outdated (clock s) (the (row s))")
    case False
    then obtain m where m: "row s = Some m" "\<not> outdated (clock s) m" by auto
    then have "i = mapped_user m" "r = row s" using assms(2) by (simp_all add: getIDByUserName_def)
    then have end_state: "s\<lparr>row := r, holder_at := Some (Answering i)\<rparr> = ?s\<lparr>holder_at := Some (Answering (mapped_user m))\<rparr>"
      by (cases s) simp
    show ?thesis unfolding end_state by (rule r_into_rtranclp, rule name_step.fresh) (simp_all add: m)
  next
    case old: True
    show ?thesis
    proof (cases downloaded)
      case (Inl e)
      then have failed: "failed_download e (row s) = Inr i" and "r = row s"
        using assms(2) old by (auto simp: getIDByUserName_def)
      then have end_state: "s\<lparr>row := r, holder_at := Some (Answering i)\<rparr> = ?s\<lparr>holder_at := Some (Answering i)\<rparr>"
        by (cases s) simp
      show ?thesis unfolding end_state
        by (rule r_into_rtranclp, rule name_step.timeout [of _ "row s" e]) (simp_all add: old failed)
    next
      case (Inr user)
      let ?m = "resolved_mapping (clock s) (row s) user"
      let ?w = "s\<lparr>holder_at := Some (Writing ?m)\<rparr>"
      have "i = mapped_user ?m" "r = Some ?m" using assms(2) old Inr by (auto simp: getIDByUserName_def Let_def)
      moreover have "name_step ?s ?w" using name_step.download [of ?s "row s" user] old by simp
      moreover have "name_step ?w (s\<lparr>row := Some ?m, holder_at := Some (Answering (mapped_user ?m))\<rparr>)"
        using name_step.store [of ?w ?m] by simp
      ultimately show ?thesis by (metis converse_rtranclp_into_rtranclp r_into_rtranclp)
    qed
  qed
  show ?thesis using 1 2 by (rule converse_rtranclp_into_rtranclp)
qed

section \<open>The cache agrees with the table\<close>

definition row_user :: "name_state \<Rightarrow> int option" where
  "row_user s = (case row s of None \<Rightarrow> None | Some m \<Rightarrow> mapped_user m)"

definition name_ok :: "name_state \<Rightarrow> bool" where
  "name_ok s \<longleftrightarrow> overtaken s \<or>
     ((sets s = 0 \<longrightarrow> cached s = None \<or> cached s = row_user s)
     \<and> (holder_at s \<noteq> None \<longrightarrow> holder_at s \<noteq> Some Asking \<longrightarrow> cached s = None)
     \<and> (\<forall>r. holder_at s = Some (Loaded r) \<longrightarrow> r = row s)
     \<and> (\<forall>i. holder_at s = Some (Answering i) \<longrightarrow> i = row_user s))"

lemma name_step_ok: "name_step s t \<Longrightarrow> name_ok s \<Longrightarrow> name_ok t"
proof (induction rule: name_step.induct)
  case (timeout s r e i)
  then show ?case
    by (auto simp: name_ok_def row_user_def failed_download_def mapped_user_def split: option.splits if_splits)
qed (auto simp: name_ok_def row_user_def answer_def reading_def split: option.splits lookup.splits)

interpretation names: invariant_machine "\<lambda>s. \<exists>now r. s = new_name now r" name_step name_ok
proof
  show "name_ok s" if "\<exists>now r. s = new_name now r" for s
    using that by (auto simp: name_ok_def new_name_def)
qed (rule name_step_ok)

text \<open>A lookup has read the row of user 1 when the name is mapped to user 2.\<close>

definition old_row :: "mapping option" where
  "old_row = Some \<lparr>mp_userid = 1, mp_resolved = 2000000000000, mp_firstresolveattempt = 0\<rparr>"

definition after_race :: name_state where
  "after_race = \<lparr>clock = 2000000000000, row = Some (set_row 2000000000000 2), cached = Some 1, holder_at = None,
     sets = 0, overtaken = True, answers_given = [Some 1]\<rparr>"

text \<open>The lookup alone, up to the point where it has its answer.\<close>

definition looked_up :: name_state where
  "looked_up = (new_name 2000000000000 old_row)\<lparr>holder_at := Some (Answering (Some 1))\<rparr>"

lemma old_row_looked_up: "name_step\<^sup>*\<^sup>* (new_name 2000000000000 old_row) looked_up"
proof -
  define s0 where "s0 = new_name 2000000000000 old_row"
  define s1 where "s1 = s0\<lparr>holder_at := Some Asking\<rparr>"
  define s2 where "s2 = s1\<lparr>holder_at := Some Missed\<rparr>"
  note defs = s0_def s1_def s2_def looked_up_def new_name_def
  have 1: "name_step s0 s1" unfolding s1_def by (rule acquire) (simp add: defs)
  have 2: "name_step s1 s2" unfolding s2_def by (rule miss) (simp_all add: defs)
  have "fst (getIDByUserName (clock s2) (Inr None) (row s2)) = Inr (Some 1)"
    "snd (getIDByUserName (clock s2) (Inr None) (row s2)) = old_row"
    by (simp_all add: defs getIDByUserName_def old_row_def outdated_def maxAge_def HOUR_def mapped_user_def)
  then have 3: "name_step\<^sup>*\<^sup>* s2 (s2\<lparr>row := old_row, holder_at := Some (Answering (Some 1))\<rparr>)"
    using undisturbed_lookup [of s2 "Inr None" "Some 1" old_row] by (simp add: prod_eq_iff defs)
  then show ?thesis
    unfolding s0_def [symmetric] looked_up_def using 1 2 3 by (simp add: defs)
qed

lemma race: "name_step\<^sup>*\<^sup>* (new_name 2000000000000 old_row) after_race"
proof -
  define s5 where "s5 = looked_up\<lparr>row := Some (set_row 2000000000000 2), sets := 1, overtaken := True\<rparr>"
  define s6 where "s6 = s5\<lparr>cached := None, sets := 0\<rparr>"
  note defs = s5_def s6_def looked_up_def new_name_def
  have 5: "name_step looked_up s5" using set_mapping [of looked_up 2] by (simp add: defs reading_def)
  have 6: "name_step s5 s6" using invalidate [of s5] by (simp add: defs)
  have 7: "name_step s6 after_race" using put [of s6 1] by (simp add: defs answer_def after_race_def)
  show ?thesis using old_row_looked_up 5 6 7 by (meson rtranclp.rtrancl_into_rtrancl)
qed

text \<open>C35. As long as no mapping of a name is set while a lookup of it has read the table and is not done, the
  cache never disagrees with the table, except between the two halves of \<open>setMapping\<close>. The condition is
  needed: a lookup that is overtaken leaves the old user in the cache, although the cache has been
  invalidated and nothing is under way any more.\<close>

theorem name_cache_agrees:
  "(name_step\<^sup>*\<^sup>* (new_name now r) s \<and> \<not> overtaken s \<and> sets s = 0 \<longrightarrow> cached s = None \<or> cached s = row_user s)
    \<and> (\<exists>r t. name_step\<^sup>*\<^sup>* (new_name 2000000000000 r) t \<and> holder_at t = None \<and> sets t = 0
         \<and> cached t = Some 1 \<and> row_user t = Some 2)"
proof
  show "name_step\<^sup>*\<^sup>* (new_name now r) s \<and> \<not> overtaken s \<and> sets s = 0 \<longrightarrow> cached s = None \<or> cached s = row_user s"
    using names.reachable_good [of "new_name now r" s] by (auto simp: name_ok_def)
  show "\<exists>r t. name_step\<^sup>*\<^sup>* (new_name 2000000000000 r) t \<and> holder_at t = None \<and> sets t = 0
         \<and> cached t = Some 1 \<and> row_user t = Some 2"
    using race by (intro exI [of _ old_row] exI [of _ after_race])
      (simp add: after_race_def row_user_def set_row_def mapped_user_def)
qed

lemma name_cache_agrees_witness: "\<exists>s. cached s = Some 1 \<and> cached s = row_user s"
proof -
  let ?s = "answer (Some 1) (looked_up\<lparr>cached := Some 1\<rparr>)"
  have "name_step looked_up ?s" using put [of looked_up 1] by (simp add: looked_up_def)
  then have "name_step\<^sup>*\<^sup>* (new_name 2000000000000 old_row) ?s"
    using old_row_looked_up by (rule rtranclp.rtrancl_into_rtrancl [rotated])
  moreover have "\<not> overtaken ?s" "sets ?s = 0" "cached ?s = Some 1"
    by (simp_all add: looked_up_def answer_def new_name_def)
  ultimately have "cached ?s = row_user ?s"
    using name_cache_agrees [of 2000000000000 old_row ?s] by fastforce
  then show ?thesis using \<open>cached ?s = Some 1\<close> by blast
qed

end
