(* ===== verification/Spec2Isabelle.thy ===== *)
theory Spec2Isabelle
  imports Js_Merge Site Countdown Beatmap_Paging Beatmap_Cache
    Rate_Limiter Recommendation_History Songs_Correct Irc_Names
begin

text \<open>
  A verification development for Tillerinobot: the web site ppaddict, and the core of the chat bot.

  \<^bold>\<open>The program.\<close> The server renders HTML (\<open>ppaddict-site/\<dots>/rest\<close>) that htmx swaps into the page;
  the page's own script, \<open>ppaddict-site/src/main/resources/static/code.js\<close>, edits the request for the
  table of beatmaps, fills and opens dialogs, shows help popups, counts down to a reload, and shows a
  welcome dialog. This development models all of \<open>code.js\<close>, function by function, and of the server
  behind it the comments of the users, the search of the table of beatmaps, its pages, and the cache of
  selections beside the reload of the beatmaps.

  The bot (\<open>tillerinobot/\<dots>\<close>) takes events of a chat from a queue, answers them, and recommends beatmaps.
  Of it are modelled the way of an event from the preprocessor, which asks the bouncer, through queue and
  handler to the postprocessor, which sends the response and tells the bouncer; the rate limiter that its
  threads share; the handling of an event itself (\<open>IRCBot\<close>), with its exceptions, its news, and the order in
  which command handlers are asked; how commands are recognised; the settings of the users and the commands
  that show and set them; the commands on a beatmap, from the number of hits of a play to the message; and
  recommendations: the parser of requests with its predicates on beatmaps, the
  manager with its samplers and its table of what was given, the sampler that draws, and the list of
  recommendations that the site shows.

  \<^bold>\<open>Theories.\<close>

    \<^item> \<open>Prelude\<close>: handlers with exceptions and state (\<open>('s, 'a) js\<close>), decimal notation, the locale
      \<open>invariant_machine\<close>, association lists.
    \<^item> \<open>Js_Number\<close>: \<open>String.split\<close>, \<open>parseInt\<close>, \<open>toTime\<close>, and the printing of a time by
      \<open>BeatmapTableResource.FilterField.formatValue\<close>; C1.
    \<^item> \<open>Js_Heap\<close>: objects in a heap, property access, \<open>JSON.stringify\<close> and \<open>JSON.parse\<close>, \<open>deepMerge\<close>,
      \<open>rangeReq\<close> and the htmx extension \<open>postrangerequest\<close>. The recursion of \<open>deepMerge\<close> and of
      \<open>JSON.stringify\<close> is bounded by a stack; running out of it is the \<open>RangeError\<close> of the language,
      and the theorems show that a frame per level of nesting is enough.
    \<^item> \<open>Js_Merge\<close>: trees without sharing, held by the heap; \<open>deepMerge\<close> refines the merge of trees
      (C2), and \<open>rangeReq\<close> copies or modifies the page's request accordingly (C4, C5).
    \<^item> \<open>Dom\<close>: the document as a tree of numbered elements, selectors, edits, dialogs, the rules of
      style sheets and \<open>modifyRule\<close>; what edits do to queries and identifiers.
    \<^item> \<open>Layout\<close>: the layout engine as a parameter (\<open>browser\<close>) and \<open>positionRelativeTo\<close>.
    \<^item> \<open>Help\<close>, \<open>Help_Correct\<close>: \<open>closeAllHelp\<close>, \<open>outsideClick\<close>, \<open>collectHelpAnchors\<close>, \<open>showHelp\<close>, and
      why they are right (C6 to C9, C11).
    \<^item> \<open>Dialogs\<close>: \<open>updateMoreDialogLinks\<close>, \<open>updateEditDialog\<close>, the click listener, with the place of
      the dialog that it opens (C14).
    \<^item> \<open>Welcome\<close>: the cookie jar, the regular expression, \<open>showWelcomeIfNeeded\<close> (C15, C16).
    \<^item> \<open>Countdown\<close>: intervals and \<open>startCountdown\<close> as a state machine (C17 to C19).
    \<^item> \<open>Site\<close>: all handlers of the page as one machine, with its invariant (C20).
    \<^item> \<open>Java_Base\<close>, \<open>Java_Double\<close>: exceptions as values, strings, sorted sets of strings; \<open>double\<close> as
      rationals rounded to 53 bits, ties to even (no overflow, no negative zero, no subnormal numbers).
    \<^item> \<open>Comments\<close>: \<open>PersistentUserData.Comments\<close> and \<open>UserDataServiceImpl.saveComment\<close>; the set of
      strings as a map (locale \<open>keyed_store\<close>, C21), what saving a comment shows, and where the set is no map.
    \<^item> \<open>Beatmap_Table\<close>: the request (\<open>shared\<close>) and \<open>BeatmapTableServiceImpl.executeBeatmapSearch\<close>.
    \<^item> \<open>Beatmap_Paging\<close>: \<open>makeBundle\<close>, \<open>makeBeatmap\<close>, \<open>ago\<close>, the pager and the sort headers of
      \<open>BeatmapTableResource\<close> (C24).
    \<^item> \<open>Beatmap_Search\<close>: what a search finds (C26), and where rounding hides a beatmap.
    \<^item> \<open>Beatmap_Cache\<close>: \<open>PpaddictBackendImpl.reloadBeatmaps\<close> and \<open>BeatmapTableServiceImpl.getAll\<close> as
      one machine over runs (C28).
    \<^item> \<open>Rate_Limiter\<close>: \<open>RateLimiter\<close> with any number of threads; how many requests get through (C29) and
      for whom permits are kept (C30).
    \<^item> \<open>Chat_Response\<close>: \<open>GameChatResponse\<close>, chained and flattened.
    \<^item> \<open>Bouncer\<close>: \<open>Bouncer\<close>, the answer to a refused event in \<open>MessagePreprocessor\<close>, and
      \<open>ResponsePostprocessor.onResponse\<close> with its retries (C32); the locales \<open>user_lock\<close> and \<open>expiring_lock\<close>
      state what the pipeline relies on.
    \<^item> \<open>Chat_Pipeline\<close>: all events on their way at once; one request per user (C33), and nobody is locked
      out (C34).
    \<^item> \<open>Sampler\<close>: \<open>recommendations.Sampler\<close>; what a draw selects, sampling without replacement
      (C36: nothing is drawn twice whatever the weights are, and nothing is left out if their sums are not
      rounded), and what an element without weight does.
    \<^item> \<open>Predicates\<close>: \<open>NumericPropertyPredicate\<close>, \<open>ExcludeMod\<close>, \<open>NumericPredicateBuilder\<close> and
      \<open>PredicateParser\<close>; contradictions (C38) and the meaning of an argument (C39).
    \<^item> \<open>Request_Parser\<close>: \<open>RecommendationRequestParser.parseSamplerSettings\<close>; what an accepted request
      promises (C40).
    \<^item> \<open>Recommendations\<close>, \<open>Recommendation_History\<close>: \<open>RecommendationsManager\<close>, \<open>GivenRecommendation\<close>,
      \<open>RecommendHandler\<close> and the lists of \<open>RecommendationsServiceImpl\<close>; what a sampler is made of (C10).
      No lock is held during a request, so that the second theory takes requests apart into phases that
      interleave, with the samplers as shared objects: nothing is given twice as long as the requests of
      one user do not overlap (C13), and if they do, it can be (\<open>overlap_repeats\<close>). A request that runs alone
      is the function of the first theory (\<open>chat_steps\<close>, \<open>refill_steps\<close>, \<open>hide_steps\<close>).
    \<^item> \<open>Bot\<close>, \<open>Bot_Correct\<close>: \<open>IRCBot\<close>; an event is answered, and the user may enter again, unless an
      exception comes that the bot does not catch, an interrupt above all: then the event is lost and the
      user refused (C25); which handler answers, and which news are shown.
    \<^item> \<open>Commands\<close>: \<open>CommandHandler.WithShorthand\<close> (C37) and three small handlers; the Levenshtein distance
      as the least number of edits.
    \<^item> \<open>Now_Playing\<close>: the regular expression of \<open>NPHandler\<close> and \<open>parseNP\<close>; the messages that are read (C12).
    \<^item> \<open>User_Data\<close>, \<open>User_Data_Correct\<close>: \<open>UserDataManager\<close>; no change of the settings is lost (C27).
    \<^item> \<open>Irc_Names\<close>: \<open>IrcNameResolver\<close>, its table and its cache under interleaved lookups and changes; when the
      cache agrees with the table (C35).
    \<^item> \<open>Options\<close>, \<open>Options_Correct\<close>: \<open>OptionsHandler\<close> and the handlers of the options.
    \<^item> \<open>Bot_Options\<close>: \<open>FixIDHandler\<close>, and the bot put together from \<open>IRCBot\<close>, the settings and the options;
      what one message sets is what another one shows (C31); how a message or an action runs through the
      user, the settings and the news to the handlers.
    \<^item> \<open>Accuracy\<close>, \<open>Accuracy_Model\<close>: \<open>diff/AccuracyDistribution\<close>: the search for the closest distribution of
      hits is optimal, and the fitted model gives a play of about the accuracy asked for (C23). Rounding
      is bounded, and the polynomial by its coefficients in the basis of Bernstein.
    \<^item> \<open>Acc_Argument\<close>: the regular expressions and numbers of \<open>AccHandler\<close>; how \<open>!acc\<close> is read (C22).
    \<^item> \<open>Song_Info\<close>: \<open>PercentageEstimatesImpl\<close> and the message of \<open>BeatmapMeta\<close>; an accuracy is shown as it was
      typed, and its performance is that of a play.
    \<^item> \<open>Songs\<close>, \<open>Songs_Correct\<close>: \<open>DiffEstimateProvider.loadBeatmap\<close>, \<open>AccHandler\<close>, \<open>WithHandler\<close>, \<open>NPHandler\<close>,
      \<open>RecentHandler\<close>, with the comment of the language that follows some answers (the two languages that
      have one are \<open>tsundere_comment\<close>); the beatmap of \<open>/np\<close> is the beatmap of a later \<open>!acc\<close> (C3).

  \<^bold>\<open>State.\<close> The document, the style sheets and \<open>_helpFiltersAutoOpened\<close> are the record \<open>page\<close>; the
  object \<open>window.__rangeRequest\<close> lives in \<open>jsstate\<close>; \<open>_countdownInterval\<close> with the intervals of the
  browser in \<open>timers\<close>; the cookies in a list of \<open>cookie\<close>s. Identifiers of elements (\<open>next_nid\<close>) stand
  for the identity of DOM nodes. The locale \<open>invariant_machine\<close> is interpreted for the countdown, for
  the page, for the cache of selections, for the rate limiter, for the pipeline of the bot, for the
  recommendations, for the settings of a user and for the names of users. The state of the bot (\<open>bot_state\<close>) is extended by the
  settings (\<open>data_state\<close>); the actions of its parts are functions on the state that may throw. The bouncer is a map
  from nicks to payloads, the queues of permits are their lengths.

  \<^bold>\<open>Bounds.\<close> The loop that sends a response makes at most ten attempts per message, as in the code. A
  sample takes its draws from a list; a draw that selects nothing is followed by the next one, and
  \<open>sample_proportional\<close> and C36 show that one draw per element is enough when no sum is rounded. No other definition has fuel.

  \<^bold>\<open>Simplifications.\<close> Numbers of a request are integers or \<open>NaN\<close> (the page sends no others: decimals are
  rounded times one hundred), coordinates are rationals. A JSON text is represented by the tree it
  denotes. Objects have data properties only, and the attribute values that select an edge or a side
  are never names of \<open>Object.prototype\<close>. Markup assigned to \<open>innerHTML\<close> is kept as a string. The target
  of a click is an element of the document. The markup of the server and the stylesheets themselves,
  htmx, and the rendering of the browser are not modelled; assumptions on the layout engine are
  explicit hypotheses (\<open>overlay_browser\<close>).

  Parameters of the bot's model are the outcomes of the writer, the Levenshtein distance (given by what it
  is documented to compute), the library of mods, \<open>Double.parseDouble\<close>, the recommender behind the manager
  (asked not to return what it is told to exclude, and nothing twice in one answer), Jackson (asked to read what it wrote), the API of osu!,
  where beatmaps and their difficulty come from, what the library of osu! computes of mods, the texts and
  comments of the languages, and whether the user is a donator. \<open>Bot\<close> takes the command handlers, too, as a
  parameter, of which it asks only that they answer with flat responses; what they may throw that the bot
  does not catch is a parameter of C25.
  The Java part takes letters as ASCII where it changes their case. Not modelled are the handlers that only
  call services and format their answer (\<open>update\<close>, \<open>debug\<close>),
  the recommenders, the formulas of difficulty and performance (powers and logarithms of fitted
  constants; \<open>total\<close> of \<open>Song_Info\<close> stands for them), SQL and entities, the HTTP endpoints, the message broker and the IRC and websocket processes,
  the login, and the GWT client that the page replaces.
\<close>

end
